(* ===== verification/Prelude.thy ===== *)
theory Prelude
  imports "HOL-Library.Word"
begin

text \<open>
  Shared vocabulary of the sockify development.

  The machine types of \<^verbatim>\<open>include/sockify/core.h\<close> are words: \<open>byte\<close> is
  \<^verbatim>\<open>unsigned char\<close>, \<open>u16\<close>, \<open>u32\<close> and \<open>u64\<close> are the typedefs of that header and
  \<^verbatim>\<open>unsigned int\<close> is \<open>u32\<close>. A \<^verbatim>\<open>size_t\<close> is a natural number below \<open>size_lim\<close>
  (\<open>2 ^ 64\<close>); every \<^verbatim>\<open>size_t\<close> sum or difference whose operands are not bounded by a
  preceding guard goes through \<open>sz_add\<close>, \<open>sz_sub\<close> and \<open>sz_mul\<close>, which wrap around as C's
  unsigned arithmetic does. A pointer argument that the code compares with 0 is an
  \<open>option\<close> (\<open>'a ptr\<close>), \<open>None\<close> being the null pointer. The return codes are the
  constructors of \<open>sockify_rc\<close>, with their integer values in \<open>rc_code\<close>; the last two are defined in
  \<^verbatim>\<open>include/sockify/tls.h\<close> (lines 7 and 8), the others in \<^verbatim>\<open>core.h\<close>.

  The collections \<open>size_simps\<close> and \<open>byte_simps\<close> carry the arithmetic of the component
  proofs.
\<close>

unbundle bit_operations_syntax

type_synonym byte = "8 word"
type_synonym u16 = "16 word"
type_synonym u32 = "32 word"
type_synonym u64 = "64 word"
type_synonym size_t = nat
type_synonym 'a ptr = "'a option"

named_theorems size_simps "size_t arithmetic that does not wrap"
named_theorems byte_simps "bit-level facts on bytes and words"

section \<open>Return codes\<close>

datatype sockify_rc =
    SOCKIFY_OK
  | SOCKIFY_ERR_INVALID
  | SOCKIFY_ERR_NOMEM
  | SOCKIFY_ERR_OVERFLOW
  | SOCKIFY_ERR_AGAIN
  | SOCKIFY_ERR_CLOSED
  | SOCKIFY_ERR_SYS
  | SOCKIFY_ERR_PROTOCOL
  | SOCKIFY_ERR_UNSUPPORTED
  | SOCKIFY_ERR_TLS_HANDSHAKE
  | SOCKIFY_ERR_TLS_VERIFY

fun rc_code :: "sockify_rc \<Rightarrow> int" where
  "rc_code SOCKIFY_OK = 0"
| "rc_code SOCKIFY_ERR_INVALID = -1"
| "rc_code SOCKIFY_ERR_NOMEM = -2"
| "rc_code SOCKIFY_ERR_OVERFLOW = -3"
| "rc_code SOCKIFY_ERR_AGAIN = -4"
| "rc_code SOCKIFY_ERR_CLOSED = -5"
| "rc_code SOCKIFY_ERR_SYS = -6"
| "rc_code SOCKIFY_ERR_PROTOCOL = -7"
| "rc_code SOCKIFY_ERR_UNSUPPORTED = -8"
| "rc_code SOCKIFY_ERR_TLS_HANDSHAKE = -9"
| "rc_code SOCKIFY_ERR_TLS_VERIFY = -10"

section \<open>The size\_t type\<close>

definition size_lim :: nat where
  "size_lim = 2 ^ 64"

definition sz_add :: "size_t \<Rightarrow> size_t \<Rightarrow> size_t" where
  "sz_add a b = (a + b) mod size_lim"

definition sz_sub :: "size_t \<Rightarrow> size_t \<Rightarrow> size_t" where
  "sz_sub a b = (if b \<le> a then a - b else a + size_lim - b)"

definition sz_mul :: "size_t \<Rightarrow> size_t \<Rightarrow> size_t" where
  "sz_mul a b = (a * b) mod size_lim"

definition min_size :: "size_t \<Rightarrow> size_t \<Rightarrow> size_t" where
  "min_size a b = (if a < b then a else b)"

section \<open>C string literals as bytes\<close>

definition cstr :: "string \<Rightarrow> byte list" where
  "cstr s = map of_char s"

section \<open>Facts on size\_t\<close>

lemma size_lim_pos [simp]: "0 < size_lim"
  by (simp add: size_lim_def)

lemma sz_add_id [size_simps]: "a + b < size_lim \<Longrightarrow> sz_add a b = a + b"
  by (simp add: sz_add_def)

lemma sz_sub_id [size_simps]: "b \<le> a \<Longrightarrow> sz_sub a b = a - b"
  by (simp add: sz_sub_def)

lemma sz_mul_id [size_simps]: "a * b < size_lim \<Longrightarrow> sz_mul a b = a * b"
  by (simp add: sz_mul_def)

lemma min_size_min [simp]: "min_size a b = min a b"
  by (simp add: min_size_def)

lemma length_cstr [simp]: "length (cstr s) = length s"
  by (simp add: cstr_def)

lemma cstr_inject [simp]: "cstr s = cstr t \<longleftrightarrow> s = t"
proof -
  have "unat (word_of_nat (of_char c) :: byte) = of_char c" for c
    by (simp only: unsigned_of_nat take_bit_eq_mod) simp
  then have "unat (of_char c :: byte) = of_char c" for c
    by (simp add: of_nat_of_char)
  then have "inj (of_char :: char \<Rightarrow> byte)"
    by (metis injI of_char_eq_iff)
  then show ?thesis by (simp add: cstr_def inj_map_eq_map)
qed

lemma rc_code_inject: "rc_code a = rc_code b \<longleftrightarrow> a = b"
  by (cases a; cases b) simp_all

section \<open>Lists addressed by position\<close>

text \<open>A list cut at a position: the pieces a C loop over an index reads.\<close>

lemma take_Suc_nth: "i < length xs \<Longrightarrow> take (Suc i) xs = take i xs @ [xs ! i]"
  by (rule take_Suc_conv_app_nth)

lemma drop_nth_Cons: "i < length xs \<Longrightarrow> drop i xs = xs ! i # drop (Suc i) xs"
  by (rule Cons_nth_drop_Suc [symmetric])

end
