(* ===== verification/Os.thy ===== *)
theory Os
  imports Prelude
begin

text \<open>
  The operating system, the C allocator and OpenSSL as a parameter of the model. A call the
  program makes is a value of \<open>call\<close>; the environment \<open>os\<close> is any function that answers a call
  from the history of calls and answers so far, and \<open>sys\<close> makes one call and records it. The
  history \<open>trace\<close> (newest first) is therefore the whole observable behaviour of the program:
  which bytes it received and sent, on which descriptor, in which order.

  What the code relies on of the environment is stated by \<open>os_io\<close>, the documented bounds of
  \<^verbatim>\<open>recv\<close>, \<^verbatim>\<open>send\<close>, \<^verbatim>\<open>SSL_read\<close> and \<^verbatim>\<open>SSL_write\<close>.
\<close>

type_synonym socket = int
type_synonym addr = nat

datatype errno = EAGAIN | EWOULDBLOCK | EINPROGRESS | EOTHER int

datatype ssl_call =
    Ssl_init
  | Ssl_ctx_new bool
  | Ssl_ctx_min_version int
  | Ssl_ctx_session_id int "byte list"
  | Ssl_ctx_load_verify int "byte list"
  | Ssl_ctx_default_verify int
  | Ssl_ctx_use_cert int "byte list"
  | Ssl_ctx_use_key int "byte list"
  | Ssl_ctx_check_key int
  | Ssl_ctx_set_verify int bool
  | Ssl_ctx_free int
  | Ssl_new int
  | Ssl_set_fd int socket
  | Ssl_set_accept_state int
  | Ssl_set_connect_state int
  | Ssl_set_host_name int "byte list"
  | Ssl_set1_host int "byte list"
  | Ssl_do_handshake int
  | Ssl_get_verify_result int
  | Ssl_read int nat
  | Ssl_write int "byte list"
  | Ssl_shutdown int
  | Ssl_get_error int int
  | Ssl_free int

datatype event_call =
    Ev_epoll_create
  | Ev_epoll_ctl int int socket u32 addr
  | Ev_epoll_wait int
  | Ev_kqueue
  | Ev_kevent_change int "(socket \<times> int \<times> nat \<times> addr) list"
  | Ev_kevent_wait int
  | Ev_poll "(socket \<times> u16) list"

datatype mem_call =
    Mem_calloc nat
  | Mem_malloc nat
  | Mem_realloc "addr ptr" nat
  | Mem_free addr

datatype call =
    Call_recv socket nat
  | Call_send socket "byte list"
  | Call_close socket
  | Call_time
  | Call_ignore_sigpipe
  | Call_getaddrinfo "byte list" "byte list" bool
  | Call_freeaddrinfo
  | Call_socket nat
  | Call_getfl socket
  | Call_setfl_nonblock socket int
  | Call_nodelay socket
  | Call_reuseaddr socket
  | Call_bind socket nat
  | Call_listen socket int
  | Call_connect socket nat
  | Call_accept socket
  | Call_getsockopt_error socket
  | Call_mem mem_call
  | Call_event event_call
  | Call_ssl ssl_call

text \<open>An answer: the C return value, \<^verbatim>\<open>errno\<close>, an integer out-parameter, the bytes stored into a
  buffer argument or left in a fresh block, the addresses of \<^verbatim>\<open>getaddrinfo\<close>, and the ready list of the
  event calls (user pointer, filter, event bits or flags).\<close>

record reply =
  r_ret :: int
  r_errno :: errno
  r_out :: int
  r_bytes :: "byte list"
  r_addrs :: "nat list"
  r_ready :: "(addr \<times> int \<times> u32) list"

text \<open>What the code is compiled for: the preprocessor symbols \<^verbatim>\<open>__linux__\<close>, those of the BSD systems and
  macOS, or neither.\<close>

datatype platform = Platform_linux | Platform_bsd | Platform_other

type_synonym trace = "(call \<times> reply) list"
type_synonym os = "trace \<Rightarrow> call \<Rightarrow> reply"

definition sys :: "os \<Rightarrow> call \<Rightarrow> trace \<Rightarrow> reply \<times> trace" where
  "sys os c tr = (let r = os tr c in (r, (c, r) # tr))"

lemma sys_eq: "sys os c tr = (os tr c, (c, os tr c) # tr)"
  by (simp add: sys_def Let_def)

section \<open>Documented behaviour\<close>

definition os_io :: "os \<Rightarrow> bool" where
  "os_io os \<longleftrightarrow>
     (\<forall>tr fd n. let r = os tr (Call_recv fd n)
        in r_ret r \<le> int n \<and> (0 < r_ret r \<longrightarrow> length (r_bytes r) = nat (r_ret r))) \<and>
     (\<forall>tr h n. let r = os tr (Call_ssl (Ssl_read h n))
        in r_ret r \<le> int n \<and> (0 < r_ret r \<longrightarrow> length (r_bytes r) = nat (r_ret r))) \<and>
     (\<forall>tr fd bs. r_ret (os tr (Call_send fd bs)) \<le> int (length bs)) \<and>
     (\<forall>tr h bs. r_ret (os tr (Call_ssl (Ssl_write h bs))) \<le> int (length bs))"

lemma os_ioD:
  assumes "os_io os"
  shows "r_ret (os tr (Call_recv fd n)) \<le> int n"
    and "0 < r_ret (os tr (Call_recv fd n)) \<Longrightarrow>
      length (r_bytes (os tr (Call_recv fd n))) = nat (r_ret (os tr (Call_recv fd n)))"
    and "r_ret (os tr (Call_ssl (Ssl_read h n))) \<le> int n"
    and "0 < r_ret (os tr (Call_ssl (Ssl_read h n))) \<Longrightarrow>
      length (r_bytes (os tr (Call_ssl (Ssl_read h n)))) = nat (r_ret (os tr (Call_ssl (Ssl_read h n))))"
    and "r_ret (os tr (Call_send fd bs)) \<le> int (length bs)"
    and "r_ret (os tr (Call_ssl (Ssl_write h bs))) \<le> int (length bs)"
  using assms by (auto simp: os_io_def Let_def)

section \<open>What a trace says\<close>

text \<open>A byte stream is read and written through a socket or through an SSL handle. The bytes one
  recorded call delivered to the program, or took from it, on a stream.\<close>

datatype chan = Chan_fd socket | Chan_ssl int

fun call_in :: "chan \<Rightarrow> call \<times> reply \<Rightarrow> byte list" where
  "call_in ch (Call_recv fd n, r) = (if ch = Chan_fd fd \<and> 0 < r_ret r then r_bytes r else [])"
| "call_in ch (Call_ssl (Ssl_read h n), r) = (if ch = Chan_ssl h \<and> 0 < r_ret r then r_bytes r else [])"
| "call_in ch _ = []"

fun call_out :: "chan \<Rightarrow> call \<times> reply \<Rightarrow> byte list" where
  "call_out ch (Call_send fd bs, r) = (if ch = Chan_fd fd then take (nat (r_ret r)) bs else [])"
| "call_out ch (Call_ssl (Ssl_write h bs), r) = (if ch = Chan_ssl h then take (nat (r_ret r)) bs else [])"
| "call_out ch _ = []"

fun trace_in :: "chan \<Rightarrow> trace \<Rightarrow> byte list" where
  "trace_in ch [] = []"
| "trace_in ch (e # tr) = trace_in ch tr @ call_in ch e"

fun trace_out :: "chan \<Rightarrow> trace \<Rightarrow> byte list" where
  "trace_out ch [] = []"
| "trace_out ch (e # tr) = trace_out ch tr @ call_out ch e"

lemma trace_in_append: "trace_in ch (a @ b) = trace_in ch b @ trace_in ch a"
  by (induction a) simp_all

lemma trace_out_append: "trace_out ch (a @ b) = trace_out ch b @ trace_out ch a"
  by (induction a) simp_all

text \<open>How often a descriptor was opened minus how often it was closed.\<close>

fun fd_delta :: "socket \<Rightarrow> call \<times> reply \<Rightarrow> int" where
  "fd_delta f (Call_socket ai, r) = (if 0 \<le> r_ret r \<and> r_ret r = f then 1 else 0)"
| "fd_delta f (Call_accept l, r) = (if 0 \<le> r_ret r \<and> r_ret r = f then 1 else 0)"
| "fd_delta f (Call_event Ev_epoll_create, r) = (if 0 \<le> r_ret r \<and> r_ret r = f then 1 else 0)"
| "fd_delta f (Call_event Ev_kqueue, r) = (if 0 \<le> r_ret r \<and> r_ret r = f then 1 else 0)"
| "fd_delta f (Call_close fd, r) = (if fd = f then - 1 else 0)"
| "fd_delta f _ = 0"

definition fd_balance :: "trace \<Rightarrow> socket \<Rightarrow> int" where
  "fd_balance tr f = sum_list (map (fd_delta f) tr)"

lemma fd_balance_Cons [simp]: "fd_balance (e # tr) f = fd_delta f e + fd_balance tr f"
  by (simp add: fd_balance_def)

lemma fd_balance_append: "fd_balance (a @ b) f = fd_balance a f + fd_balance b f"
  by (simp add: fd_balance_def)

text \<open>The effect of a piece of code on the trace: on the stream \<open>ch\<close> (if any) it read \<open>ins\<close> and wrote
  \<open>outs\<close>, on no other stream it read or wrote anything, and it neither opened nor closed a
  descriptor.\<close>

definition io_effect :: "chan option \<Rightarrow> trace \<Rightarrow> trace \<Rightarrow> byte list \<Rightarrow> byte list \<Rightarrow> bool" where
  "io_effect ch tr tr' ins outs \<longleftrightarrow>
     (\<exists>new. tr' = new @ tr \<and>
        (\<forall>c. trace_in c new = (if ch = Some c then ins else [])) \<and>
        (\<forall>c. trace_out c new = (if ch = Some c then outs else [])) \<and>
        (\<forall>f. fd_balance new f = 0))"

abbreviation silent :: "trace \<Rightarrow> trace \<Rightarrow> bool" where
  "silent tr tr' \<equiv> io_effect None tr tr' [] []"

lemma io_effect_refl [simp]: "io_effect ch tr tr [] []"
  by (simp add: io_effect_def fd_balance_def)

lemma io_effect_trans:
  assumes "io_effect ch tr tr1 a b" and "io_effect ch tr1 tr2 c d"
  shows "io_effect ch tr tr2 (a @ c) (b @ d)"
proof -
  obtain n1 where n1: "tr1 = n1 @ tr" "\<And>x. trace_in x n1 = (if ch = Some x then a else [])"
    "\<And>x. trace_out x n1 = (if ch = Some x then b else [])" "\<And>f. fd_balance n1 f = 0"
    using assms(1) by (auto simp: io_effect_def)
  obtain n2 where n2: "tr2 = n2 @ tr1" "\<And>x. trace_in x n2 = (if ch = Some x then c else [])"
    "\<And>x. trace_out x n2 = (if ch = Some x then d else [])" "\<And>f. fd_balance n2 f = 0"
    using assms(2) by (auto simp: io_effect_def)
  show ?thesis
    unfolding io_effect_def
    by (rule exI [of _ "n2 @ n1"])
      (simp add: n1 n2 trace_in_append trace_out_append fd_balance_append)
qed

lemma silent_io: "silent tr tr' \<Longrightarrow> io_effect ch tr tr' [] []"
  by (auto simp: io_effect_def)

lemma io_then_silent: "io_effect ch tr tr1 a b \<Longrightarrow> silent tr1 tr2 \<Longrightarrow> io_effect ch tr tr2 a b"
  using io_effect_trans [of ch tr tr1 a b tr2 "[]" "[]"] silent_io by simp

lemma silent_then_io: "silent tr tr1 \<Longrightarrow> io_effect ch tr1 tr2 a b \<Longrightarrow> io_effect ch tr tr2 a b"
  using io_effect_trans [of ch tr tr1 "[]" "[]" tr2 a b] silent_io by simp

lemma silent_trans: "silent tr tr1 \<Longrightarrow> silent tr1 tr2 \<Longrightarrow> silent tr tr2"
  by (rule io_then_silent)

lemma io_effect_Cons:
  "(\<And>c. call_in c e = (if ch = Some c then a else [])) \<Longrightarrow>
   (\<And>c. call_out c e = (if ch = Some c then b else [])) \<Longrightarrow>
   (\<And>f. fd_delta f e = 0) \<Longrightarrow> io_effect ch tr (e # tr) a b"
  unfolding io_effect_def by (rule exI [of _ "[e]"]) (simp add: fd_balance_def)

lemma io_effect_in:
  "io_effect ch tr tr' a b \<Longrightarrow> trace_in c tr' = trace_in c tr @ (if ch = Some c then a else [])"
  by (auto simp: io_effect_def trace_in_append)

lemma io_effect_out:
  "io_effect ch tr tr' a b \<Longrightarrow> trace_out c tr' = trace_out c tr @ (if ch = Some c then b else [])"
  by (auto simp: io_effect_def trace_out_append)

lemma io_effect_balance: "io_effect ch tr tr' a b \<Longrightarrow> fd_balance tr' f = fd_balance tr f"
  by (auto simp: io_effect_def fd_balance_append)

end
