(* ===== verification/Net_Posix.thy ===== *)
theory Net_Posix
  imports Os
begin

text \<open>
  The socket layer of \<^verbatim>\<open>src/net/net_posix.c\<close>. Every function threads the trace of system calls;
  out-parameters are components of the result (so the tests for null out-parameters have no
  counterpart) and C strings are their bytes without the terminator.
\<close>

record sockify_endpoint =
  e_host :: "byte list"
  e_port :: "byte list"

definition sockify_net_invalid_socket :: socket where
  "sockify_net_invalid_socket = -1"

definition sockify_net_init :: "os \<Rightarrow> trace \<Rightarrow> sockify_rc \<times> trace" where
  "sockify_net_init os tr = (case sys os Call_ignore_sigpipe tr of (r, tr1) \<Rightarrow> (SOCKIFY_OK, tr1))"

definition sockify_net_cleanup :: "trace \<Rightarrow> trace" where
  "sockify_net_cleanup tr = tr"

definition sockify_net_close :: "os \<Rightarrow> socket \<Rightarrow> trace \<Rightarrow> trace" where
  "sockify_net_close os fd tr = (if fd \<ge> 0 then snd (sys os (Call_close fd) tr) else tr)"

definition sockify_net_set_nonblocking :: "os \<Rightarrow> socket \<Rightarrow> trace \<Rightarrow> sockify_rc \<times> trace" where
  "sockify_net_set_nonblocking os fd tr =
     (case sys os (Call_getfl fd) tr of
        (r, tr1) \<Rightarrow>
          if r_ret r < 0 then (SOCKIFY_ERR_SYS, tr1)
          else (case sys os (Call_setfl_nonblock fd (r_ret r)) tr1 of
                  (r2, tr2) \<Rightarrow> if r_ret r2 < 0 then (SOCKIFY_ERR_SYS, tr2) else (SOCKIFY_OK, tr2)))"

definition sockify_net_set_tcp_nodelay :: "os \<Rightarrow> socket \<Rightarrow> trace \<Rightarrow> sockify_rc \<times> trace" where
  "sockify_net_set_tcp_nodelay os fd tr =
     (case sys os (Call_nodelay fd) tr of
        (r, tr1) \<Rightarrow> if r_ret r \<noteq> 0 then (SOCKIFY_ERR_SYS, tr1) else (SOCKIFY_OK, tr1))"

definition sockify_net_would_block :: "errno \<Rightarrow> bool" where
  "sockify_net_would_block errno \<longleftrightarrow> errno = EAGAIN \<or> errno = EWOULDBLOCK \<or> errno = EINPROGRESS"

section \<open>Endpoints\<close>

text \<open>\<open>copy_part\<close> yields the new contents of the destination array.\<close>

definition copy_part :: "byte list \<Rightarrow> size_t \<Rightarrow> byte list \<Rightarrow> size_t \<Rightarrow> sockify_rc \<times> byte list" where
  "copy_part dst dst_size src src_len =
     (if dst_size = 0 \<or> src_len \<ge> dst_size then (SOCKIFY_ERR_OVERFLOW, dst)
      else (SOCKIFY_OK, take src_len src))"

text \<open>\<^verbatim>\<open>strchr\<close> and \<^verbatim>\<open>strrchr\<close> as the offset of the character.\<close>

fun strchr :: "byte \<Rightarrow> byte list \<Rightarrow> nat option" where
  "strchr c [] = None"
| "strchr c (x # xs) = (if x = c then Some 0 else map_option Suc (strchr c xs))"

fun strrchr :: "byte \<Rightarrow> byte list \<Rightarrow> nat option" where
  "strrchr c [] = None"
| "strrchr c (x # xs) =
     (case strrchr c xs of Some i \<Rightarrow> Some (Suc i) | None \<Rightarrow> if x = c then Some 0 else None)"

text \<open>The character at an offset of a C string, the terminator behind its end.\<close>

definition char_at :: "byte list \<Rightarrow> nat \<Rightarrow> byte" where
  "char_at s i = (if i < length s then s ! i else 0)"

definition sockify_net_parse_endpoint ::
  "byte list ptr \<Rightarrow> sockify_endpoint ptr \<Rightarrow> sockify_rc \<times> sockify_endpoint ptr" where
  "sockify_net_parse_endpoint text_ptr endpoint =
     (case (text_ptr, endpoint) of
        (Some txt, Some ep) \<Rightarrow>
          if char_at txt 0 = of_char CHR ''['' then
            (case strchr (of_char CHR '']'') txt of
               None \<Rightarrow> (SOCKIFY_ERR_INVALID, Some ep)
             | Some e \<Rightarrow>
                 if char_at txt (e + 1) \<noteq> of_char CHR '':'' then (SOCKIFY_ERR_INVALID, Some ep)
                 else
                   let host_len = e - 1; port = drop (e + 2) txt
                   in (case copy_part (e_host ep) 256 (drop 1 txt) host_len of
                         (rc, h) \<Rightarrow>
                           if rc \<noteq> SOCKIFY_OK then (SOCKIFY_ERR_OVERFLOW, Some (ep\<lparr>e_host := h\<rparr>))
                           else (case copy_part (e_port ep) 16 port (length port) of
                                   (rc2, p) \<Rightarrow> (rc2, Some (ep\<lparr>e_host := h, e_port := p\<rparr>)))))
          else
            (case strrchr (of_char CHR '':'') txt of
               None \<Rightarrow> (SOCKIFY_ERR_INVALID, Some ep)
             | Some c \<Rightarrow>
                 if c = 0 \<or> char_at txt (c + 1) = 0 then (SOCKIFY_ERR_INVALID, Some ep)
                 else
                   let port = drop (c + 1) txt
                   in (case copy_part (e_host ep) 256 txt c of
                         (rc, h) \<Rightarrow>
                           if rc \<noteq> SOCKIFY_OK then (SOCKIFY_ERR_OVERFLOW, Some (ep\<lparr>e_host := h\<rparr>))
                           else (case copy_part (e_port ep) 16 port (length port) of
                                   (rc2, p) \<Rightarrow> (rc2, Some (ep\<lparr>e_host := h, e_port := p\<rparr>)))))
      | _ \<Rightarrow> (SOCKIFY_ERR_INVALID, endpoint))"

section \<open>Listening, connecting, accepting\<close>

text \<open>The loop over the addresses and its body for one address; the result is the socket, if one
  could be set up.\<close>

definition listen_one :: "os \<Rightarrow> int \<Rightarrow> nat \<Rightarrow> trace \<Rightarrow> socket option \<times> trace" where
  "listen_one os backlog ai tr =
     (case sys os (Call_socket ai) tr of
        (r, tr1) \<Rightarrow>
          let fd = r_ret r
          in if fd < 0 then (None, tr1)
             else
               (case sys os (Call_reuseaddr fd) tr1 of
                  (r2, tr2) \<Rightarrow>
                    if r_ret r2 \<noteq> 0 then (None, snd (sys os (Call_close fd) tr2))
                    else
                      (case sys os (Call_bind fd ai) tr2 of
                         (r3, tr3) \<Rightarrow>
                           if r_ret r3 \<noteq> 0 then (None, snd (sys os (Call_close fd) tr3))
                           else
                             (case sys os (Call_listen fd backlog) tr3 of
                                (r4, tr4) \<Rightarrow>
                                  if r_ret r4 \<noteq> 0 then (None, snd (sys os (Call_close fd) tr4))
                                  else
                                    (case sockify_net_set_nonblocking os fd tr4 of
                                       (rc, tr5) \<Rightarrow>
                                         if rc = SOCKIFY_OK then (Some fd, tr5)
                                         else (None, snd (sys os (Call_close fd) tr5)))))))"

fun listen_loop :: "os \<Rightarrow> int \<Rightarrow> nat list \<Rightarrow> trace \<Rightarrow> socket option \<times> trace" where
  "listen_loop os backlog [] tr = (None, tr)"
| "listen_loop os backlog (ai # ais) tr =
     (case listen_one os backlog ai tr of
        (Some fd, tr1) \<Rightarrow> (Some fd, tr1)
      | (None, tr1) \<Rightarrow> listen_loop os backlog ais tr1)"

definition sockify_net_listen ::
  "os \<Rightarrow> sockify_endpoint \<Rightarrow> int \<Rightarrow> trace \<Rightarrow> sockify_rc \<times> socket \<times> trace" where
  "sockify_net_listen os endpoint backlog tr =
     (case sys os (Call_getaddrinfo (e_host endpoint) (e_port endpoint) True) tr of
        (r, tr1) \<Rightarrow>
          if r_ret r \<noteq> 0 then (SOCKIFY_ERR_SYS, sockify_net_invalid_socket, tr1)
          else
            (case listen_loop os backlog (r_addrs r) tr1 of
               (found, tr2) \<Rightarrow>
                 let tr3 = snd (sys os Call_freeaddrinfo tr2)
                 in (case found of
                       Some fd \<Rightarrow> (SOCKIFY_OK, fd, tr3)
                     | None \<Rightarrow> (SOCKIFY_ERR_SYS, sockify_net_invalid_socket, tr3))))"

definition connect_one :: "os \<Rightarrow> nat \<Rightarrow> trace \<Rightarrow> (socket \<times> bool) option \<times> trace" where
  "connect_one os ai tr =
     (case sys os (Call_socket ai) tr of
        (r, tr1) \<Rightarrow>
          let fd = r_ret r
          in if fd < 0 then (None, tr1)
             else
               (case sockify_net_set_nonblocking os fd tr1 of
                  (rc, tr2) \<Rightarrow>
                    if rc \<noteq> SOCKIFY_OK then (None, snd (sys os (Call_close fd) tr2))
                    else
                      (case sockify_net_set_tcp_nodelay os fd tr2 of
                         (rc2, tr3) \<Rightarrow>
                           (case sys os (Call_connect fd ai) tr3 of
                              (r4, tr4) \<Rightarrow>
                                if r_ret r4 = 0 \<or> r_errno r4 = EINPROGRESS
                                then (Some (fd, r_ret r4 \<noteq> 0), tr4)
                                else (None, snd (sys os (Call_close fd) tr4))))))"

fun connect_loop :: "os \<Rightarrow> nat list \<Rightarrow> trace \<Rightarrow> (socket \<times> bool) option \<times> trace" where
  "connect_loop os [] tr = (None, tr)"
| "connect_loop os (ai # ais) tr =
     (case connect_one os ai tr of
        (Some c, tr1) \<Rightarrow> (Some c, tr1)
      | (None, tr1) \<Rightarrow> connect_loop os ais tr1)"

definition sockify_net_connect ::
  "os \<Rightarrow> sockify_endpoint \<Rightarrow> trace \<Rightarrow> sockify_rc \<times> socket \<times> bool \<times> trace" where
  "sockify_net_connect os endpoint tr =
     (case sys os (Call_getaddrinfo (e_host endpoint) (e_port endpoint) False) tr of
        (r, tr1) \<Rightarrow>
          if r_ret r \<noteq> 0 then (SOCKIFY_ERR_SYS, sockify_net_invalid_socket, False, tr1)
          else
            (case connect_loop os (r_addrs r) tr1 of
               (found, tr2) \<Rightarrow>
                 let tr3 = snd (sys os Call_freeaddrinfo tr2)
                 in (case found of
                       Some (fd, in_progress) \<Rightarrow> (SOCKIFY_OK, fd, in_progress, tr3)
                     | None \<Rightarrow> (SOCKIFY_ERR_SYS, sockify_net_invalid_socket, False, tr3))))"

text \<open>On Linux \<^verbatim>\<open>accept4\<close> makes the socket non-blocking; elsewhere \<^verbatim>\<open>accept\<close> is followed by
  \<^verbatim>\<open>fcntl\<close>, and a socket that cannot be made non-blocking is closed.\<close>

definition sockify_net_accept :: "platform \<Rightarrow> os \<Rightarrow> socket \<Rightarrow> trace \<Rightarrow> sockify_rc \<times> socket \<times> trace" where
  "sockify_net_accept pf os listener tr =
     (case sys os (Call_accept listener) tr of
        (r, tr1) \<Rightarrow>
          let fd = r_ret r
          in if fd < 0 then
               (if sockify_net_would_block (r_errno r) then SOCKIFY_ERR_AGAIN else SOCKIFY_ERR_SYS,
                sockify_net_invalid_socket, tr1)
             else
               (case (if pf = Platform_linux then (SOCKIFY_OK, tr1) else sockify_net_set_nonblocking os fd tr1) of
                  (rc, tr2) \<Rightarrow>
                    if rc \<noteq> SOCKIFY_OK
                    then (SOCKIFY_ERR_SYS, sockify_net_invalid_socket, snd (sys os (Call_close fd) tr2))
                    else (case sockify_net_set_tcp_nodelay os fd tr2 of (rc2, tr3) \<Rightarrow> (SOCKIFY_OK, fd, tr3))))"

section \<open>Receiving and sending\<close>

text \<open>The second component of \<open>sockify_net_recv\<close> is the bytes stored into the buffer; their
  number is \<^verbatim>\<open>*read_count\<close>.\<close>

definition sockify_net_recv :: "os \<Rightarrow> socket \<Rightarrow> size_t \<Rightarrow> trace \<Rightarrow> sockify_rc \<times> byte list \<times> trace" where
  "sockify_net_recv os fd buffer_size tr =
     (case sys os (Call_recv fd buffer_size) tr of
        (r, tr1) \<Rightarrow>
          let n = r_ret r
          in if n > 0 then (SOCKIFY_OK, r_bytes r, tr1)
             else if n = 0 then (SOCKIFY_ERR_CLOSED, [], tr1)
             else if sockify_net_would_block (r_errno r) then (SOCKIFY_ERR_AGAIN, [], tr1)
             else (SOCKIFY_ERR_SYS, [], tr1))"

definition sockify_net_send :: "os \<Rightarrow> socket \<Rightarrow> byte list \<Rightarrow> trace \<Rightarrow> sockify_rc \<times> size_t \<times> trace" where
  "sockify_net_send os fd buffer tr =
     (if length buffer = 0 then (SOCKIFY_OK, 0, tr)
      else
        (case sys os (Call_send fd buffer) tr of
           (r, tr1) \<Rightarrow>
             let n = r_ret r
             in if n > 0 then (SOCKIFY_OK, nat n, tr1)
                else if n = 0 \<or> sockify_net_would_block (r_errno r) then (SOCKIFY_ERR_AGAIN, 0, tr1)
                else (SOCKIFY_ERR_SYS, 0, tr1)))"

definition sockify_net_socket_error :: "os \<Rightarrow> socket \<Rightarrow> trace \<Rightarrow> sockify_rc \<times> int \<times> trace" where
  "sockify_net_socket_error os fd tr =
     (case sys os (Call_getsockopt_error fd) tr of
        (r, tr1) \<Rightarrow>
          if r_ret r \<noteq> 0 then (SOCKIFY_ERR_SYS, 0, tr1)
          else (SOCKIFY_OK, r_out r, tr1))"

section \<open>Endpoint texts\<close>

lemma strrchr_append:
  "c \<notin> set p \<Longrightarrow> strrchr c (h @ c # p) = Some (length h)"
proof (induction h)
  case Nil
  have "c \<notin> set p \<Longrightarrow> strrchr c p = None" by (induction p) auto
  with Nil show ?case by simp
qed simp

lemma strchr_append: "c \<notin> set h \<Longrightarrow> strchr c (h @ c # p) = Some (length h)"
  by (induction h) auto

lemma strrchr_Some: "strrchr c s = Some i \<Longrightarrow> i < length s"
  by (induction s arbitrary: i) (auto split: option.splits if_splits)

lemma strchr_Some: "strchr c s = Some i \<Longrightarrow> i < length s"
  by (induction s arbitrary: i) (auto split: if_splits)

definition plain_endpoint_text :: "byte list \<Rightarrow> byte list \<Rightarrow> byte list" where
  "plain_endpoint_text h p = h @ [of_char CHR '':''] @ p"

definition bracket_endpoint_text :: "byte list \<Rightarrow> byte list \<Rightarrow> byte list" where
  "bracket_endpoint_text h p = [of_char CHR ''[''] @ h @ cstr '']:'' @ p"

lemma parse_plain_endpoint:
  assumes "length h < 256" and "length p < 16" and "0 \<notin> set p"
    and h: "h \<noteq> [] \<and> p \<noteq> [] \<and> hd h \<noteq> of_char CHR ''['' \<and> of_char CHR '':'' \<notin> set p"
  shows "sockify_net_parse_endpoint (Some (plain_endpoint_text h p)) (Some ep) =
      (SOCKIFY_OK, Some (ep\<lparr>e_host := h, e_port := p\<rparr>))"
proof -
  let ?t = "plain_endpoint_text h p"
  have "strrchr (of_char CHR '':'') ?t = Some (length h)"
    using h strrchr_append [of _ p h] by (simp add: plain_endpoint_text_def)
  moreover have "char_at ?t 0 \<noteq> of_char CHR ''[''"
    using h by (cases h) (simp_all add: char_at_def plain_endpoint_text_def)
  moreover have "char_at ?t (length h + 1) \<noteq> 0"
    using h assms(3) by (cases p) (auto simp: char_at_def plain_endpoint_text_def nth_append)
  ultimately show ?thesis
    using h assms(1,2)
    by (simp add: sockify_net_parse_endpoint_def copy_part_def plain_endpoint_text_def Let_def)
qed

lemma parse_bracket_endpoint:
  assumes "length h < 256" and "length p < 16" and h: "of_char CHR '']'' \<notin> set h"
  shows "sockify_net_parse_endpoint (Some (bracket_endpoint_text h p)) (Some ep) =
      (SOCKIFY_OK, Some (ep\<lparr>e_host := h, e_port := p\<rparr>))"
proof -
  let ?t = "bracket_endpoint_text h p"
  have "strchr (of_char CHR '']'') ?t = Some (length h + 1)"
    using h strchr_append [of "of_char CHR '']''" h "of_char CHR '':'' # p"]
    by (simp add: bracket_endpoint_text_def cstr_def)
  moreover have "char_at ?t 0 = of_char CHR ''[''" "char_at ?t (length h + 2) = of_char CHR '':''"
    by (simp_all add: char_at_def bracket_endpoint_text_def cstr_def nth_append)
  ultimately show ?thesis
    using assms(1,2)
    by (simp add: sockify_net_parse_endpoint_def copy_part_def bracket_endpoint_text_def cstr_def Let_def)
qed

text \<open>
  Property C14. Endpoint texts round trip: \<^verbatim>\<open>host:port\<close> and \<^verbatim>\<open>[host]:port\<close> yield exactly host
  and port when both fit their arrays; the bracketed form is what allows colons in the host.
\<close>

theorem endpoint_roundtrip:
  assumes "length h < 256" and "length p < 16" and "0 \<notin> set p"
  shows "(h \<noteq> [] \<and> p \<noteq> [] \<and> hd h \<noteq> of_char CHR ''['' \<and> of_char CHR '':'' \<notin> set p \<longrightarrow>
      sockify_net_parse_endpoint (Some (plain_endpoint_text h p)) (Some ep) =
        (SOCKIFY_OK, Some (ep\<lparr>e_host := h, e_port := p\<rparr>))) \<and>
    (of_char CHR '']'' \<notin> set h \<longrightarrow>
      sockify_net_parse_endpoint (Some (bracket_endpoint_text h p)) (Some ep) =
        (SOCKIFY_OK, Some (ep\<lparr>e_host := h, e_port := p\<rparr>)))"
  using assms by (auto intro: parse_plain_endpoint parse_bracket_endpoint)

theorem endpoint_roundtrip_witness:
  "sockify_net_parse_endpoint (Some (plain_endpoint_text (cstr ''localhost'') (cstr ''8080'')))
      (Some \<lparr>e_host = [], e_port = []\<rparr>) =
    (SOCKIFY_OK, Some \<lparr>e_host = cstr ''localhost'', e_port = cstr ''8080''\<rparr>) \<and>
   sockify_net_parse_endpoint (Some (bracket_endpoint_text (cstr ''::1'') (cstr ''443'')))
      (Some \<lparr>e_host = [], e_port = []\<rparr>) =
    (SOCKIFY_OK, Some \<lparr>e_host = cstr ''::1'', e_port = cstr ''443''\<rparr>)"
  using endpoint_roundtrip [of "cstr ''localhost''" "cstr ''8080''" "\<lparr>e_host = [], e_port = []\<rparr>"]
    endpoint_roundtrip [of "cstr ''::1''" "cstr ''443''" "\<lparr>e_host = [], e_port = []\<rparr>"]
  by (simp add: cstr_def)

section \<open>Descriptors are not lost\<close>

lemma set_nonblocking_balance:
  "sockify_net_set_nonblocking os fd tr = (rc, tr') \<Longrightarrow> fd_balance tr' f = fd_balance tr f"
  by (auto simp: sockify_net_set_nonblocking_def sys_eq split: if_splits)

lemma set_nodelay_balance:
  "sockify_net_set_tcp_nodelay os fd tr = (rc, tr') \<Longrightarrow> fd_balance tr' f = fd_balance tr f"
  by (auto simp: sockify_net_set_tcp_nodelay_def sys_eq split: if_splits)

text \<open>What a call that hands out a descriptor owes: exactly that descriptor is open afterwards.\<close>

definition hands_out :: "trace \<Rightarrow> socket option \<Rightarrow> trace \<Rightarrow> bool" where
  "hands_out tr found tr' \<longleftrightarrow>
     (\<forall>f. fd_balance tr' f = fd_balance tr f + (if found = Some f then 1 else 0)) \<and>
     (\<forall>f. found = Some f \<longrightarrow> 0 \<le> f)"

lemma hands_out_continue:
  "hands_out tr None tr1 \<Longrightarrow> hands_out tr1 found tr' \<Longrightarrow> hands_out tr found tr'"
  by (simp add: hands_out_def)

lemma listen_one_hands_out: "listen_one os backlog ai tr = (found, tr') \<Longrightarrow> hands_out tr found tr'"
  by (auto simp: listen_one_def hands_out_def sys_eq Let_def set_nonblocking_balance
      split: if_splits prod.splits)

lemma connect_one_hands_out:
  "connect_one os ai tr = (found, tr') \<Longrightarrow> hands_out tr (map_option fst found) tr'"
  by (auto simp: connect_one_def hands_out_def sys_eq Let_def set_nonblocking_balance set_nodelay_balance
      split: if_splits prod.splits)

lemma listen_loop_hands_out: "listen_loop os backlog ais tr = (found, tr') \<Longrightarrow> hands_out tr found tr'"
proof (induction os backlog ais tr rule: listen_loop.induct)
  case (2 os backlog ai ais tr)
  then show ?case
    by (auto split: prod.splits option.splits dest: listen_one_hands_out hands_out_continue)
qed (simp add: hands_out_def)

lemma connect_loop_hands_out:
  "connect_loop os ais tr = (found, tr') \<Longrightarrow> hands_out tr (map_option fst found) tr'"
proof (induction os ais tr rule: connect_loop.induct)
  case (2 os ai ais tr)
  then show ?case
    by (force split: prod.splits option.splits dest: connect_one_hands_out hands_out_continue)
qed (simp add: hands_out_def)

lemma listen_hands_out:
  assumes "sockify_net_listen os ep backlog tr = (rc, fd, tr')"
  shows "hands_out tr (if rc = SOCKIFY_OK then Some fd else None) tr' \<and>
    (rc = SOCKIFY_OK \<or> fd = sockify_net_invalid_socket)"
proof -
  let ?c = "Call_getaddrinfo (e_host ep) (e_port ep) True"
  obtain found tr2 where l: "listen_loop os backlog (r_addrs (os tr ?c)) ((?c, os tr ?c) # tr) = (found, tr2)"
    by (metis surj_pair)
  from listen_loop_hands_out [OF l] l assms show ?thesis
    by (cases found) (auto simp: sockify_net_listen_def sys_eq hands_out_def split: if_splits)
qed

lemma connect_hands_out:
  assumes "sockify_net_connect os ep tr = (rc, fd, in_progress, tr')"
  shows "hands_out tr (if rc = SOCKIFY_OK then Some fd else None) tr' \<and>
    (rc = SOCKIFY_OK \<or> fd = sockify_net_invalid_socket)"
proof -
  let ?d = "Call_getaddrinfo (e_host ep) (e_port ep) False"
  obtain found tr2 where c: "connect_loop os (r_addrs (os tr ?d)) ((?d, os tr ?d) # tr) = (found, tr2)"
    by (metis surj_pair)
  from connect_loop_hands_out [OF c] c assms show ?thesis
    by (cases found) (auto simp: sockify_net_connect_def sys_eq hands_out_def split: if_splits)
qed

lemma accept_hands_out:
  assumes "sockify_net_accept pf os listener tr = (rc, fd, tr')"
  shows "hands_out tr (if rc = SOCKIFY_OK then Some fd else None) tr' \<and>
    (rc = SOCKIFY_OK \<or> fd = sockify_net_invalid_socket)"
  using assms
  by (auto simp: sockify_net_accept_def sys_eq hands_out_def Let_def set_nonblocking_balance set_nodelay_balance
      split: if_splits prod.splits)

text \<open>
  Property C15. Neither setting up the listener nor connecting to the target nor accepting a client,
  on any platform, loses a descriptor: every socket opened on the way is closed again, except the
  one returned, which is open exactly once more than before; none is returned on failure.
\<close>

theorem net_no_descriptor_leak:
  "(case sockify_net_listen os ep backlog tr of
      (rc, fd, tr') \<Rightarrow> hands_out tr (if rc = SOCKIFY_OK then Some fd else None) tr' \<and>
        (rc = SOCKIFY_OK \<or> fd = sockify_net_invalid_socket)) \<and>
   (case sockify_net_connect os ep tr of
      (rc, fd, in_progress, tr') \<Rightarrow> hands_out tr (if rc = SOCKIFY_OK then Some fd else None) tr' \<and>
        (rc = SOCKIFY_OK \<or> fd = sockify_net_invalid_socket)) \<and>
   (case sockify_net_accept pf os listener tr of
      (rc, fd, tr') \<Rightarrow> hands_out tr (if rc = SOCKIFY_OK then Some fd else None) tr' \<and>
        (rc = SOCKIFY_OK \<or> fd = sockify_net_invalid_socket))"
  using listen_hands_out connect_hands_out accept_hands_out by (fastforce split: prod.splits)

end
