(* ===== verification/Log.thy ===== *)
theory Log
  imports Prelude
begin

text \<open>
  The log levels of \<^verbatim>\<open>src/core/log.c\<close>. The level is a global variable, here the first argument and
  result; \<open>sockify_log\<close> yields the line it writes to the error stream, if any, with the formatted
  message as a parameter.
\<close>

datatype sockify_log_level = SOCKIFY_LOG_ERROR | SOCKIFY_LOG_WARN | SOCKIFY_LOG_INFO | SOCKIFY_LOG_DEBUG

fun log_level_code :: "sockify_log_level \<Rightarrow> nat" where
  "log_level_code SOCKIFY_LOG_ERROR = 0"
| "log_level_code SOCKIFY_LOG_WARN = 1"
| "log_level_code SOCKIFY_LOG_INFO = 2"
| "log_level_code SOCKIFY_LOG_DEBUG = 3"

instantiation sockify_log_level :: linorder
begin

definition less_eq_sockify_log_level :: "sockify_log_level \<Rightarrow> sockify_log_level \<Rightarrow> bool" where
  "less_eq_sockify_log_level a b \<longleftrightarrow> log_level_code a \<le> log_level_code b"

definition less_sockify_log_level :: "sockify_log_level \<Rightarrow> sockify_log_level \<Rightarrow> bool" where
  "less_sockify_log_level a b \<longleftrightarrow> log_level_code a < log_level_code b"

instance
proof
  fix x y :: sockify_log_level
  show "x \<le> y \<Longrightarrow> y \<le> x \<Longrightarrow> x = y"
    by (cases x; cases y) (simp_all add: less_eq_sockify_log_level_def)
qed (auto simp: less_eq_sockify_log_level_def less_sockify_log_level_def)

end

definition sockify_log_set_level :: "sockify_log_level \<Rightarrow> sockify_log_level \<Rightarrow> sockify_log_level" where
  "sockify_log_set_level g_log_level level = level"

definition sockify_log_get_level :: "sockify_log_level \<Rightarrow> sockify_log_level" where
  "sockify_log_get_level g_log_level = g_log_level"

definition sockify_log_level_from_string :: "byte list ptr \<Rightarrow> sockify_log_level" where
  "sockify_log_level_from_string value =
     (case value of
        None \<Rightarrow> SOCKIFY_LOG_INFO
      | Some v \<Rightarrow>
          if v = cstr ''error'' then SOCKIFY_LOG_ERROR
          else if v = cstr ''warn'' then SOCKIFY_LOG_WARN
          else if v = cstr ''info'' then SOCKIFY_LOG_INFO
          else if v = cstr ''debug'' then SOCKIFY_LOG_DEBUG
          else SOCKIFY_LOG_INFO)"

fun level_name :: "sockify_log_level \<Rightarrow> byte list" where
  "level_name SOCKIFY_LOG_ERROR = cstr ''error''"
| "level_name SOCKIFY_LOG_WARN = cstr ''warn''"
| "level_name SOCKIFY_LOG_INFO = cstr ''info''"
| "level_name SOCKIFY_LOG_DEBUG = cstr ''debug''"

definition sockify_log :: "sockify_log_level \<Rightarrow> sockify_log_level \<Rightarrow> byte list \<Rightarrow> byte list option" where
  "sockify_log g_log_level level message =
     (if level > g_log_level then None
      else Some (cstr ''sockify ['' @ level_name level @ cstr ''] '' @ message @ [10]))"

lemma level_from_name [simp]: "sockify_log_level_from_string (Some (level_name l)) = l"
  by (cases l) (simp_all add: sockify_log_level_from_string_def cstr_def)

end
