(* ===== verification/Proxy_Config.thy ===== *)
theory Proxy_Config
  imports Net_Posix Log
begin

text \<open>
  The configuration struct of \<^verbatim>\<open>include/sockify/proxy.h\<close>, its initialisation and its validation
  in \<^verbatim>\<open>src/proxy/proxy.c\<close>. A character array is the C string it holds, without terminator, so
  \<^verbatim>\<open>s[0] != 0\<close> reads \<open>s \<noteq> []\<close>.
\<close>

record sockify_proxy_config =
  listen_endpoint :: sockify_endpoint
  target_endpoint :: sockify_endpoint
  max_connections :: size_t
  buffer_size :: size_t
  accept_budget :: size_t
  read_budget :: size_t
  write_budget :: size_t
  backlog :: int
  handshake_timeout_ms :: u32
  idle_timeout_ms :: u32
  connect_timeout_ms :: u32
  log_level :: sockify_log_level
  client_tls_enabled :: bool
  client_tls_cert_file :: "byte list"
  client_tls_key_file :: "byte list"
  client_tls_pfx_file :: "byte list"
  client_tls_pfx_password :: "byte list"
  client_tls_cert_store :: "byte list"
  client_tls_cert_thumbprint :: "byte list"
  target_tls_enabled :: bool
  target_tls_insecure :: bool
  target_tls_server_name :: "byte list"
  target_tls_ca_file :: "byte list"

abbreviation SOCKIFY_WS_MAX_FRAME_PAYLOAD :: size_t where "SOCKIFY_WS_MAX_FRAME_PAYLOAD \<equiv> 65536"
abbreviation SOCKIFY_PROXY_IO_CHUNK :: size_t where "SOCKIFY_PROXY_IO_CHUNK \<equiv> 4096"
abbreviation SOCKIFY_PATH_MAX :: size_t where "SOCKIFY_PATH_MAX \<equiv> 512"

definition sockify_proxy_config_init :: "sockify_proxy_config ptr \<Rightarrow> sockify_proxy_config ptr" where
  "sockify_proxy_config_init config =
     (case config of
        None \<Rightarrow> None
      | Some c \<Rightarrow>
          Some \<lparr>listen_endpoint = \<lparr>e_host = [], e_port = []\<rparr>,
                target_endpoint = \<lparr>e_host = [], e_port = []\<rparr>,
                max_connections = 10000, buffer_size = SOCKIFY_WS_MAX_FRAME_PAYLOAD,
                accept_budget = 64, read_budget = 16, write_budget = 16, backlog = 512,
                handshake_timeout_ms = 10000, idle_timeout_ms = 300000, connect_timeout_ms = 10000,
                log_level = SOCKIFY_LOG_INFO, client_tls_enabled = False, client_tls_cert_file = [],
                client_tls_key_file = [], client_tls_pfx_file = [], client_tls_pfx_password = [],
                client_tls_cert_store = [], client_tls_cert_thumbprint = [],
                target_tls_enabled = False, target_tls_insecure = False,
                target_tls_server_name = [], target_tls_ca_file = []\<rparr>)"

definition tls_enabled :: "sockify_proxy_config \<Rightarrow> bool" where
  "tls_enabled config \<longleftrightarrow> client_tls_enabled config \<or> target_tls_enabled config"

definition proxy_validate_config :: "sockify_proxy_config ptr \<Rightarrow> sockify_rc" where
  "proxy_validate_config config =
     (case config of
        None \<Rightarrow> SOCKIFY_ERR_INVALID
      | Some c \<Rightarrow>
          if e_host (listen_endpoint c) = [] \<or> e_port (listen_endpoint c) = [] \<or>
             e_host (target_endpoint c) = [] \<or> e_port (target_endpoint c) = []
          then SOCKIFY_ERR_INVALID
          else if max_connections c = 0 \<or> buffer_size c = 0 \<or> accept_budget c = 0 \<or>
                  read_budget c = 0 \<or> write_budget c = 0
          then SOCKIFY_ERR_INVALID
          else if \<not> client_tls_enabled c \<and>
                  (client_tls_cert_file c \<noteq> [] \<or> client_tls_key_file c \<noteq> [] \<or>
                   client_tls_pfx_file c \<noteq> [] \<or> client_tls_cert_store c \<noteq> [] \<or>
                   client_tls_cert_thumbprint c \<noteq> [])
          then SOCKIFY_ERR_INVALID
          else if \<not> target_tls_enabled c \<and>
                  (target_tls_insecure c \<or> target_tls_server_name c \<noteq> [] \<or> target_tls_ca_file c \<noteq> [])
          then SOCKIFY_ERR_INVALID
          else SOCKIFY_OK)"

end
