(* ===== verification/Tls.thy ===== *)
theory Tls
  imports Proxy_Config
begin

text \<open>
  The two TLS backends, \<^verbatim>\<open>src/tls/tls_openssl.c\<close> (prefix \<open>openssl\<close>) and \<^verbatim>\<open>src/tls/tls_none.c\<close> (prefix
  \<open>none\<close>), and the interface of \<^verbatim>\<open>include/sockify/tls.h\<close>, which the build binds to one of them
  (\<open>tls_backend\<close>). OpenSSL itself is part of the environment; an \<^verbatim>\<open>SSL *\<close> or \<^verbatim>\<open>SSL_CTX *\<close> is
  the integer the environment returned, 0 for a null pointer. Structs keep the address they were
  allocated at, so that freeing them is a recorded call. The option setters that return nothing
  the code looks at are recorded with the setter before them (\<open>Ssl_ctx_min_version\<close> stands for
  the minimal version and the renegotiation option, \<open>Ssl_ctx_session_id\<close> for the session cache
  settings, \<open>Ssl_set1_host\<close> for the host flags and the host).
\<close>

datatype tls_backend = Backend_none | Backend_openssl

record sockify_tls_context =
  tc_self :: addr
  tc_ctx :: int
  tc_server_side :: bool
  tc_verify_peer :: bool

record sockify_tls_connection =
  tn_self :: addr
  tn_ssl :: int
  tn_want_read :: bool
  tn_want_write :: bool
  tn_server_side :: bool
  tn_verify_peer :: bool

abbreviation SSL_ERROR_WANT_READ :: int where "SSL_ERROR_WANT_READ \<equiv> 2"
abbreviation SSL_ERROR_WANT_WRITE :: int where "SSL_ERROR_WANT_WRITE \<equiv> 3"
abbreviation SSL_ERROR_ZERO_RETURN :: int where "SSL_ERROR_ZERO_RETURN \<equiv> 6"
abbreviation X509_V_OK :: int where "X509_V_OK \<equiv> 0"
abbreviation C_INT_MAX :: size_t where "C_INT_MAX \<equiv> 2147483647"

definition ssl :: "os \<Rightarrow> ssl_call \<Rightarrow> trace \<Rightarrow> reply \<times> trace" where
  "ssl os c tr = sys os (Call_ssl c) tr"

definition free_ptr :: "os \<Rightarrow> addr \<Rightarrow> trace \<Rightarrow> trace" where
  "free_ptr os a tr = snd (sys os (Call_mem (Mem_free a)) tr)"

section \<open>The OpenSSL backend: contexts\<close>

definition openssl_global_init :: "os \<Rightarrow> trace \<Rightarrow> sockify_rc \<times> trace" where
  "openssl_global_init os tr =
     (case ssl os Ssl_init tr of
        (r, tr1) \<Rightarrow> if r_ret r \<noteq> 1 then (SOCKIFY_ERR_SYS, tr1) else (SOCKIFY_OK, tr1))"

definition context_load_verify_paths :: "os \<Rightarrow> int \<Rightarrow> byte list \<Rightarrow> trace \<Rightarrow> sockify_rc \<times> trace" where
  "context_load_verify_paths os ctx ca_file tr =
     (let (ok, tr1) =
            (if ca_file \<noteq> [] then
               (case ssl os (Ssl_ctx_load_verify ctx ca_file) tr of (r, tr1) \<Rightarrow> (r_ret r = 1, tr1))
             else (True, tr))
      in if \<not> ok then (SOCKIFY_ERR_SYS, tr1)
         else (case ssl os (Ssl_ctx_default_verify ctx) tr1 of
                 (r, tr2) \<Rightarrow> if r_ret r \<noteq> 1 then (SOCKIFY_ERR_SYS, tr2) else (SOCKIFY_OK, tr2)))"

definition context_load_server_cert ::
  "os \<Rightarrow> int \<Rightarrow> sockify_proxy_config \<Rightarrow> trace \<Rightarrow> sockify_rc \<times> trace" where
  "context_load_server_cert os ctx config tr =
     (if client_tls_cert_file config = [] \<or> client_tls_key_file config = []
      then (SOCKIFY_ERR_UNSUPPORTED, tr)
      else
        (case ssl os (Ssl_ctx_use_cert ctx (client_tls_cert_file config)) tr of
           (r, tr1) \<Rightarrow>
             if r_ret r \<noteq> 1 then (SOCKIFY_ERR_SYS, tr1)
             else
               (case ssl os (Ssl_ctx_use_key ctx (client_tls_key_file config)) tr1 of
                  (r2, tr2) \<Rightarrow>
                    if r_ret r2 \<noteq> 1 then (SOCKIFY_ERR_SYS, tr2)
                    else
                      (case ssl os (Ssl_ctx_check_key ctx) tr2 of
                         (r3, tr3) \<Rightarrow>
                           if r_ret r3 \<noteq> 1 then (SOCKIFY_ERR_SYS, tr3) else (SOCKIFY_OK, tr3)))))"

definition openssl_context_destroy :: "os \<Rightarrow> sockify_tls_context ptr \<Rightarrow> trace \<Rightarrow> trace" where
  "openssl_context_destroy os context tr =
     (case context of
        None \<Rightarrow> tr
      | Some c \<Rightarrow>
          let tr1 = (if tc_ctx c \<noteq> 0 then snd (ssl os (Ssl_ctx_free (tc_ctx c)) tr) else tr)
          in free_ptr os (tc_self c) tr1)"

text \<open>The part of \<^verbatim>\<open>sockify_tls_context_create\<close> after the allocations.\<close>

definition openssl_context_setup ::
  "os \<Rightarrow> sockify_proxy_config \<Rightarrow> sockify_tls_context \<Rightarrow> trace \<Rightarrow> sockify_rc \<times> sockify_tls_context ptr \<times> trace" where
  "openssl_context_setup os config c tr =
     (let ctx = tc_ctx c;
          tr1 = snd (ssl os (Ssl_ctx_min_version ctx) tr);
          (rc, tr2) =
            (if tc_server_side c then
               context_load_server_cert os ctx config
                 (snd (ssl os (Ssl_ctx_session_id ctx (cstr ''sockify'')) tr1))
             else if tc_verify_peer c then
               context_load_verify_paths os ctx (target_tls_ca_file config)
                 (snd (ssl os (Ssl_ctx_set_verify ctx True) tr1))
             else (SOCKIFY_OK, snd (ssl os (Ssl_ctx_set_verify ctx False) tr1)))
      in if rc \<noteq> SOCKIFY_OK then (rc, None, openssl_context_destroy os (Some c) tr2)
         else (SOCKIFY_OK, Some c, tr2))"

definition openssl_context_create ::
  "os \<Rightarrow> sockify_proxy_config ptr \<Rightarrow> bool \<Rightarrow> trace \<Rightarrow> sockify_rc \<times> sockify_tls_context ptr \<times> trace" where
  "openssl_context_create os config_ptr server_side tr =
     (case config_ptr of
        None \<Rightarrow> (SOCKIFY_ERR_INVALID, None, tr)
      | Some config \<Rightarrow>
          (case sys os (Call_mem (Mem_calloc 16)) tr of
             (r, tr1) \<Rightarrow>
               if r_ret r = 0 then (SOCKIFY_ERR_NOMEM, None, tr1)
               else
                 (case ssl os (Ssl_ctx_new server_side) tr1 of
                    (r2, tr2) \<Rightarrow>
                      if r_ret r2 = 0 then (SOCKIFY_ERR_SYS, None, free_ptr os (nat (r_ret r)) tr2)
                      else
                        openssl_context_setup os config
                          \<lparr>tc_self = nat (r_ret r), tc_ctx = r_ret r2, tc_server_side = server_side,
                           tc_verify_peer = (if server_side then False else \<not> target_tls_insecure config)\<rparr>
                          tr2)))"

section \<open>The OpenSSL backend: connections\<close>

definition connection_clear_wants :: "sockify_tls_connection \<Rightarrow> sockify_tls_connection" where
  "connection_clear_wants conn = conn\<lparr>tn_want_read := False, tn_want_write := False\<rparr>"

definition map_ssl_error ::
  "os \<Rightarrow> sockify_tls_connection \<Rightarrow> int \<Rightarrow> bool \<Rightarrow> trace \<Rightarrow> sockify_rc \<times> sockify_tls_connection \<times> trace" where
  "map_ssl_error os conn ret handshake tr =
     (let conn1 = connection_clear_wants conn
      in (case ssl os (Ssl_get_error (tn_ssl conn) ret) tr of
            (r, tr1) \<Rightarrow>
              if r_ret r = SSL_ERROR_WANT_READ then (SOCKIFY_ERR_AGAIN, conn1\<lparr>tn_want_read := True\<rparr>, tr1)
              else if r_ret r = SSL_ERROR_WANT_WRITE
              then (SOCKIFY_ERR_AGAIN, conn1\<lparr>tn_want_write := True\<rparr>, tr1)
              else if r_ret r = SSL_ERROR_ZERO_RETURN then (SOCKIFY_ERR_CLOSED, conn1, tr1)
              else if handshake then (SOCKIFY_ERR_TLS_HANDSHAKE, conn1, tr1)
              else (SOCKIFY_ERR_SYS, conn1, tr1)))"

definition set_connection_hostname ::
  "os \<Rightarrow> sockify_tls_connection \<Rightarrow> byte list ptr \<Rightarrow> trace \<Rightarrow> sockify_rc \<times> trace" where
  "set_connection_hostname os conn server_name tr =
     (case server_name of
        None \<Rightarrow> (SOCKIFY_OK, tr)
      | Some name \<Rightarrow>
          if name = [] then (SOCKIFY_OK, tr)
          else
            (case ssl os (Ssl_set_host_name (tn_ssl conn) name) tr of
               (r, tr1) \<Rightarrow>
                 if r_ret r \<noteq> 1 then (SOCKIFY_ERR_SYS, tr1)
                 else if tn_verify_peer conn then
                   (case ssl os (Ssl_set1_host (tn_ssl conn) name) tr1 of
                      (r2, tr2) \<Rightarrow> if r_ret r2 \<noteq> 1 then (SOCKIFY_ERR_SYS, tr2) else (SOCKIFY_OK, tr2))
                 else (SOCKIFY_OK, tr1)))"

definition openssl_connection_destroy :: "os \<Rightarrow> sockify_tls_connection ptr \<Rightarrow> trace \<Rightarrow> trace" where
  "openssl_connection_destroy os conn_ptr tr =
     (case conn_ptr of
        None \<Rightarrow> tr
      | Some conn \<Rightarrow>
          let tr1 = (if tn_ssl conn \<noteq> 0 then snd (ssl os (Ssl_free (tn_ssl conn)) tr) else tr)
          in free_ptr os (tn_self conn) tr1)"

text \<open>The part of \<^verbatim>\<open>sockify_tls_connection_create\<close> after the allocations.\<close>

definition openssl_connection_setup ::
  "os \<Rightarrow> sockify_tls_connection \<Rightarrow> socket \<Rightarrow> byte list ptr \<Rightarrow> trace
     \<Rightarrow> sockify_rc \<times> sockify_tls_connection ptr \<times> trace" where
  "openssl_connection_setup os conn fd server_name tr =
     (case ssl os (Ssl_set_fd (tn_ssl conn) fd) tr of
        (r, tr1) \<Rightarrow>
          if r_ret r \<noteq> 1 then (SOCKIFY_ERR_SYS, None, openssl_connection_destroy os (Some conn) tr1)
          else if tn_server_side conn
          then (SOCKIFY_OK, Some conn, snd (ssl os (Ssl_set_accept_state (tn_ssl conn)) tr1))
          else
            (case set_connection_hostname os conn server_name
                    (snd (ssl os (Ssl_set_connect_state (tn_ssl conn)) tr1)) of
               (rc, tr2) \<Rightarrow>
                 if rc \<noteq> SOCKIFY_OK then (rc, None, openssl_connection_destroy os (Some conn) tr2)
                 else (SOCKIFY_OK, Some conn, tr2)))"

definition openssl_connection_create ::
  "os \<Rightarrow> sockify_tls_context ptr \<Rightarrow> socket \<Rightarrow> bool \<Rightarrow> byte list ptr \<Rightarrow> trace
     \<Rightarrow> sockify_rc \<times> sockify_tls_connection ptr \<times> trace" where
  "openssl_connection_create os context_ptr fd server_side server_name tr =
     (case context_ptr of
        None \<Rightarrow> (SOCKIFY_ERR_INVALID, None, tr)
      | Some context \<Rightarrow>
          if server_side \<noteq> tc_server_side context then (SOCKIFY_ERR_INVALID, None, tr)
          else
            (case sys os (Call_mem (Mem_calloc 24)) tr of
               (r, tr1) \<Rightarrow>
                 if r_ret r = 0 then (SOCKIFY_ERR_NOMEM, None, tr1)
                 else
                   (case ssl os (Ssl_new (tc_ctx context)) tr1 of
                      (r2, tr2) \<Rightarrow>
                        if r_ret r2 = 0 then (SOCKIFY_ERR_SYS, None, free_ptr os (nat (r_ret r)) tr2)
                        else
                          openssl_connection_setup os
                            \<lparr>tn_self = nat (r_ret r), tn_ssl = r_ret r2, tn_want_read = False,
                             tn_want_write = False, tn_server_side = server_side,
                             tn_verify_peer = tc_verify_peer context\<rparr>
                            fd server_name tr2)))"

definition openssl_connection_handshake ::
  "os \<Rightarrow> sockify_tls_connection ptr \<Rightarrow> trace \<Rightarrow> sockify_rc \<times> sockify_tls_connection ptr \<times> trace" where
  "openssl_connection_handshake os conn_ptr tr =
     (case conn_ptr of
        None \<Rightarrow> (SOCKIFY_ERR_INVALID, None, tr)
      | Some conn \<Rightarrow>
          (case ssl os (Ssl_do_handshake (tn_ssl conn)) tr of
             (r, tr1) \<Rightarrow>
               if r_ret r = 1 then
                 let conn1 = connection_clear_wants conn
                 in if \<not> tn_server_side conn1 \<and> tn_verify_peer conn1 then
                      (case ssl os (Ssl_get_verify_result (tn_ssl conn1)) tr1 of
                         (r2, tr2) \<Rightarrow>
                           if r_ret r2 \<noteq> X509_V_OK then (SOCKIFY_ERR_TLS_VERIFY, Some conn1, tr2)
                           else (SOCKIFY_OK, Some conn1, tr2))
                    else (SOCKIFY_OK, Some conn1, tr1)
               else (case map_ssl_error os conn (r_ret r) True tr1 of
                       (rc, conn1, tr2) \<Rightarrow> (rc, Some conn1, tr2))))"

definition openssl_connection_read ::
  "os \<Rightarrow> sockify_tls_connection ptr \<Rightarrow> size_t \<Rightarrow> trace
     \<Rightarrow> sockify_rc \<times> byte list \<times> sockify_tls_connection ptr \<times> trace" where
  "openssl_connection_read os conn_ptr bsize tr =
     (case conn_ptr of
        None \<Rightarrow> (SOCKIFY_ERR_INVALID, [], None, tr)
      | Some conn \<Rightarrow>
          if bsize > C_INT_MAX then (SOCKIFY_ERR_INVALID, [], Some conn, tr)
          else
            (case ssl os (Ssl_read (tn_ssl conn) bsize) tr of
               (r, tr1) \<Rightarrow>
                 if r_ret r > 0 then (SOCKIFY_OK, r_bytes r, Some (connection_clear_wants conn), tr1)
                 else (case map_ssl_error os conn (r_ret r) False tr1 of
                         (rc, conn1, tr2) \<Rightarrow> (rc, [], Some conn1, tr2))))"

definition openssl_connection_write ::
  "os \<Rightarrow> sockify_tls_connection ptr \<Rightarrow> byte list \<Rightarrow> trace
     \<Rightarrow> sockify_rc \<times> size_t \<times> sockify_tls_connection ptr \<times> trace" where
  "openssl_connection_write os conn_ptr buffer tr =
     (case conn_ptr of
        None \<Rightarrow> (SOCKIFY_ERR_INVALID, 0, None, tr)
      | Some conn \<Rightarrow>
          if length buffer > C_INT_MAX then (SOCKIFY_ERR_INVALID, 0, Some conn, tr)
          else if length buffer = 0 then (SOCKIFY_OK, 0, Some conn, tr)
          else
            (case ssl os (Ssl_write (tn_ssl conn) buffer) tr of
               (r, tr1) \<Rightarrow>
                 if r_ret r > 0 then (SOCKIFY_OK, nat (r_ret r), Some (connection_clear_wants conn), tr1)
                 else (case map_ssl_error os conn (r_ret r) False tr1 of
                         (rc, conn1, tr2) \<Rightarrow> (rc, 0, Some conn1, tr2))))"

definition openssl_connection_shutdown ::
  "os \<Rightarrow> sockify_tls_connection ptr \<Rightarrow> trace \<Rightarrow> sockify_rc \<times> sockify_tls_connection ptr \<times> trace" where
  "openssl_connection_shutdown os conn_ptr tr =
     (case conn_ptr of
        None \<Rightarrow> (SOCKIFY_ERR_INVALID, None, tr)
      | Some conn \<Rightarrow>
          (case ssl os (Ssl_shutdown (tn_ssl conn)) tr of
             (r, tr1) \<Rightarrow>
               if r_ret r = 1 then (SOCKIFY_OK, Some (connection_clear_wants conn), tr1)
               else if r_ret r = 0
               then (SOCKIFY_ERR_AGAIN, Some (conn\<lparr>tn_want_read := True, tn_want_write := True\<rparr>), tr1)
               else (case map_ssl_error os conn (r_ret r) False tr1 of
                       (rc, conn1, tr2) \<Rightarrow> (rc, Some conn1, tr2))))"

definition openssl_connection_wants_read :: "sockify_tls_connection ptr \<Rightarrow> bool" where
  "openssl_connection_wants_read conn = (case conn of None \<Rightarrow> False | Some c \<Rightarrow> tn_want_read c)"

definition openssl_connection_wants_write :: "sockify_tls_connection ptr \<Rightarrow> bool" where
  "openssl_connection_wants_write conn = (case conn of None \<Rightarrow> False | Some c \<Rightarrow> tn_want_write c)"

section \<open>The backend without TLS\<close>

definition none_global_init :: "trace \<Rightarrow> sockify_rc \<times> trace" where
  "none_global_init tr = (SOCKIFY_OK, tr)"

definition none_context_create :: "trace \<Rightarrow> sockify_rc \<times> sockify_tls_context ptr \<times> trace" where
  "none_context_create tr = (SOCKIFY_ERR_UNSUPPORTED, None, tr)"

definition none_connection_create :: "trace \<Rightarrow> sockify_rc \<times> sockify_tls_connection ptr \<times> trace" where
  "none_connection_create tr = (SOCKIFY_ERR_UNSUPPORTED, None, tr)"

definition none_connection_handshake ::
  "sockify_tls_connection ptr \<Rightarrow> trace \<Rightarrow> sockify_rc \<times> sockify_tls_connection ptr \<times> trace" where
  "none_connection_handshake conn tr = (SOCKIFY_ERR_UNSUPPORTED, conn, tr)"

definition none_connection_read ::
  "sockify_tls_connection ptr \<Rightarrow> trace \<Rightarrow> sockify_rc \<times> byte list \<times> sockify_tls_connection ptr \<times> trace" where
  "none_connection_read conn tr = (SOCKIFY_ERR_UNSUPPORTED, [], conn, tr)"

definition none_connection_write ::
  "sockify_tls_connection ptr \<Rightarrow> trace \<Rightarrow> sockify_rc \<times> size_t \<times> sockify_tls_connection ptr \<times> trace" where
  "none_connection_write conn tr = (SOCKIFY_ERR_UNSUPPORTED, 0, conn, tr)"

definition none_connection_shutdown ::
  "sockify_tls_connection ptr \<Rightarrow> trace \<Rightarrow> sockify_rc \<times> sockify_tls_connection ptr \<times> trace" where
  "none_connection_shutdown conn tr = (SOCKIFY_ERR_UNSUPPORTED, conn, tr)"

section \<open>The interface, bound to a backend\<close>

definition sockify_tls_is_available :: "tls_backend \<Rightarrow> bool" where
  "sockify_tls_is_available be \<longleftrightarrow> be = Backend_openssl"

definition sockify_tls_backend_name :: "tls_backend \<Rightarrow> byte list" where
  "sockify_tls_backend_name be = (case be of Backend_openssl \<Rightarrow> cstr ''openssl'' | Backend_none \<Rightarrow> cstr ''none'')"

definition sockify_tls_global_init :: "tls_backend \<Rightarrow> os \<Rightarrow> trace \<Rightarrow> sockify_rc \<times> trace" where
  "sockify_tls_global_init be os tr =
     (case be of Backend_openssl \<Rightarrow> openssl_global_init os tr | Backend_none \<Rightarrow> none_global_init tr)"

definition sockify_tls_global_cleanup :: "tls_backend \<Rightarrow> trace \<Rightarrow> trace" where
  "sockify_tls_global_cleanup be tr = tr"

definition sockify_tls_context_create ::
  "tls_backend \<Rightarrow> os \<Rightarrow> sockify_proxy_config ptr \<Rightarrow> bool \<Rightarrow> trace
     \<Rightarrow> sockify_rc \<times> sockify_tls_context ptr \<times> trace" where
  "sockify_tls_context_create be os config server_side tr =
     (case be of
        Backend_openssl \<Rightarrow> openssl_context_create os config server_side tr
      | Backend_none \<Rightarrow> none_context_create tr)"

definition sockify_tls_context_destroy :: "tls_backend \<Rightarrow> os \<Rightarrow> sockify_tls_context ptr \<Rightarrow> trace \<Rightarrow> trace" where
  "sockify_tls_context_destroy be os context tr =
     (case be of Backend_openssl \<Rightarrow> openssl_context_destroy os context tr | Backend_none \<Rightarrow> tr)"

definition sockify_tls_connection_create ::
  "tls_backend \<Rightarrow> os \<Rightarrow> sockify_tls_context ptr \<Rightarrow> socket \<Rightarrow> bool \<Rightarrow> byte list ptr \<Rightarrow> trace
     \<Rightarrow> sockify_rc \<times> sockify_tls_connection ptr \<times> trace" where
  "sockify_tls_connection_create be os context fd server_side server_name tr =
     (case be of
        Backend_openssl \<Rightarrow> openssl_connection_create os context fd server_side server_name tr
      | Backend_none \<Rightarrow> none_connection_create tr)"

definition sockify_tls_connection_handshake ::
  "tls_backend \<Rightarrow> os \<Rightarrow> sockify_tls_connection ptr \<Rightarrow> trace
     \<Rightarrow> sockify_rc \<times> sockify_tls_connection ptr \<times> trace" where
  "sockify_tls_connection_handshake be os conn tr =
     (case be of
        Backend_openssl \<Rightarrow> openssl_connection_handshake os conn tr
      | Backend_none \<Rightarrow> none_connection_handshake conn tr)"

definition sockify_tls_connection_read ::
  "tls_backend \<Rightarrow> os \<Rightarrow> sockify_tls_connection ptr \<Rightarrow> size_t \<Rightarrow> trace
     \<Rightarrow> sockify_rc \<times> byte list \<times> sockify_tls_connection ptr \<times> trace" where
  "sockify_tls_connection_read be os conn bsize tr =
     (case be of
        Backend_openssl \<Rightarrow> openssl_connection_read os conn bsize tr
      | Backend_none \<Rightarrow> none_connection_read conn tr)"

definition sockify_tls_connection_write ::
  "tls_backend \<Rightarrow> os \<Rightarrow> sockify_tls_connection ptr \<Rightarrow> byte list \<Rightarrow> trace
     \<Rightarrow> sockify_rc \<times> size_t \<times> sockify_tls_connection ptr \<times> trace" where
  "sockify_tls_connection_write be os conn buffer tr =
     (case be of
        Backend_openssl \<Rightarrow> openssl_connection_write os conn buffer tr
      | Backend_none \<Rightarrow> none_connection_write conn tr)"

definition sockify_tls_connection_shutdown ::
  "tls_backend \<Rightarrow> os \<Rightarrow> sockify_tls_connection ptr \<Rightarrow> trace
     \<Rightarrow> sockify_rc \<times> sockify_tls_connection ptr \<times> trace" where
  "sockify_tls_connection_shutdown be os conn tr =
     (case be of
        Backend_openssl \<Rightarrow> openssl_connection_shutdown os conn tr
      | Backend_none \<Rightarrow> none_connection_shutdown conn tr)"

definition sockify_tls_connection_destroy :: "tls_backend \<Rightarrow> os \<Rightarrow> sockify_tls_connection ptr \<Rightarrow> trace \<Rightarrow> trace" where
  "sockify_tls_connection_destroy be os conn tr =
     (case be of Backend_openssl \<Rightarrow> openssl_connection_destroy os conn tr | Backend_none \<Rightarrow> tr)"

definition sockify_tls_connection_wants_read :: "tls_backend \<Rightarrow> sockify_tls_connection ptr \<Rightarrow> bool" where
  "sockify_tls_connection_wants_read be conn =
     (case be of Backend_openssl \<Rightarrow> openssl_connection_wants_read conn | Backend_none \<Rightarrow> False)"

definition sockify_tls_connection_wants_write :: "tls_backend \<Rightarrow> sockify_tls_connection ptr \<Rightarrow> bool" where
  "sockify_tls_connection_wants_write be conn =
     (case be of Backend_openssl \<Rightarrow> openssl_connection_wants_write conn | Backend_none \<Rightarrow> False)"

end
