(* ===== verification/Transport.thy ===== *)
theory Transport
  imports Tls
begin

text \<open>
  The transport of \<^verbatim>\<open>src/transport/transport.c\<close>: one interface over a plain socket and a TLS
  connection. The contract a client of a byte stream relies on is the locale \<open>byte_channel\<close>; it
  is interpreted for the plain sockets, for the two TLS backends and for the transport that
  dispatches between them.
\<close>

abbreviation SOCKIFY_TRANSPORT_PLAIN :: int where "SOCKIFY_TRANSPORT_PLAIN \<equiv> 1"
abbreviation SOCKIFY_TRANSPORT_TLS :: int where "SOCKIFY_TRANSPORT_TLS \<equiv> 2"

record sockify_transport =
  t_type :: int
  t_fd :: socket
  t_tls :: "sockify_tls_connection ptr"

definition sockify_transport_init_plain ::
  "sockify_transport ptr \<Rightarrow> socket \<Rightarrow> sockify_rc \<times> sockify_transport ptr" where
  "sockify_transport_init_plain transport fd =
     (case transport of
        None \<Rightarrow> (SOCKIFY_ERR_INVALID, None)
      | Some t \<Rightarrow> (SOCKIFY_OK, Some \<lparr>t_type = SOCKIFY_TRANSPORT_PLAIN, t_fd = fd, t_tls = None\<rparr>))"

definition sockify_transport_init_tls ::
  "tls_backend \<Rightarrow> os \<Rightarrow> sockify_transport ptr \<Rightarrow> socket \<Rightarrow> sockify_tls_context ptr \<Rightarrow> bool \<Rightarrow>
     byte list ptr \<Rightarrow> trace \<Rightarrow> sockify_rc \<times> sockify_transport ptr \<times> trace" where
  "sockify_transport_init_tls be os transport fd context server_side server_name tr =
     (if transport = None \<or> context = None then (SOCKIFY_ERR_INVALID, transport, tr)
      else
        (case sockify_tls_connection_create be os context fd server_side server_name tr of
           (rc, conn, tr1) \<Rightarrow>
             if rc \<noteq> SOCKIFY_OK
             then (rc, Some \<lparr>t_type = 0, t_fd = sockify_net_invalid_socket, t_tls = None\<rparr>, tr1)
             else (SOCKIFY_OK, Some \<lparr>t_type = SOCKIFY_TRANSPORT_TLS, t_fd = fd, t_tls = conn\<rparr>, tr1)))"

definition sockify_transport_fd :: "sockify_transport ptr \<Rightarrow> socket" where
  "sockify_transport_fd transport =
     (case transport of None \<Rightarrow> sockify_net_invalid_socket | Some t \<Rightarrow> t_fd t)"

definition sockify_transport_handshake ::
  "tls_backend \<Rightarrow> os \<Rightarrow> sockify_transport \<Rightarrow> trace \<Rightarrow> sockify_rc \<times> sockify_transport \<times> trace" where
  "sockify_transport_handshake be os t tr =
     (if t_type t = SOCKIFY_TRANSPORT_PLAIN then (SOCKIFY_OK, t, tr)
      else (case sockify_tls_connection_handshake be os (t_tls t) tr of
              (rc, conn, tr1) \<Rightarrow> (rc, t\<lparr>t_tls := conn\<rparr>, tr1)))"

definition sockify_transport_read ::
  "tls_backend \<Rightarrow> os \<Rightarrow> sockify_transport \<Rightarrow> size_t \<Rightarrow> trace
     \<Rightarrow> sockify_rc \<times> byte list \<times> sockify_transport \<times> trace" where
  "sockify_transport_read be os t bsize tr =
     (if t_type t = SOCKIFY_TRANSPORT_PLAIN then
        (case sockify_net_recv os (t_fd t) bsize tr of (rc, bs, tr1) \<Rightarrow> (rc, bs, t, tr1))
      else (case sockify_tls_connection_read be os (t_tls t) bsize tr of
              (rc, bs, conn, tr1) \<Rightarrow> (rc, bs, t\<lparr>t_tls := conn\<rparr>, tr1)))"

definition sockify_transport_write ::
  "tls_backend \<Rightarrow> os \<Rightarrow> sockify_transport \<Rightarrow> byte list \<Rightarrow> trace
     \<Rightarrow> sockify_rc \<times> size_t \<times> sockify_transport \<times> trace" where
  "sockify_transport_write be os t buffer tr =
     (if t_type t = SOCKIFY_TRANSPORT_PLAIN then
        (case sockify_net_send os (t_fd t) buffer tr of (rc, n, tr1) \<Rightarrow> (rc, n, t, tr1))
      else (case sockify_tls_connection_write be os (t_tls t) buffer tr of
              (rc, n, conn, tr1) \<Rightarrow> (rc, n, t\<lparr>t_tls := conn\<rparr>, tr1)))"

definition sockify_transport_shutdown ::
  "tls_backend \<Rightarrow> os \<Rightarrow> sockify_transport \<Rightarrow> trace \<Rightarrow> sockify_rc \<times> sockify_transport \<times> trace" where
  "sockify_transport_shutdown be os t tr =
     (if t_type t = SOCKIFY_TRANSPORT_PLAIN then (SOCKIFY_OK, t, tr)
      else (case sockify_tls_connection_shutdown be os (t_tls t) tr of
              (rc, conn, tr1) \<Rightarrow> (rc, t\<lparr>t_tls := conn\<rparr>, tr1)))"

definition sockify_transport_destroy ::
  "tls_backend \<Rightarrow> os \<Rightarrow> sockify_transport \<Rightarrow> trace \<Rightarrow> sockify_transport \<times> trace" where
  "sockify_transport_destroy be os t tr =
     (let tr1 = (if t_type t = SOCKIFY_TRANSPORT_TLS \<and> t_tls t \<noteq> None
                 then sockify_tls_connection_destroy be os (t_tls t) tr else tr)
      in (\<lparr>t_type = 0, t_fd = sockify_net_invalid_socket, t_tls = None\<rparr>, tr1))"

definition sockify_transport_wants_read :: "tls_backend \<Rightarrow> sockify_transport \<Rightarrow> bool" where
  "sockify_transport_wants_read be t =
     (if t_type t = SOCKIFY_TRANSPORT_PLAIN then False else sockify_tls_connection_wants_read be (t_tls t))"

definition sockify_transport_wants_write :: "tls_backend \<Rightarrow> sockify_transport \<Rightarrow> bool" where
  "sockify_transport_wants_write be t =
     (if t_type t = SOCKIFY_TRANSPORT_PLAIN then False else sockify_tls_connection_wants_write be (t_tls t))"

section \<open>The contract of a byte stream\<close>

locale byte_channel =
  fixes chan_of :: "'c \<Rightarrow> chan option"
    and rd :: "os \<Rightarrow> 'c \<Rightarrow> size_t \<Rightarrow> trace \<Rightarrow> sockify_rc \<times> byte list \<times> 'c \<times> trace"
    and wr :: "os \<Rightarrow> 'c \<Rightarrow> byte list \<Rightarrow> trace \<Rightarrow> sockify_rc \<times> size_t \<times> 'c \<times> trace"
  assumes rd_law: "os_io os \<Longrightarrow> rd os c n tr = (rc, bs, c', tr') \<Longrightarrow>
      io_effect (chan_of c) tr tr' bs [] \<and> length bs \<le> n \<and> (rc = SOCKIFY_OK \<longleftrightarrow> bs \<noteq> []) \<and>
      chan_of c' = chan_of c"
    and wr_law: "os_io os \<Longrightarrow> wr os c bs tr = (rc, k, c', tr') \<Longrightarrow>
      io_effect (chan_of c) tr tr' [] (take k bs) \<and> k \<le> length bs \<and>
      (rc \<noteq> SOCKIFY_OK \<longrightarrow> k = 0) \<and> (rc = SOCKIFY_OK \<longrightarrow> bs \<noteq> [] \<longrightarrow> 0 < k) \<and>
      chan_of c' = chan_of c"
begin

text \<open>Writing the unsent rest of a message once more keeps the stream a prefix of the message.\<close>

lemma write_rest:
  assumes "os_io os" and "wr os c (drop p bs) tr = (rc, k, c', tr')" and "chan_of c = Some ch"
    and "trace_out ch tr = pre @ take p bs" and "p \<le> length bs"
  shows "trace_out ch tr' = pre @ take (p + k) bs" and "p + k \<le> length bs"
proof -
  from wr_law [OF assms(1,2)] have e: "io_effect (Some ch) tr tr' [] (take k (drop p bs))"
    and k: "k \<le> length bs - p" using assms(3) by simp_all
  show "trace_out ch tr' = pre @ take (p + k) bs"
    using io_effect_out [OF e, of ch] assms(4) by (simp add: take_add)
  show "p + k \<le> length bs" using k assms(5) by simp
qed

text \<open>A read never disturbs another stream.\<close>

lemma read_frame:
  assumes "os_io os" and "rd os c n tr = (rc, bs, c', tr')" and "chan_of c \<noteq> Some other"
  shows "trace_in other tr' = trace_in other tr" and "trace_out other tr' = trace_out other tr"
  using io_effect_in [of "chan_of c" tr tr' bs "[]" other] io_effect_out [of "chan_of c" tr tr' bs "[]" other]
    rd_law [OF assms(1,2)] assms(3) by simp_all

end

section \<open>The streams of the program\<close>

definition plain_read :: "os \<Rightarrow> socket \<Rightarrow> size_t \<Rightarrow> trace \<Rightarrow> sockify_rc \<times> byte list \<times> socket \<times> trace" where
  "plain_read os fd n tr = (case sockify_net_recv os fd n tr of (rc, bs, tr') \<Rightarrow> (rc, bs, fd, tr'))"

definition plain_write :: "os \<Rightarrow> socket \<Rightarrow> byte list \<Rightarrow> trace \<Rightarrow> sockify_rc \<times> size_t \<times> socket \<times> trace" where
  "plain_write os fd bs tr = (case sockify_net_send os fd bs tr of (rc, k, tr') \<Rightarrow> (rc, k, fd, tr'))"

interpretation plain: byte_channel "\<lambda>fd. Some (Chan_fd fd)" plain_read plain_write
proof
  fix os fd n tr rc bs c' tr'
  assume os: "os_io os" and r: "plain_read os fd n tr = (rc, bs, c', tr')"
  let ?e = "(Call_recv fd n, os tr (Call_recv fd n))"
  have "io_effect (Some (Chan_fd fd)) tr (?e # tr) (if 0 < r_ret (snd ?e) then r_bytes (snd ?e) else []) []"
    by (rule io_effect_Cons) auto
  with os_ioD(1,2) [OF os, of tr fd n] r
  show "io_effect (Some (Chan_fd fd)) tr tr' bs [] \<and> length bs \<le> n \<and> (rc = SOCKIFY_OK \<longleftrightarrow> bs \<noteq> []) \<and>
      Some (Chan_fd c') = Some (Chan_fd fd)"
    by (auto simp: plain_read_def sockify_net_recv_def sys_eq Let_def split: if_splits)
next
  fix os fd bs tr rc k c' tr'
  assume os: "os_io os" and r: "plain_write os fd bs tr = (rc, k, c', tr')"
  let ?e = "(Call_send fd bs, os tr (Call_send fd bs))"
  have "io_effect (Some (Chan_fd fd)) tr (?e # tr) [] (take (nat (r_ret (snd ?e))) bs)"
    by (rule io_effect_Cons) auto
  with os_ioD(5) [OF os, of tr fd bs] r
  show "io_effect (Some (Chan_fd fd)) tr tr' [] (take k bs) \<and> k \<le> length bs \<and>
      (rc \<noteq> SOCKIFY_OK \<longrightarrow> k = 0) \<and> (rc = SOCKIFY_OK \<longrightarrow> bs \<noteq> [] \<longrightarrow> 0 < k) \<and>
      Some (Chan_fd c') = Some (Chan_fd fd)"
    by (auto simp: plain_write_def sockify_net_send_def sys_eq Let_def split: if_splits)
qed

definition conn_chan :: "sockify_tls_connection ptr \<Rightarrow> chan option" where
  "conn_chan conn = map_option (Chan_ssl \<circ> tn_ssl) conn"

lemma map_ssl_error_run:
  assumes "map_ssl_error os conn ret hs tr = (rc, conn', tr')"
  shows "silent tr tr'" and "rc \<noteq> SOCKIFY_OK" and "tn_ssl conn' = tn_ssl conn"
    and "tn_self conn' = tn_self conn"
proof -
  have "silent tr ((Call_ssl (Ssl_get_error (tn_ssl conn) ret), r) # tr)" for r
    by (rule io_effect_Cons) auto
  then show "silent tr tr'" "rc \<noteq> SOCKIFY_OK" "tn_ssl conn' = tn_ssl conn" "tn_self conn' = tn_self conn"
    using assms
    by (auto simp: map_ssl_error_def ssl_def sys_eq connection_clear_wants_def Let_def split: if_splits)
qed

interpretation openssl: byte_channel conn_chan openssl_connection_read openssl_connection_write
proof
  fix os conn n tr rc bs c' tr'
  assume os: "os_io os" and r: "openssl_connection_read os conn n tr = (rc, bs, c', tr')"
  show "io_effect (conn_chan conn) tr tr' bs [] \<and> length bs \<le> n \<and> (rc = SOCKIFY_OK \<longleftrightarrow> bs \<noteq> []) \<and>
      conn_chan c' = conn_chan conn"
  proof (cases conn)
    case None
    with r show ?thesis by (auto simp: openssl_connection_read_def)
  next
    case (Some c)
    let ?c = "Call_ssl (Ssl_read (tn_ssl c) n)"
    let ?e = "(?c, os tr ?c)"
    have e: "io_effect (Some (Chan_ssl (tn_ssl c))) tr (?e # tr)
        (if 0 < r_ret (snd ?e) then r_bytes (snd ?e) else []) []"
      by (rule io_effect_Cons) auto
    show ?thesis
    proof (cases "n > C_INT_MAX")
      case True
      with r Some show ?thesis by (auto simp: openssl_connection_read_def)
    next
      case False
      show ?thesis
      proof (cases "0 < r_ret (os tr ?c)")
        case True
        with r Some False e os_ioD(3,4) [OF os, of tr "tn_ssl c" n] show ?thesis
          by (auto simp: openssl_connection_read_def ssl_def sys_eq conn_chan_def connection_clear_wants_def)
      next
        case no: False
        obtain rc1 c1 tr1 where m: "map_ssl_error os c (r_ret (os tr ?c)) False (?e # tr) = (rc1, c1, tr1)"
          by (metis prod_cases3)
        with r Some False no have "rc = rc1" "bs = []" "c' = Some c1" "tr' = tr1"
          by (simp_all add: openssl_connection_read_def ssl_def sys_eq)
        with e no Some map_ssl_error_run [OF m] io_then_silent show ?thesis
          by (auto simp: conn_chan_def)
      qed
    qed
  qed
next
  fix os conn bs tr rc k c' tr'
  assume os: "os_io os" and r: "openssl_connection_write os conn bs tr = (rc, k, c', tr')"
  show "io_effect (conn_chan conn) tr tr' [] (take k bs) \<and> k \<le> length bs \<and>
      (rc \<noteq> SOCKIFY_OK \<longrightarrow> k = 0) \<and> (rc = SOCKIFY_OK \<longrightarrow> bs \<noteq> [] \<longrightarrow> 0 < k) \<and>
      conn_chan c' = conn_chan conn"
  proof (cases conn)
    case None
    with r show ?thesis by (auto simp: openssl_connection_write_def)
  next
    case (Some c)
    let ?c = "Call_ssl (Ssl_write (tn_ssl c) bs)"
    let ?e = "(?c, os tr ?c)"
    have e: "io_effect (Some (Chan_ssl (tn_ssl c))) tr (?e # tr) [] (take (nat (r_ret (snd ?e))) bs)"
      by (rule io_effect_Cons) auto
    show ?thesis
    proof (cases "length bs > C_INT_MAX \<or> length bs = 0")
      case True
      with r Some show ?thesis by (auto simp: openssl_connection_write_def split: if_splits)
    next
      case False
      show ?thesis
      proof (cases "0 < r_ret (os tr ?c)")
        case True
        with r Some False e os_ioD(6) [OF os, of tr "tn_ssl c" bs] show ?thesis
          by (auto simp: openssl_connection_write_def ssl_def sys_eq conn_chan_def connection_clear_wants_def)
      next
        case no: False
        obtain rc1 c1 tr1 where m: "map_ssl_error os c (r_ret (os tr ?c)) False (?e # tr) = (rc1, c1, tr1)"
          by (metis prod_cases3)
        with r Some False no have "rc = rc1" "k = 0" "c' = Some c1" "tr' = tr1"
          by (simp_all add: openssl_connection_write_def ssl_def sys_eq)
        with e no Some map_ssl_error_run [OF m] io_then_silent show ?thesis
          by (auto simp: conn_chan_def)
      qed
    qed
  qed
qed

interpretation none: byte_channel conn_chan "\<lambda>os conn n tr. none_connection_read conn tr"
  "\<lambda>os conn bs tr. none_connection_write conn tr"
  by unfold_locales (auto simp: none_connection_read_def none_connection_write_def)

definition transport_chan :: "sockify_transport \<Rightarrow> chan option" where
  "transport_chan t = (if t_type t = SOCKIFY_TRANSPORT_PLAIN then Some (Chan_fd (t_fd t)) else conn_chan (t_tls t))"

lemma tls_read_law:
  assumes "os_io os" and "sockify_tls_connection_read be os conn n tr = (rc, bs, conn', tr')"
  shows "io_effect (conn_chan conn) tr tr' bs [] \<and> length bs \<le> n \<and> (rc = SOCKIFY_OK \<longleftrightarrow> bs \<noteq> []) \<and>
      conn_chan conn' = conn_chan conn"
  using assms openssl.rd_law none.rd_law
  by (cases be) (auto simp: sockify_tls_connection_read_def)

lemma tls_write_law:
  assumes "os_io os" and "sockify_tls_connection_write be os conn bs tr = (rc, k, conn', tr')"
  shows "io_effect (conn_chan conn) tr tr' [] (take k bs) \<and> k \<le> length bs \<and>
      (rc \<noteq> SOCKIFY_OK \<longrightarrow> k = 0) \<and> (rc = SOCKIFY_OK \<longrightarrow> bs \<noteq> [] \<longrightarrow> 0 < k) \<and>
      conn_chan conn' = conn_chan conn"
  using assms openssl.wr_law none.wr_law
  by (cases be) (auto simp: sockify_tls_connection_write_def)

interpretation transport: byte_channel transport_chan "sockify_transport_read be" "sockify_transport_write be"
  for be
proof
  fix os t n tr rc bs c' tr'
  assume os: "os_io os" and r: "sockify_transport_read be os t n tr = (rc, bs, c', tr')"
  show "io_effect (transport_chan t) tr tr' bs [] \<and> length bs \<le> n \<and> (rc = SOCKIFY_OK \<longleftrightarrow> bs \<noteq> []) \<and>
      transport_chan c' = transport_chan t"
  proof (cases "t_type t = SOCKIFY_TRANSPORT_PLAIN")
    case True
    with r plain.rd_law [OF os, of "t_fd t" n tr] show ?thesis
      by (auto simp: sockify_transport_read_def transport_chan_def plain_read_def split: prod.splits)
  next
    case False
    with r tls_read_law [OF os, of be "t_tls t" n tr] show ?thesis
      by (auto simp: sockify_transport_read_def transport_chan_def split: prod.splits)
  qed
next
  fix os t bs tr rc k c' tr'
  assume os: "os_io os" and r: "sockify_transport_write be os t bs tr = (rc, k, c', tr')"
  show "io_effect (transport_chan t) tr tr' [] (take k bs) \<and> k \<le> length bs \<and>
      (rc \<noteq> SOCKIFY_OK \<longrightarrow> k = 0) \<and> (rc = SOCKIFY_OK \<longrightarrow> bs \<noteq> [] \<longrightarrow> 0 < k) \<and>
      transport_chan c' = transport_chan t"
  proof (cases "t_type t = SOCKIFY_TRANSPORT_PLAIN")
    case True
    with r plain.wr_law [OF os, of "t_fd t" bs tr] show ?thesis
      by (auto simp: sockify_transport_write_def transport_chan_def plain_write_def split: prod.splits)
  next
    case False
    with r tls_write_law [OF os, of be "t_tls t" bs tr] show ?thesis
      by (auto simp: sockify_transport_write_def transport_chan_def split: prod.splits)
  qed
qed

section \<open>Property of a transport\<close>

text \<open>
  Property C29. A transport is a byte stream, over a plain socket as over TLS, with either backend, if the
  kernel and OpenSSL never transfer more than they were asked for. A read hands out exactly the bytes that
  arrived on the stream of the transport, at most as many as asked for, and reports success if there are
  any. A write sends exactly the first bytes it reports sent, none on failure and at least one on success.
  Neither touches another stream, opens or closes a descriptor, or changes the stream of the transport.
\<close>

theorem transport_is_stream:
  assumes "os_io os"
  shows "(case sockify_transport_read be os t n tr of
      (rc, bs, t', tr') \<Rightarrow> io_effect (transport_chan t) tr tr' bs [] \<and> length bs \<le> n \<and>
        (rc = SOCKIFY_OK) = (bs \<noteq> []) \<and> transport_chan t' = transport_chan t) \<and>
    (case sockify_transport_write be os t bytes tr of
      (rc, k, t', tr') \<Rightarrow> io_effect (transport_chan t) tr tr' [] (take k bytes) \<and> k \<le> length bytes \<and>
        (rc \<noteq> SOCKIFY_OK \<longrightarrow> k = 0) \<and> (rc = SOCKIFY_OK \<longrightarrow> bytes \<noteq> [] \<longrightarrow> 0 < k) \<and>
        transport_chan t' = transport_chan t)"
  using transport.rd_law [OF assms] transport.wr_law [OF assms] by (auto split: prod.splits)

text \<open>A kernel that takes one byte of every message and delivers none.\<close>

definition slow_os :: os where
  "slow_os tr c = \<lparr>r_ret = (case c of Call_send fd bs \<Rightarrow> if bs = [] then 0 else 1 | _ \<Rightarrow> - 1), r_errno = EAGAIN,
     r_out = 0, r_bytes = [], r_addrs = [], r_ready = []\<rparr>"

theorem transport_is_stream_witness:
  "\<exists>tr'. sockify_transport_write Backend_none slow_os \<lparr>t_type = SOCKIFY_TRANSPORT_PLAIN, t_fd = 4, t_tls = None\<rparr> [7, 8] [] =
      (SOCKIFY_OK, 1, \<lparr>t_type = SOCKIFY_TRANSPORT_PLAIN, t_fd = 4, t_tls = None\<rparr>, tr') \<and>
    io_effect (Some (Chan_fd 4)) [] tr' [] [7]"
proof -
  let ?t = "\<lparr>t_type = SOCKIFY_TRANSPORT_PLAIN, t_fd = 4, t_tls = None\<rparr>"
  have os: "os_io slow_os"
    by (auto simp: os_io_def slow_os_def Let_def Suc_le_eq)
  have "\<exists>tr'. sockify_transport_write Backend_none slow_os ?t [7, 8] [] = (SOCKIFY_OK, 1, ?t, tr')"
    by (simp add: sockify_transport_write_def sockify_net_send_def sys_eq slow_os_def)
  then obtain tr' where w: "sockify_transport_write Backend_none slow_os ?t [7, 8] [] = (SOCKIFY_OK, 1, ?t, tr')" ..
  then have "io_effect (transport_chan ?t) [] tr' [] (take 1 [7, 8])"
    using transport_is_stream [OF os, where be = Backend_none and t = ?t and tr = "[]" and bytes = "[7, 8]"] by simp
  with w show ?thesis by (simp add: transport_chan_def)
qed

end
