(* ===== verification/Tls_Props.thy ===== *)
theory Tls_Props
  imports Transport
begin

text \<open>
  Properties of the OpenSSL backend: what a successful handshake means, and that contexts and
  connections are either handed out or released completely.
\<close>

section \<open>Resources\<close>

datatype resource = Res_mem addr | Res_ssl int | Res_ctx int

fun own_delta :: "resource \<Rightarrow> call \<times> reply \<Rightarrow> int" where
  "own_delta x (Call_mem (Mem_calloc n), r) = (if r_ret r \<noteq> 0 \<and> x = Res_mem (nat (r_ret r)) then 1 else 0)"
| "own_delta x (Call_mem (Mem_free a), r) = (if x = Res_mem a then - 1 else 0)"
| "own_delta x (Call_ssl (Ssl_new c), r) = (if r_ret r \<noteq> 0 \<and> x = Res_ssl (r_ret r) then 1 else 0)"
| "own_delta x (Call_ssl (Ssl_free h), r) = (if x = Res_ssl h then - 1 else 0)"
| "own_delta x (Call_ssl (Ssl_ctx_new s), r) = (if r_ret r \<noteq> 0 \<and> x = Res_ctx (r_ret r) then 1 else 0)"
| "own_delta x (Call_ssl (Ssl_ctx_free h), r) = (if x = Res_ctx h then - 1 else 0)"
| "own_delta x _ = 0"

definition own_balance :: "trace \<Rightarrow> resource \<Rightarrow> int" where
  "own_balance tr x = sum_list (map (own_delta x) tr)"

lemma own_balance_Cons [simp]: "own_balance (e # tr) x = own_delta x e + own_balance tr x"
  by (simp add: own_balance_def)

text \<open>Between two traces exactly the listed resources were acquired and kept.\<close>

definition acquires :: "trace \<Rightarrow> trace \<Rightarrow> resource list \<Rightarrow> bool" where
  "acquires tr tr' xs \<longleftrightarrow> (\<forall>x. own_balance tr' x = own_balance tr x + int (count_list xs x))"

definition conn_resources :: "sockify_tls_connection ptr \<Rightarrow> resource list" where
  "conn_resources conn = (case conn of None \<Rightarrow> [] | Some c \<Rightarrow> [Res_mem (tn_self c), Res_ssl (tn_ssl c)])"

definition ctx_resources :: "sockify_tls_context ptr \<Rightarrow> resource list" where
  "ctx_resources ctx = (case ctx of None \<Rightarrow> [] | Some c \<Rightarrow> [Res_mem (tc_self c), Res_ctx (tc_ctx c)])"

lemma set_hostname_owns:
  "set_connection_hostname os conn name tr = (rc, tr') \<Longrightarrow> own_balance tr' x = own_balance tr x"
  by (auto simp: set_connection_hostname_def ssl_def sys_eq split: option.splits if_splits)

lemma connection_destroy_owns:
  "tn_ssl c \<noteq> 0 \<Longrightarrow> own_balance (openssl_connection_destroy os (Some c) tr) x =
     own_balance tr x - int (count_list (conn_resources (Some c)) x)"
  by (auto simp: openssl_connection_destroy_def ssl_def free_ptr_def sys_eq conn_resources_def Let_def)

lemma connection_setup_owns:
  assumes "openssl_connection_setup os c fd name tr = (rc, conn, tr')" and "tn_ssl c \<noteq> 0"
  shows "own_balance tr' x = own_balance tr x + int (count_list (conn_resources conn) x)
      - int (count_list (conn_resources (Some c)) x)"
    and "(rc = SOCKIFY_OK) = (conn \<noteq> None)"
proof -
  have "own_balance tr' x = own_balance tr x + int (count_list (conn_resources conn) x)
      - int (count_list (conn_resources (Some c)) x) \<and> (rc = SOCKIFY_OK) = (conn \<noteq> None)"
    using assms
    by (auto simp: openssl_connection_setup_def ssl_def sys_eq connection_destroy_owns
        split: if_splits prod.splits dest!: set_hostname_owns [of _ _ _ _ _ _ x])
      (auto simp: conn_resources_def)
  then show "own_balance tr' x = own_balance tr x + int (count_list (conn_resources conn) x)
      - int (count_list (conn_resources (Some c)) x)" "(rc = SOCKIFY_OK) = (conn \<noteq> None)"
    by simp_all
qed


lemma context_destroy_owns:
  "tc_ctx c \<noteq> 0 \<Longrightarrow> own_balance (openssl_context_destroy os (Some c) tr) x =
     own_balance tr x - int (count_list (ctx_resources (Some c)) x)"
  by (auto simp: openssl_context_destroy_def ssl_def free_ptr_def sys_eq ctx_resources_def Let_def)

lemma load_cert_owns:
  "context_load_server_cert os ctx config tr = (rc, tr') \<Longrightarrow> own_balance tr' x = own_balance tr x"
  by (auto simp: context_load_server_cert_def ssl_def sys_eq split: if_splits)

lemma load_verify_owns:
  "context_load_verify_paths os ctx ca tr = (rc, tr') \<Longrightarrow> own_balance tr' x = own_balance tr x"
  by (auto simp: context_load_verify_paths_def ssl_def sys_eq split: if_splits)

lemma context_setup_owns:
  assumes "openssl_context_setup os config c tr = (rc, ctx, tr')" and "tc_ctx c \<noteq> 0"
  shows "own_balance tr' x = own_balance tr x + int (count_list (ctx_resources ctx) x)
      - int (count_list (ctx_resources (Some c)) x) \<and> (rc = SOCKIFY_OK) = (ctx \<noteq> None)"
proof -
  let ?tr1 = "snd (ssl os (Ssl_ctx_min_version (tc_ctx c)) tr)"
  obtain rc2 tr2 where r: "(if tc_server_side c then
         context_load_server_cert os (tc_ctx c) config
           (snd (ssl os (Ssl_ctx_session_id (tc_ctx c) (cstr ''sockify'')) ?tr1))
       else if tc_verify_peer c then
         context_load_verify_paths os (tc_ctx c) (target_tls_ca_file config)
           (snd (ssl os (Ssl_ctx_set_verify (tc_ctx c) True) ?tr1))
       else (SOCKIFY_OK, snd (ssl os (Ssl_ctx_set_verify (tc_ctx c) False) ?tr1))) = (rc2, tr2)"
    by (metis surj_pair)
  then have "own_balance tr2 x = own_balance tr x"
    by (auto simp: ssl_def sys_eq split: if_splits dest!: load_cert_owns [of _ _ _ _ _ _ x] load_verify_owns [of _ _ _ _ _ _ x])
  then show ?thesis
    using assms r context_destroy_owns [OF assms(2), of os tr2 x]
    by (auto simp: openssl_context_setup_def Let_def ctx_resources_def split: if_splits)
qed

lemma connection_create_owns:
  assumes "openssl_connection_create os context fd server_side name tr = (rc, conn, tr')"
  shows "acquires tr tr' (conn_resources conn) \<and> (rc = SOCKIFY_OK) = (conn \<noteq> None)"
proof (cases "context")
  case None
  with assms show ?thesis by (auto simp: openssl_connection_create_def acquires_def conn_resources_def)
next
  case (Some cx)
  let ?m = "Call_mem (Mem_calloc 24)"
  let ?tr1 = "(?m, os tr ?m) # tr"
  let ?n = "Call_ssl (Ssl_new (tc_ctx cx))"
  let ?tr2 = "(?n, os ?tr1 ?n) # ?tr1"
  let ?c = "\<lparr>tn_self = nat (r_ret (os tr ?m)), tn_ssl = r_ret (os ?tr1 ?n), tn_want_read = False,
      tn_want_write = False, tn_server_side = server_side, tn_verify_peer = tc_verify_peer cx\<rparr>"
  consider "server_side \<noteq> tc_server_side cx \<or> r_ret (os tr ?m) = 0"
    | "server_side = tc_server_side cx" "r_ret (os tr ?m) \<noteq> 0" "r_ret (os ?tr1 ?n) = 0"
    | "server_side = tc_server_side cx" "r_ret (os tr ?m) \<noteq> 0" "r_ret (os ?tr1 ?n) \<noteq> 0"
    by blast
  then show ?thesis
  proof cases
    case 1
    with assms Some show ?thesis
      by (auto simp: openssl_connection_create_def acquires_def conn_resources_def sys_eq split: if_splits)
  next
    case 2
    with assms Some show ?thesis
      by (auto simp: openssl_connection_create_def acquires_def conn_resources_def sys_eq ssl_def free_ptr_def)
  next
    case 3
    with assms Some have "openssl_connection_setup os ?c fd name ?tr2 = (rc, conn, tr')"
      by (simp add: openssl_connection_create_def sys_eq ssl_def)
    with connection_setup_owns [OF this] 3 show ?thesis
      by (simp add: acquires_def conn_resources_def)
  qed
qed

lemma context_create_owns:
  assumes "openssl_context_create os config server_side tr = (rc, ctx, tr')"
  shows "acquires tr tr' (ctx_resources ctx) \<and> (rc = SOCKIFY_OK) = (ctx \<noteq> None)"
proof (cases config)
  case None
  with assms show ?thesis by (auto simp: openssl_context_create_def acquires_def ctx_resources_def)
next
  case (Some cf)
  let ?m = "Call_mem (Mem_calloc 16)"
  let ?tr1 = "(?m, os tr ?m) # tr"
  let ?n = "Call_ssl (Ssl_ctx_new server_side)"
  let ?tr2 = "(?n, os ?tr1 ?n) # ?tr1"
  let ?c = "\<lparr>tc_self = nat (r_ret (os tr ?m)), tc_ctx = r_ret (os ?tr1 ?n), tc_server_side = server_side,
      tc_verify_peer = (if server_side then False else \<not> target_tls_insecure cf)\<rparr>"
  consider "r_ret (os tr ?m) = 0" | "r_ret (os tr ?m) \<noteq> 0" "r_ret (os ?tr1 ?n) = 0"
    | "r_ret (os tr ?m) \<noteq> 0" "r_ret (os ?tr1 ?n) \<noteq> 0"
    by blast
  then show ?thesis
  proof cases
    case 1
    with assms Some show ?thesis
      by (auto simp: openssl_context_create_def acquires_def ctx_resources_def sys_eq)
  next
    case 2
    with assms Some show ?thesis
      by (auto simp: openssl_context_create_def acquires_def ctx_resources_def sys_eq ssl_def free_ptr_def)
  next
    case 3
    with assms Some have "openssl_context_setup os cf ?c ?tr2 = (rc, ctx, tr')"
      by (simp add: openssl_context_create_def sys_eq ssl_def)
    with context_setup_owns [OF this] 3 show ?thesis
      by (simp add: acquires_def ctx_resources_def)
  qed
qed

section \<open>Properties\<close>

text \<open>
  Property C17. Creating a TLS context or connection hands out exactly the object it allocated
  and the OpenSSL handle inside it, or, on every failing branch, releases what it had acquired.
\<close>

theorem tls_create_no_leak:
  "(case openssl_connection_create os context fd server_side name tr of
      (rc, conn, tr') \<Rightarrow> acquires tr tr' (conn_resources conn) \<and> (rc = SOCKIFY_OK) = (conn \<noteq> None)) \<and>
   (case openssl_context_create os config server_side tr of
      (rc, ctx, tr') \<Rightarrow> acquires tr tr' (ctx_resources ctx) \<and> (rc = SOCKIFY_OK) = (ctx \<noteq> None))"
  using connection_create_owns context_create_owns by (auto split: prod.splits)

section \<open>Use of a connection\<close>

text \<open>The states a connection goes through after its creation: any number of handshake attempts,
  reads, writes and shutdowns with whatever result, in any order and with other calls in between.\<close>

inductive tls_used :: "os \<Rightarrow> sockify_tls_connection \<Rightarrow> sockify_tls_connection \<Rightarrow> bool" for os c0 where
  created: "tls_used os c0 c0"
| attempted: "tls_used os c0 c \<Longrightarrow> openssl_connection_handshake os (Some c) tr = (rc, Some c', tr') \<Longrightarrow> tls_used os c0 c'"
| was_read: "tls_used os c0 c \<Longrightarrow> openssl_connection_read os (Some c) n tr = (rc, bs, Some c', tr') \<Longrightarrow> tls_used os c0 c'"
| was_written: "tls_used os c0 c \<Longrightarrow> openssl_connection_write os (Some c) bs tr = (rc, k, Some c', tr') \<Longrightarrow> tls_used os c0 c'"
| was_shut: "tls_used os c0 c \<Longrightarrow> openssl_connection_shutdown os (Some c) tr = (rc, Some c', tr') \<Longrightarrow> tls_used os c0 c'"

text \<open>The OpenSSL handle and the two switches set at creation; only the wants ever change.\<close>

definition conn_identity :: "sockify_tls_connection \<Rightarrow> int \<times> bool \<times> bool" where
  "conn_identity c = (tn_ssl c, tn_server_side c, tn_verify_peer c)"

lemma conn_identity_simps [simp]:
  "conn_identity (connection_clear_wants c) = conn_identity c"
  "conn_identity (c\<lparr>tn_want_read := b\<rparr>) = conn_identity c"
  "conn_identity (c\<lparr>tn_want_write := b\<rparr>) = conn_identity c"
  by (simp_all add: conn_identity_def connection_clear_wants_def)

lemma map_ssl_error_identity:
  "map_ssl_error os c n hs tr = (rc, c', tr') \<Longrightarrow> conn_identity c' = conn_identity c"
  by (auto simp: map_ssl_error_def ssl_def sys_eq Let_def split: if_splits)

lemma tls_used_identity: "tls_used os c0 c \<Longrightarrow> conn_identity c = conn_identity c0"
proof (induction rule: tls_used.induct)
  case (attempted c tr rc c' tr')
  then show ?case
    by (auto simp: openssl_connection_handshake_def ssl_def Let_def dest: map_ssl_error_identity
        split: if_splits prod.splits)
next
  case (was_read c n tr rc bs c' tr')
  then show ?case
    by (auto simp: openssl_connection_read_def ssl_def dest: map_ssl_error_identity split: if_splits prod.splits)
next
  case (was_written c bs tr rc k c' tr')
  then show ?case
    by (auto simp: openssl_connection_write_def ssl_def dest: map_ssl_error_identity split: if_splits prod.splits)
next
  case (was_shut c tr rc c' tr')
  then show ?case
    by (auto simp: openssl_connection_shutdown_def ssl_def dest: map_ssl_error_identity split: if_splits prod.splits)
qed simp

text \<open>
  Property C16. Take a connection to the target as it was created, and use it in any way: handshake
  attempts that have to be repeated, reads, writes, shutdowns. Whenever a handshake call on it
  succeeds, OpenSSL finished the handshake in this call and then reported a good verification
  result, both for the handle of this very connection; the last call recorded is that check.
  Contexts for the target verify unless the configuration says insecure, and a connection inherits
  it.
\<close>

theorem tls_handshake_verified:
  assumes "openssl_context_create os (Some config) False tr0 = (SOCKIFY_OK, Some ctx, tr1)"
    and "\<not> target_tls_insecure config"
    and "openssl_connection_create os (Some ctx) fd False (Some name) tr2 = (SOCKIFY_OK, Some conn0, tr3)"
    and "tls_used os conn0 conn"
    and "openssl_connection_handshake os (Some conn) tr = (SOCKIFY_OK, conn', tr')"
  shows "\<exists>r. tr' = (Call_ssl (Ssl_get_verify_result (tn_ssl conn0)), r) #
               (Call_ssl (Ssl_do_handshake (tn_ssl conn0)), os tr (Call_ssl (Ssl_do_handshake (tn_ssl conn0)))) # tr \<and>
             r_ret r = X509_V_OK \<and> r_ret (os tr (Call_ssl (Ssl_do_handshake (tn_ssl conn0)))) = 1"
proof -
  have "tc_verify_peer ctx"
    using assms(1,2)
    by (auto simp: openssl_context_create_def openssl_context_setup_def ssl_def sys_eq Let_def
        split: if_splits prod.splits)
  then have "tn_verify_peer conn0" "\<not> tn_server_side conn0"
    using assms(3)
    by (auto simp: openssl_connection_create_def openssl_connection_setup_def ssl_def sys_eq
        split: if_splits prod.splits)
  moreover have "tn_ssl conn = tn_ssl conn0" "tn_verify_peer conn = tn_verify_peer conn0"
    "tn_server_side conn = tn_server_side conn0"
    using tls_used_identity [OF assms(4)] by (simp_all add: conn_identity_def)
  ultimately show ?thesis
    using assms(5) map_ssl_error_run(2)
    by (auto simp: openssl_connection_handshake_def ssl_def sys_eq connection_clear_wants_def Let_def
        split: if_splits prod.splits)
qed

text \<open>An environment in which every TLS call succeeds, but the first handshake call has to wait for
  bytes of the peer.\<close>

definition reply_of :: "int \<Rightarrow> reply" where
  "reply_of n = \<lparr>r_ret = n, r_errno = EOTHER 0, r_out = 0, r_bytes = [], r_addrs = [], r_ready = []\<rparr>"

fun is_handshake_call :: "call \<Rightarrow> bool" where
  "is_handshake_call (Call_ssl (Ssl_do_handshake h)) = True"
| "is_handshake_call _ = False"

definition good_tls_os :: os where
  "good_tls_os tr c = (case c of
     Call_ssl (Ssl_get_verify_result h) \<Rightarrow> reply_of X509_V_OK
   | Call_ssl (Ssl_do_handshake h) \<Rightarrow>
       reply_of (if \<exists>e \<in> List.set tr. is_handshake_call (fst e) then 1 else - 1)
   | Call_ssl (Ssl_get_error h n) \<Rightarrow> reply_of SSL_ERROR_WANT_READ
   | _ \<Rightarrow> reply_of 1)"

definition demo_config :: sockify_proxy_config where
  "demo_config = the (sockify_proxy_config_init (Some undefined))\<lparr>target_tls_enabled := True\<rparr>"

definition demo_ctx :: sockify_tls_context where
  "demo_ctx = \<lparr>tc_self = 1, tc_ctx = 1, tc_server_side = False, tc_verify_peer = True\<rparr>"

definition demo_conn :: sockify_tls_connection where
  "demo_conn = \<lparr>tn_self = 1, tn_ssl = 1, tn_want_read = False, tn_want_write = False,
     tn_server_side = False, tn_verify_peer = True\<rparr>"

theorem tls_handshake_verified_witness:
  "\<exists>conn1 tr1 r. openssl_connection_handshake good_tls_os (Some demo_conn) [] = (SOCKIFY_ERR_AGAIN, Some conn1, tr1) \<and>
    tn_want_read conn1 \<and>
    snd (snd (openssl_connection_handshake good_tls_os (Some conn1) tr1)) =
      (Call_ssl (Ssl_get_verify_result 1), r) # (Call_ssl (Ssl_do_handshake 1), reply_of 1) # tr1 \<and>
    r_ret r = X509_V_OK"
proof -
  have config: "\<not> target_tls_insecure demo_config" "target_tls_ca_file demo_config = []"
    by (simp_all add: demo_config_def sockify_proxy_config_init_def)
  obtain tr1 where ctx: "openssl_context_create good_tls_os (Some demo_config) False [] =
      (SOCKIFY_OK, Some demo_ctx, tr1)"
    using config by (simp add: openssl_context_create_def openssl_context_setup_def
        context_load_verify_paths_def ssl_def sys_eq good_tls_os_def reply_of_def demo_ctx_def Let_def)
  obtain tr3 where conn: "openssl_connection_create good_tls_os (Some demo_ctx) 5 False (Some (cstr ''host'')) tr1 =
      (SOCKIFY_OK, Some demo_conn, tr3)"
    by (simp add: openssl_connection_create_def openssl_connection_setup_def
        set_connection_hostname_def cstr_def ssl_def sys_eq good_tls_os_def reply_of_def demo_ctx_def
        demo_conn_def)
  let ?conn1 = "demo_conn\<lparr>tn_want_read := True\<rparr>"
  let ?h = "Call_ssl (Ssl_do_handshake 1)" and ?e = "Call_ssl (Ssl_get_error 1 (- 1))"
  let ?tr1 = "[(?e, reply_of SSL_ERROR_WANT_READ), (?h, reply_of (- 1))]"
  have again: "openssl_connection_handshake good_tls_os (Some demo_conn) [] = (SOCKIFY_ERR_AGAIN, Some ?conn1, ?tr1)"
    by (simp add: openssl_connection_handshake_def map_ssl_error_def ssl_def sys_eq good_tls_os_def reply_of_def
        demo_conn_def connection_clear_wants_def Let_def)
  then have used: "tls_used good_tls_os demo_conn ?conn1" by (rule tls_used.attempted [OF tls_used.created])
  have "\<exists>conn' tr'. openssl_connection_handshake good_tls_os (Some ?conn1) ?tr1 = (SOCKIFY_OK, conn', tr')"
    by (simp add: openssl_connection_handshake_def ssl_def sys_eq good_tls_os_def reply_of_def
        demo_conn_def connection_clear_wants_def Let_def)
  then obtain conn' tr' where ok: "openssl_connection_handshake good_tls_os (Some ?conn1) ?tr1 = (SOCKIFY_OK, conn', tr')"
    by blast
  have "tn_ssl demo_conn = 1" "good_tls_os ?tr1 ?h = reply_of 1" "tn_want_read ?conn1"
    by (simp_all add: demo_conn_def good_tls_os_def)
  then show ?thesis
    using tls_handshake_verified [OF ctx config(1) conn used ok] again ok by auto
qed

end
