(* ===== verification/Ring_Buffer.thy ===== *)
theory Ring_Buffer
  imports Prelude
begin

text \<open>
  The fixed-storage ring buffer of \<^verbatim>\<open>src/core/buffer.c\<close>, as the record \<open>sockify_buffer\<close> of
  \<^verbatim>\<open>include/sockify/buffer.h\<close> and one definition per function. The locale \<open>byte_queue\<close> is
  the contract the session relies on (a bounded FIFO of bytes); its interpretation \<open>rb\<close> on
  the ring buffer is the refinement proof: \<open>buffer_contents\<close> maps a ring to the list of
  bytes it holds, in order.
\<close>

section \<open>State and operations\<close>

record sockify_buffer =
  b_data :: "byte list"
  b_capacity :: size_t
  b_read_pos :: size_t
  b_write_pos :: size_t
  b_length :: size_t
  b_high_water :: size_t
  b_low_water :: size_t

definition sockify_buffer_init ::
  "sockify_buffer ptr \<Rightarrow> byte list ptr \<Rightarrow> size_t \<Rightarrow> size_t \<Rightarrow> size_t \<Rightarrow> sockify_rc \<times> sockify_buffer ptr" where
  "sockify_buffer_init buf storage capacity high_water low_water =
     (case (buf, storage) of
        (Some b, Some st) \<Rightarrow>
          if capacity = 0 then (SOCKIFY_ERR_INVALID, buf)
          else if high_water > capacity \<or> low_water > high_water then (SOCKIFY_ERR_INVALID, buf)
          else (SOCKIFY_OK,
                Some (b\<lparr>b_data := st, b_capacity := capacity, b_read_pos := 0, b_write_pos := 0,
                        b_length := 0, b_high_water := high_water, b_low_water := low_water\<rparr>))
      | _ \<Rightarrow> (SOCKIFY_ERR_INVALID, buf))"

definition sockify_buffer_clear :: "sockify_buffer ptr \<Rightarrow> sockify_buffer ptr" where
  "sockify_buffer_clear buf =
     (case buf of
        None \<Rightarrow> None
      | Some b \<Rightarrow> Some (b\<lparr>b_read_pos := 0, b_write_pos := 0, b_length := 0\<rparr>))"

definition sockify_buffer_readable :: "sockify_buffer \<Rightarrow> size_t" where
  "sockify_buffer_readable b = b_length b"

definition sockify_buffer_writable :: "sockify_buffer \<Rightarrow> size_t" where
  "sockify_buffer_writable b = sz_sub (b_capacity b) (b_length b)"

definition sockify_buffer_is_high :: "sockify_buffer \<Rightarrow> bool" where
  "sockify_buffer_is_high b = (b_length b \<ge> b_high_water b)"

definition sockify_buffer_is_low :: "sockify_buffer \<Rightarrow> bool" where
  "sockify_buffer_is_low b = (b_length b \<le> b_low_water b)"

text \<open>One step of a position around the ring, as both copy loops do it.\<close>

definition ring_next :: "size_t \<Rightarrow> size_t \<Rightarrow> size_t" where
  "ring_next capacity pos = (if pos + 1 = capacity then 0 else pos + 1)"

function buffer_write_loop :: "byte list \<Rightarrow> size_t \<Rightarrow> size_t \<Rightarrow> sockify_buffer \<Rightarrow> sockify_buffer" where
  "buffer_write_loop data to_write i b =
     (if i < to_write then
        buffer_write_loop data to_write (i + 1)
          (b\<lparr>b_data := (b_data b)[b_write_pos b := data ! i],
             b_write_pos := ring_next (b_capacity b) (b_write_pos b)\<rparr>)
      else b)"
  by pat_completeness auto
termination
  by (relation "measure (\<lambda>(d, n, i, b). n - i)") auto

definition sockify_buffer_write ::
  "sockify_buffer ptr \<Rightarrow> byte list ptr \<Rightarrow> size_t \<Rightarrow> sockify_rc \<times> size_t \<times> sockify_buffer ptr" where
  "sockify_buffer_write buf data data_len =
     (case buf of
        None \<Rightarrow> (SOCKIFY_ERR_INVALID, 0, None)
      | Some b \<Rightarrow>
          if data = None \<and> data_len \<noteq> 0 then (SOCKIFY_ERR_INVALID, 0, Some b)
          else
            let bytes = (case data of None \<Rightarrow> [] | Some d \<Rightarrow> d);
                writable = sz_sub (b_capacity b) (b_length b);
                to_write = (if data_len < writable then data_len else writable);
                b1 = buffer_write_loop bytes to_write 0 b;
                b2 = b1\<lparr>b_length := sz_add (b_length b1) to_write\<rparr>
            in (if to_write < data_len then SOCKIFY_ERR_OVERFLOW else SOCKIFY_OK, to_write, Some b2))"

function buffer_peek_loop ::
  "sockify_buffer \<Rightarrow> size_t \<Rightarrow> size_t \<Rightarrow> size_t \<Rightarrow> byte list \<Rightarrow> byte list" where
  "buffer_peek_loop b to_read i pos out =
     (if i < to_read then
        buffer_peek_loop b to_read (i + 1) (ring_next (b_capacity b) pos) (out @ [b_data b ! pos])
      else out)"
  by pat_completeness auto
termination
  by (relation "measure (\<lambda>(b, n, i, pos, out). n - i)") auto

text \<open>
  \<open>out_null\<close> says that the output pointer is null. The second component is
  \<^verbatim>\<open>*read_count\<close>, the third the bytes stored from \<^verbatim>\<open>out[0]\<close> on.
\<close>

definition sockify_buffer_peek ::
  "sockify_buffer ptr \<Rightarrow> bool \<Rightarrow> size_t \<Rightarrow> sockify_rc \<times> size_t \<times> byte list" where
  "sockify_buffer_peek buf out_null out_len =
     (case buf of
        None \<Rightarrow> (SOCKIFY_ERR_INVALID, 0, [])
      | Some b \<Rightarrow>
          if out_null \<and> out_len \<noteq> 0 then (SOCKIFY_ERR_INVALID, 0, [])
          else
            let to_read = (if out_len < b_length b then out_len else b_length b)
            in (SOCKIFY_OK, to_read, buffer_peek_loop b to_read 0 (b_read_pos b) []))"

text \<open>
  The wrap loop of \<^verbatim>\<open>sockify_buffer_consume\<close>. A buffer of capacity 0 would make the C loop
  run forever; \<open>sockify_buffer_init\<close> refuses that capacity, so the loop is modelled for
  positive capacities.
\<close>

function buffer_wrap_pos :: "size_t \<Rightarrow> size_t \<Rightarrow> size_t" where
  "buffer_wrap_pos capacity pos =
     (if 0 < capacity \<and> pos \<ge> capacity then buffer_wrap_pos capacity (pos - capacity) else pos)"
  by pat_completeness auto
termination
  by (relation "measure (\<lambda>(c, p). p)") auto

definition sockify_buffer_consume ::
  "sockify_buffer ptr \<Rightarrow> size_t \<Rightarrow> sockify_rc \<times> size_t \<times> sockify_buffer ptr" where
  "sockify_buffer_consume buf count =
     (case buf of
        None \<Rightarrow> (SOCKIFY_ERR_INVALID, 0, None)
      | Some b \<Rightarrow>
          let to_consume = (if count < b_length b then count else b_length b);
              b1 = b\<lparr>b_read_pos := buffer_wrap_pos (b_capacity b) (sz_add (b_read_pos b) to_consume)\<rparr>;
              b2 = b1\<lparr>b_length := sz_sub (b_length b1) to_consume\<rparr>
          in (SOCKIFY_OK, to_consume, Some b2))"

definition sockify_buffer_read ::
  "sockify_buffer ptr \<Rightarrow> bool \<Rightarrow> size_t \<Rightarrow> sockify_rc \<times> size_t \<times> byte list \<times> sockify_buffer ptr" where
  "sockify_buffer_read buf out_null out_len =
     (case sockify_buffer_peek buf out_null out_len of
        (rc, count, out) \<Rightarrow>
          if rc \<noteq> SOCKIFY_OK then (rc, 0, [], buf)
          else
            (case sockify_buffer_consume buf count of
               (_, _, buf') \<Rightarrow> (SOCKIFY_OK, count, out, buf')))"

section \<open>Well-formed rings and the list they hold\<close>

definition buffer_inv :: "sockify_buffer \<Rightarrow> bool" where
  "buffer_inv b \<longleftrightarrow>
     0 < b_capacity b \<and> b_capacity b \<le> length (b_data b) \<and> 2 * b_capacity b \<le> size_lim \<and>
     b_length b \<le> b_capacity b \<and> b_read_pos b < b_capacity b \<and>
     b_write_pos b = (b_read_pos b + b_length b) mod b_capacity b \<and>
     b_low_water b \<le> b_high_water b \<and> b_high_water b \<le> b_capacity b"

definition buffer_contents :: "sockify_buffer \<Rightarrow> byte list" where
  "buffer_contents b =
     map (\<lambda>i. b_data b ! ((b_read_pos b + i) mod b_capacity b)) [0..<b_length b]"

declare buffer_write_loop.simps [simp del] buffer_peek_loop.simps [simp del]
  buffer_wrap_pos.simps [simp del]


section \<open>The contract of a bounded byte queue\<close>

text \<open>
  What a client of the buffer relies on. The operations have the shape of the C functions;
  \<open>contents\<close> is the abstract value, \<open>cap\<close> the bound.
\<close>

locale byte_queue =
  fixes inv :: "'q \<Rightarrow> bool"
    and contents :: "'q \<Rightarrow> byte list"
    and cap :: "'q \<Rightarrow> nat"
    and push :: "'q ptr \<Rightarrow> byte list ptr \<Rightarrow> size_t \<Rightarrow> sockify_rc \<times> size_t \<times> 'q ptr"
    and peek :: "'q ptr \<Rightarrow> bool \<Rightarrow> size_t \<Rightarrow> sockify_rc \<times> size_t \<times> byte list"
    and consume :: "'q ptr \<Rightarrow> size_t \<Rightarrow> sockify_rc \<times> size_t \<times> 'q ptr"
  assumes bounded: "inv q \<Longrightarrow> length (contents q) \<le> cap q"
    and push_law: "inv q \<Longrightarrow> n \<le> length d \<Longrightarrow>
      \<exists>q'. push (Some q) (Some d) n =
             (if cap q - length (contents q) < n then SOCKIFY_ERR_OVERFLOW else SOCKIFY_OK,
              min n (cap q - length (contents q)), Some q') \<and>
           inv q' \<and> cap q' = cap q \<and>
           contents q' = contents q @ take (min n (cap q - length (contents q))) d"
    and peek_law: "inv q \<Longrightarrow>
      peek (Some q) False n = (SOCKIFY_OK, min n (length (contents q)), take n (contents q))"
    and consume_law: "inv q \<Longrightarrow>
      \<exists>q'. consume (Some q) n = (SOCKIFY_OK, min n (length (contents q)), Some q') \<and>
           inv q' \<and> cap q' = cap q \<and> contents q' = drop n (contents q)"
begin

text \<open>A write that fits is accepted whole.\<close>

lemma push_fits:
  assumes "inv q" and "length (contents q) + length d \<le> cap q"
  obtains q' where "push (Some q) (Some d) (length d) = (SOCKIFY_OK, length d, Some q')"
    and "inv q'" and "cap q' = cap q" and "contents q' = contents q @ d"
proof -
  have "min (length d) (cap q - length (contents q)) = length d"
    and "\<not> cap q - length (contents q) < length d"
    using assms(2) by simp_all
  then show ?thesis
    using push_law [OF assms(1), of "length d" d] that by auto
qed

text \<open>A write that does not fit stores a prefix and reports the overflow.\<close>

lemma push_overflows:
  assumes "inv q" and "cap q < length (contents q) + length d"
  shows "fst (push (Some q) (Some d) (length d)) = SOCKIFY_ERR_OVERFLOW"
proof -
  have "cap q - length (contents q) < length d" using assms bounded [of q] by simp
  then show ?thesis using push_law [OF assms(1), of "length d" d] by auto
qed

text \<open>Reading what was peeked and dropping it loses nothing.\<close>

lemma peek_consume:
  assumes "inv q" and "peek (Some q) False n = (rc, k, out)" and "m \<le> k"
  obtains q' where "consume (Some q) m = (SOCKIFY_OK, m, Some q')" and "inv q'"
    and "cap q' = cap q" and "contents q = take m out @ contents q'"
proof -
  have k: "k = min n (length (contents q))" and out: "out = take n (contents q)"
    using assms(2) peek_law [OF assms(1), of n] by simp_all
  have "take m out = take m (contents q)" and "min m (length (contents q)) = m"
    using k out assms(3) by (simp_all add: min_absorb1)
  then show ?thesis
    using consume_law [OF assms(1), of m] that by auto
qed

end

section \<open>The ring is such a queue\<close>

lemma ring_next_mod: "pos < capacity \<Longrightarrow> ring_next capacity pos = (pos + 1) mod capacity"
  by (auto simp: ring_next_def)

lemma ring_distinct:
  assumes "i < l" and "l < c"
  shows "(r + i) mod c \<noteq> (r + l) mod (c :: nat)"
proof
  assume "(r + i) mod c = (r + l) mod c"
  then have "c dvd (r + l) - (r + i)"
    using assms(1) by (metis add_le_cancel_left less_imp_le_nat mod_eq_dvd_iff_nat)
  then show False using assms by (auto dest: dvd_imp_le)
qed

text \<open>The effect of one iteration of the write loop together with its share of the length.\<close>

definition buffer_put :: "sockify_buffer \<Rightarrow> byte \<Rightarrow> sockify_buffer" where
  "buffer_put b v =
     b\<lparr>b_data := (b_data b)[b_write_pos b := v],
       b_write_pos := ring_next (b_capacity b) (b_write_pos b), b_length := b_length b + 1\<rparr>"

lemma buffer_write_loop_put:
  "(buffer_write_loop d n i b)\<lparr>b_length := l + (n - i)\<rparr>
     = foldl buffer_put (b\<lparr>b_length := l\<rparr>) (map ((!) d) [i..<n])"
proof (induction d n i b arbitrary: l rule: buffer_write_loop.induct)
  case (1 d n i b)
  show ?case
  proof (cases "i < n")
    case True
    let ?b = "b\<lparr>b_data := (b_data b)[b_write_pos b := d ! i],
                b_write_pos := ring_next (b_capacity b) (b_write_pos b)\<rparr>"
    have "l + (n - i) = (l + 1) + (n - (i + 1))" using True by simp
    then have "(buffer_write_loop d n i b)\<lparr>b_length := l + (n - i)\<rparr>
        = (buffer_write_loop d n (i + 1) ?b)\<lparr>b_length := (l + 1) + (n - (i + 1))\<rparr>"
      using True by (simp add: buffer_write_loop.simps [of d n i])
    also have "\<dots> = foldl buffer_put (?b\<lparr>b_length := l + 1\<rparr>) (map ((!) d) [i + 1..<n])"
      by (rule "1.IH" [OF True])
    also have "?b\<lparr>b_length := l + 1\<rparr> = buffer_put (b\<lparr>b_length := l\<rparr>) (d ! i)"
      by (simp add: buffer_put_def)
    finally show ?thesis using True by (simp add: upt_conv_Cons)
  qed (simp add: buffer_write_loop.simps [of d n i])
qed

lemma buffer_write_loop_fields: "b_length (buffer_write_loop d n i b) = b_length b"
proof (induction d n i b rule: buffer_write_loop.induct)
  case (1 d n i b)
  then show ?case by (simp add: buffer_write_loop.simps [of d n i])
qed

lemma buffer_put_inv:
  assumes "buffer_inv b" and "b_length b < b_capacity b"
  shows "buffer_inv (buffer_put b v)"
  using assms by (auto simp: buffer_inv_def buffer_put_def ring_next_mod mod_simps)

lemma buffer_put_contents:
  assumes "buffer_inv b" and "b_length b < b_capacity b"
  shows "buffer_contents (buffer_put b v) = buffer_contents b @ [v]"
proof -
  let ?w = "(b_read_pos b + b_length b) mod b_capacity b"
  have w: "b_write_pos b = ?w" and "?w < length (b_data b)"
    using assms by (auto simp: buffer_inv_def intro: less_le_trans [OF mod_less_divisor])
  moreover have "(b_data b)[?w := v] ! ((b_read_pos b + i) mod b_capacity b)
      = b_data b ! ((b_read_pos b + i) mod b_capacity b)" if "i < b_length b" for i
    using ring_distinct [OF that assms(2)] by (intro nth_list_update_neq) (rule not_sym)
  ultimately show ?thesis
    by (simp add: buffer_put_def buffer_contents_def)
qed

lemma buffer_put_fields [simp]:
  "b_capacity (buffer_put b v) = b_capacity b"
  "b_length (buffer_put b v) = b_length b + 1"
  "b_high_water (buffer_put b v) = b_high_water b"
  "b_low_water (buffer_put b v) = b_low_water b"
  by (simp_all add: buffer_put_def)

lemma buffer_puts:
  assumes "buffer_inv b" and "b_length b + length vs \<le> b_capacity b"
  shows "buffer_inv (foldl buffer_put b vs) \<and>
     buffer_contents (foldl buffer_put b vs) = buffer_contents b @ vs \<and>
     b_capacity (foldl buffer_put b vs) = b_capacity b \<and>
     b_high_water (foldl buffer_put b vs) = b_high_water b \<and>
     b_low_water (foldl buffer_put b vs) = b_low_water b"
  using assms
proof (induction vs arbitrary: b)
  case (Cons v vs)
  then show ?case
    using buffer_put_inv [of b v] buffer_put_contents [of b v] by simp
qed simp

lemma length_buffer_contents [simp]: "length (buffer_contents b) = b_length b"
  by (simp add: buffer_contents_def)

lemma buffer_peek_loop_eq:
  assumes "pos < b_capacity b"
  shows "buffer_peek_loop b n i pos out
     = out @ map (\<lambda>k. b_data b ! ((pos + k) mod b_capacity b)) [0..<n - i]"
  using assms
proof (induction b n i pos out rule: buffer_peek_loop.induct)
  case (1 b n i pos out)
  show ?case
  proof (cases "i < n")
    case True
    have next_less: "ring_next (b_capacity b) pos < b_capacity b"
      using "1.prems" by (simp add: ring_next_mod)
    have "[0..<n - i] = 0 # map Suc [0..<n - (i + 1)]"
      using True by (simp add: map_Suc_upt upt_conv_Cons Suc_diff_Suc del: upt_Suc)
    then show ?thesis
      using "1.IH" [OF True next_less] "1.prems" True
      by (simp add: buffer_peek_loop.simps [of b n i] ring_next_mod mod_simps)
  qed (simp add: buffer_peek_loop.simps [of b n i])
qed

lemma buffer_wrap_pos_mod: "0 < c \<Longrightarrow> buffer_wrap_pos c p = p mod c"
proof (induction c p rule: buffer_wrap_pos.induct)
  case (1 c p)
  then show ?case
    by (simp add: buffer_wrap_pos.simps [of c p] le_mod_geq)
qed

section \<open>The operations on well-formed rings\<close>

lemma buffer_write_eq:
  assumes "buffer_inv b" and "n \<le> length d"
  defines "w \<equiv> min n (b_capacity b - b_length b)"
  shows "sockify_buffer_write (Some b) (Some d) n =
     (if b_capacity b - b_length b < n then SOCKIFY_ERR_OVERFLOW else SOCKIFY_OK, w,
      Some (foldl buffer_put b (take w d)))"
proof -
  have sz: "sz_sub (b_capacity b) (b_length b) = b_capacity b - b_length b"
    "sz_add (b_length b) w = b_length b + w"
    using assms by (auto simp: buffer_inv_def size_simps)
  have "map ((!) d) [0..<w] = take w d"
    using assms by (intro nth_equalityI) auto
  then have "(buffer_write_loop d w 0 b)\<lparr>b_length := b_length b + w\<rparr> = foldl buffer_put b (take w d)"
    using buffer_write_loop_put [where d = d and n = w and i = 0 and b = b and l = "b_length b"]
    by simp
  moreover have "b_length (buffer_write_loop d w 0 b) = b_length b"
    by (rule buffer_write_loop_fields)
  moreover have "(if n < b_capacity b - b_length b then n else b_capacity b - b_length b) = w"
    by (auto simp: w_def)
  moreover have "w < n \<longleftrightarrow> b_capacity b - b_length b < n" by (auto simp: w_def)
  ultimately show ?thesis using sz by (simp add: sockify_buffer_write_def Let_def)
qed


lemma buffer_write_run:
  assumes "buffer_inv b" and "n \<le> length d"
  defines "w \<equiv> min n (b_capacity b - b_length b)"
  obtains b' where "sockify_buffer_write (Some b) (Some d) n =
      (if b_capacity b - b_length b < n then SOCKIFY_ERR_OVERFLOW else SOCKIFY_OK, w, Some b')"
    and "buffer_inv b'" and "buffer_contents b' = buffer_contents b @ take w d"
    and "b_capacity b' = b_capacity b" and "b_high_water b' = b_high_water b"
    and "b_low_water b' = b_low_water b"
proof -
  have "b_length b + length (take w d) \<le> b_capacity b"
    using assms by (auto simp: buffer_inv_def)
  then show ?thesis
    using buffer_write_eq [OF assms(1,2)] buffer_puts [OF assms(1)] that unfolding w_def by blast
qed

lemma buffer_peek_eq:
  assumes "buffer_inv b"
  shows "sockify_buffer_peek (Some b) False n =
     (SOCKIFY_OK, min n (b_length b), take n (buffer_contents b))"
proof -
  have pos: "b_read_pos b < b_capacity b" using assms by (simp add: buffer_inv_def)
  show ?thesis
    by (auto simp: sockify_buffer_peek_def Let_def buffer_peek_loop_eq [OF pos]
        buffer_contents_def take_map min_def)
qed

lemma buffer_consume_run:
  assumes "buffer_inv b"
  obtains b' where "sockify_buffer_consume (Some b) n = (SOCKIFY_OK, min n (b_length b), Some b')"
    and "buffer_inv b'" and "buffer_contents b' = drop n (buffer_contents b)"
    and "b_capacity b' = b_capacity b" and "b_high_water b' = b_high_water b"
    and "b_low_water b' = b_low_water b"
proof -
  let ?k = "min n (b_length b)"
  let ?b = "b\<lparr>b_read_pos := (b_read_pos b + ?k) mod b_capacity b, b_length := b_length b - ?k\<rparr>"
  have "sz_add (b_read_pos b) ?k = b_read_pos b + ?k"
    using assms by (auto simp: buffer_inv_def intro!: sz_add_id)
  moreover have "(if n < b_length b then n else b_length b) = ?k" by auto
  ultimately have "sockify_buffer_consume (Some b) n = (SOCKIFY_OK, ?k, Some ?b)"
    using assms by (simp add: sockify_buffer_consume_def buffer_wrap_pos_mod buffer_inv_def
        sz_sub_id Let_def)
  moreover have "((b_read_pos b + ?k) mod b_capacity b + (b_length b - ?k)) mod b_capacity b
      = (b_read_pos b + b_length b) mod b_capacity b"
    unfolding mod_add_left_eq by simp
  then have "buffer_inv ?b"
    using assms by (auto simp: buffer_inv_def)
  moreover have "buffer_contents ?b = drop n (buffer_contents b)"
    by (rule nth_equalityI) (auto simp: buffer_contents_def mod_simps add.assoc min_def)
  ultimately show ?thesis using that by fastforce
qed

interpretation rb: byte_queue buffer_inv buffer_contents b_capacity
  sockify_buffer_write sockify_buffer_peek sockify_buffer_consume
proof unfold_locales
  fix b :: sockify_buffer and n :: nat and d :: "byte list"
  assume inv: "buffer_inv b"
  show "length (buffer_contents b) \<le> b_capacity b"
    using inv by (simp add: buffer_inv_def)
  show "sockify_buffer_peek (Some b) False n =
      (SOCKIFY_OK, min n (length (buffer_contents b)), take n (buffer_contents b))"
    using buffer_peek_eq [OF inv] by simp
  show "\<exists>b'. sockify_buffer_consume (Some b) n =
      (SOCKIFY_OK, min n (length (buffer_contents b)), Some b') \<and>
      buffer_inv b' \<and> b_capacity b' = b_capacity b \<and> buffer_contents b' = drop n (buffer_contents b)"
    using buffer_consume_run [OF inv, of n] by (metis length_buffer_contents)
  assume "n \<le> length d"
  then show "\<exists>b'. sockify_buffer_write (Some b) (Some d) n =
      (if b_capacity b - length (buffer_contents b) < n then SOCKIFY_ERR_OVERFLOW else SOCKIFY_OK,
       min n (b_capacity b - length (buffer_contents b)), Some b') \<and>
      buffer_inv b' \<and> b_capacity b' = b_capacity b \<and>
      buffer_contents b' =
        buffer_contents b @ take (min n (b_capacity b - length (buffer_contents b))) d"
    using buffer_write_run [OF inv, of n d] by (metis length_buffer_contents)
qed


section \<open>Properties of the buffer\<close>

text \<open>
  Property C13. Initialisation succeeds exactly on a positive capacity with
  \<open>low_water \<le> high_water \<le> capacity\<close>; it then yields a well-formed empty ring, and on a
  refused configuration the buffer is left as it was.
\<close>

theorem buffer_init_spec:
  assumes "capacity \<le> length st" and "2 * capacity \<le> size_lim"
  shows "if 0 < capacity \<and> low \<le> high \<and> high \<le> capacity
     then \<exists>b'. sockify_buffer_init (Some b) (Some st) capacity high low = (SOCKIFY_OK, Some b') \<and>
            buffer_inv b' \<and> buffer_contents b' = [] \<and> b_capacity b' = capacity \<and>
            b_high_water b' = high \<and> b_low_water b' = low
     else sockify_buffer_init (Some b) (Some st) capacity high low = (SOCKIFY_ERR_INVALID, Some b)"
  using assms by (auto simp: sockify_buffer_init_def buffer_inv_def buffer_contents_def)

theorem buffer_init_spec_witness:
  "\<exists>b'. sockify_buffer_init (Some \<lparr>b_data = [], b_capacity = 0, b_read_pos = 9, b_write_pos = 9,
          b_length = 9, b_high_water = 0, b_low_water = 0\<rparr>) (Some [0, 0, 0, 0, 0]) 5 4 2
        = (SOCKIFY_OK, Some b') \<and> buffer_inv b' \<and> buffer_contents b' = []"
  using buffer_init_spec [of 5 "[0, 0, 0, 0, 0]" 2 4 "\<lparr>b_data = [], b_capacity = 0, b_read_pos = 9,
      b_write_pos = 9, b_length = 9, b_high_water = 0, b_low_water = 0\<rparr>"]
  by (auto simp: size_lim_def)

text \<open>
  A client's run over one buffer: writes, reads, and the peek-then-consume pair of
  \<^verbatim>\<open>session_write_target\<close>, in which only \<open>k\<close> of the \<open>n\<close> peeked bytes are dropped. The run
  collects the bytes the buffer accepted and the bytes it handed out.
\<close>

datatype buffer_op = Op_write "byte list" | Op_read nat | Op_peek_consume nat nat | Op_clear

fun buffer_step :: "sockify_buffer ptr \<Rightarrow> buffer_op \<Rightarrow> byte list \<times> byte list \<times> sockify_buffer ptr" where
  "buffer_step b (Op_write d) =
     (case sockify_buffer_write b (Some d) (length d) of (rc, w, b') \<Rightarrow> (take w d, [], b'))"
| "buffer_step b (Op_read n) =
     (case sockify_buffer_read b False n of (rc, k, out, b') \<Rightarrow> ([], out, b'))"
| "buffer_step b (Op_peek_consume n k) =
     (case sockify_buffer_peek b False n of (rc, m, out) \<Rightarrow>
        (case sockify_buffer_consume b (min k m) of (rc', m', b') \<Rightarrow> ([], take m' out, b')))"
| "buffer_step b Op_clear =
     ([], (case b of None \<Rightarrow> [] | Some q \<Rightarrow> buffer_contents q), sockify_buffer_clear b)"

fun buffer_run :: "sockify_buffer ptr \<Rightarrow> buffer_op list \<Rightarrow> byte list \<times> byte list \<times> sockify_buffer ptr" where
  "buffer_run b [] = ([], [], b)"
| "buffer_run b (x # xs) =
     (case buffer_step b x of (ins, outs, b1) \<Rightarrow>
        (case buffer_run b1 xs of (ins', outs', b2) \<Rightarrow> (ins @ ins', outs @ outs', b2)))"

lemma buffer_step_fifo:
  assumes "buffer_inv b"
  shows "\<exists>ins outs b'. buffer_step (Some b) x = (ins, outs, Some b') \<and> buffer_inv b' \<and>
     b_capacity b' = b_capacity b \<and> buffer_contents b @ ins = outs @ buffer_contents b'"
proof (cases x)
  case (Op_write d)
  then show ?thesis using rb.push_law [OF assms, of "length d" d] by auto
next
  case (Op_read n)
  moreover have "take n (buffer_contents b) @ drop (min n (b_length b)) (buffer_contents b)
      = buffer_contents b"
    by (simp add: min_def)
  ultimately show ?thesis
    using rb.peek_law [OF assms, of n] rb.consume_law [OF assms, of "min n (b_length b)"]
    by (auto simp: sockify_buffer_read_def)
next
  case (Op_peek_consume n k)
  obtain rc m out where p: "sockify_buffer_peek (Some b) False n = (rc, m, out)"
    by (metis prod_cases3)
  obtain b' where "sockify_buffer_consume (Some b) (min k m) = (SOCKIFY_OK, min k m, Some b')"
    "buffer_inv b'" "b_capacity b' = b_capacity b" "buffer_contents b = take (min k m) out @ buffer_contents b'"
    using rb.peek_consume [OF assms p, of "min k m"] by auto
  with Op_peek_consume p show ?thesis by simp
next
  case Op_clear
  then show ?thesis
    using assms by (auto simp: sockify_buffer_clear_def buffer_inv_def buffer_contents_def)
qed

text \<open>
  Property C1. The ring buffer is a lossless FIFO over every sequence of operations: the bytes
  it held followed by the bytes it accepted are the bytes it handed out followed by the bytes
  it still holds, in order, and every position stays inside the storage.
\<close>

theorem buffer_run_fifo:
  assumes "buffer_inv b"
  shows "\<exists>ins outs b'. buffer_run (Some b) xs = (ins, outs, Some b') \<and> buffer_inv b' \<and>
     b_capacity b' = b_capacity b \<and> buffer_contents b @ ins = outs @ buffer_contents b'"
  using assms
proof (induction xs arbitrary: b)
  case (Cons x xs)
  obtain ins outs b1 where step: "buffer_step (Some b) x = (ins, outs, Some b1)" "buffer_inv b1"
    "b_capacity b1 = b_capacity b" "buffer_contents b @ ins = outs @ buffer_contents b1"
    using buffer_step_fifo [OF Cons.prems] by blast
  obtain ins' outs' b2 where "buffer_run (Some b1) xs = (ins', outs', Some b2)" "buffer_inv b2"
    "b_capacity b2 = b_capacity b1" "buffer_contents b1 @ ins' = outs' @ buffer_contents b2"
    using Cons.IH [OF step(2)] by blast
  moreover from this step have "buffer_contents b @ ins @ ins' = (outs @ outs') @ buffer_contents b2"
    by (metis append_assoc)
  ultimately show ?case using step by auto
qed simp

definition demo_ring :: sockify_buffer where
  "demo_ring = \<lparr>b_data = [0, 0, 0, 0, 0], b_capacity = 5, b_read_pos = 0, b_write_pos = 0,
     b_length = 0, b_high_water = 4, b_low_water = 1\<rparr>"

theorem buffer_run_fifo_witness:
  "buffer_inv demo_ring \<and>
   (\<exists>ins outs b'. buffer_run (Some demo_ring) [Op_write [1, 2, 3, 4], Op_read 3, Op_write [5, 6, 7]]
      = (ins, outs, Some b') \<and> buffer_inv b' \<and> ins = outs @ buffer_contents b')"
proof -
  have inv: "buffer_inv demo_ring" by (simp add: demo_ring_def buffer_inv_def size_lim_def)
  have "buffer_contents demo_ring = []" by (simp add: demo_ring_def buffer_contents_def)
  with inv show ?thesis
    using buffer_run_fifo [OF inv, of "[Op_write [1, 2, 3, 4], Op_read 3, Op_write [5, 6, 7]]"]
    by fastforce
qed

text \<open>
  Property C12. A write stores the longest prefix that fits, in order after the bytes already
  held, reports its length, and returns \<open>SOCKIFY_ERR_OVERFLOW\<close> exactly when the data did not
  fit; capacity and water marks do not change.
\<close>

theorem buffer_write_spec:
  assumes "buffer_inv b" and "n \<le> length d"
  shows "\<exists>b'. sockify_buffer_write (Some b) (Some d) n =
       (if sockify_buffer_writable b < n then SOCKIFY_ERR_OVERFLOW else SOCKIFY_OK,
        min n (sockify_buffer_writable b), Some b') \<and>
     buffer_inv b' \<and>
     buffer_contents b' = buffer_contents b @ take (min n (sockify_buffer_writable b)) d \<and>
     sockify_buffer_readable b' = sockify_buffer_readable b + min n (sockify_buffer_writable b) \<and>
     b_capacity b' = b_capacity b \<and> b_high_water b' = b_high_water b \<and> b_low_water b' = b_low_water b"
proof -
  have "sockify_buffer_writable b = b_capacity b - b_length b"
    using assms(1) by (simp add: sockify_buffer_writable_def buffer_inv_def sz_sub_id)
  moreover obtain b' where b': "sockify_buffer_write (Some b) (Some d) n =
      (if b_capacity b - b_length b < n then SOCKIFY_ERR_OVERFLOW else SOCKIFY_OK,
       min n (b_capacity b - b_length b), Some b')" "buffer_inv b'"
    "buffer_contents b' = buffer_contents b @ take (min n (b_capacity b - b_length b)) d"
    "b_capacity b' = b_capacity b" "b_high_water b' = b_high_water b" "b_low_water b' = b_low_water b"
    using assms by (rule buffer_write_run)
  moreover have "b_length b' = b_length b + min n (b_capacity b - b_length b)"
    using arg_cong [OF b'(3), of length] assms(2) by simp
  ultimately show ?thesis by (auto simp: sockify_buffer_readable_def)
qed

theorem buffer_write_spec_witness:
  "\<exists>b'. sockify_buffer_write (Some demo_ring) (Some [1, 2, 3, 4, 5, 6, 7]) 7 =
       (SOCKIFY_ERR_OVERFLOW, 5, Some b') \<and> buffer_contents b' = [1, 2, 3, 4, 5]"
proof -
  have inv: "buffer_inv demo_ring" by (simp add: demo_ring_def buffer_inv_def size_lim_def)
  have "sockify_buffer_writable demo_ring = 5" "buffer_contents demo_ring = []"
    by (simp_all add: demo_ring_def sockify_buffer_writable_def sz_sub_def buffer_contents_def)
  then show ?thesis
    using buffer_write_spec [OF inv, of 7 "[1, 2, 3, 4, 5, 6, 7]"] by auto
qed

end
