(* ===== verification/Byte_Order.thy ===== *)
theory Byte_Order
  imports Prelude
begin

text \<open>
  Big-endian loads and stores of \<^verbatim>\<open>src/core/byte_order.c\<close>. A load reads its bytes at the
  indices the C function reads; a store returns the bytes it writes, in address order. The
  lemmas show that loads and stores are inverse to each other and that a load is the usual
  base-256 value of its bytes.
\<close>

definition sockify_read_be16 :: "byte list \<Rightarrow> u16" where
  "sockify_read_be16 buf = push_bit 8 (ucast (buf ! 0)) OR ucast (buf ! 1)"

definition sockify_read_be32 :: "byte list \<Rightarrow> u32" where
  "sockify_read_be32 buf =
     push_bit 24 (ucast (buf ! 0)) OR push_bit 16 (ucast (buf ! 1)) OR
     push_bit 8 (ucast (buf ! 2)) OR ucast (buf ! 3)"

definition sockify_read_be64 :: "byte list \<Rightarrow> u64" where
  "sockify_read_be64 buf =
     push_bit 56 (ucast (buf ! 0)) OR push_bit 48 (ucast (buf ! 1)) OR
     push_bit 40 (ucast (buf ! 2)) OR push_bit 32 (ucast (buf ! 3)) OR
     push_bit 24 (ucast (buf ! 4)) OR push_bit 16 (ucast (buf ! 5)) OR
     push_bit 8 (ucast (buf ! 6)) OR ucast (buf ! 7)"

definition sockify_write_be16 :: "u16 \<Rightarrow> byte list" where
  "sockify_write_be16 value = [ucast (drop_bit 8 value AND 0xff), ucast (value AND 0xff)]"

definition sockify_write_be32 :: "u32 \<Rightarrow> byte list" where
  "sockify_write_be32 value =
     [ucast (drop_bit 24 value AND 0xff), ucast (drop_bit 16 value AND 0xff),
      ucast (drop_bit 8 value AND 0xff), ucast (value AND 0xff)]"

definition sockify_write_be64 :: "u64 \<Rightarrow> byte list" where
  "sockify_write_be64 value =
     [ucast (drop_bit 56 value AND 0xff), ucast (drop_bit 48 value AND 0xff),
      ucast (drop_bit 40 value AND 0xff), ucast (drop_bit 32 value AND 0xff),
      ucast (drop_bit 24 value AND 0xff), ucast (drop_bit 16 value AND 0xff),
      ucast (drop_bit 8 value AND 0xff), ucast (value AND 0xff)]"

text \<open>The value of a byte string in base 256, most significant byte first.\<close>

definition be_value :: "byte list \<Rightarrow> nat" where
  "be_value bs = foldl (\<lambda>n b. 256 * n + unat b) 0 bs"

lemma length_write_be [simp]:
  "length (sockify_write_be16 a) = 2"
  "length (sockify_write_be32 b) = 4"
  "length (sockify_write_be64 c) = 8"
  by (simp_all add: sockify_write_be16_def sockify_write_be32_def sockify_write_be64_def)

section \<open>Bytes inside words\<close>

lemma and_ff [byte_simps]: "(x :: 'a::len word) AND 0xff = take_bit 8 x"
  by (simp add: take_bit_eq_mask mask_numeral)

lemma ucast_and_ff: "ucast ((x :: 'a::len word) AND 0xff) = (ucast x :: byte)"
  unfolding and_ff by (rule bit_word_eqI) (simp add: bit_simps)

lemma bit_byte_less: "bit (b :: byte) n \<Longrightarrow> n < 8"
  using bit_imp_le_length by fastforce

lemma unat_byte_less: "unat (b :: byte) < 256"
  using unsigned_less [of b] by simp

lemma unat_u64_less: "unat (w :: u64) < 2 ^ 64"
  using unsigned_less [of w] by simp

lemma ucast_ucast_byte [byte_simps]:
  "8 \<le> LENGTH('a) \<Longrightarrow> ucast (ucast (x :: 'a::len word) :: byte) = take_bit 8 x"
  by (rule bit_word_eqI) (auto simp: bit_simps)

text \<open>One byte of a word put back below the bytes above it.\<close>

lemma join_byte:
  "push_bit (8 + k) (drop_bit (8 + k) v) OR push_bit k (take_bit 8 (drop_bit k v))
     = push_bit k (drop_bit k (v :: 'a::len word))"
proof (rule bit_word_eqI)
  fix n assume "n < LENGTH('a)"
  then show "bit (push_bit (8 + k) (drop_bit (8 + k) v) OR push_bit k (take_bit 8 (drop_bit k v))) n
      = bit (push_bit k (drop_bit k v)) n"
    by (cases "8 + k \<le> n") (auto simp: bit_simps)
qed

lemma top_byte:
  "LENGTH('a) = k + 8 \<Longrightarrow>
     push_bit k (take_bit 8 (drop_bit k v)) = push_bit k (drop_bit k (v :: 'a::len word))"
  by (rule bit_word_eqI) (auto simp: bit_simps)

lemma unat_ucast_byte: "8 \<le> LENGTH('a) \<Longrightarrow> unat (ucast (b :: byte) :: 'a::len word) = unat b"
  by (simp add: unsigned_ucast_eq take_bit_nat_eq_self_iff less_le_trans [OF unat_byte_less]
      power_increasing [of 8 _ 2, simplified])

lemma unat_shift_in_byte:
  assumes "256 * unat x + 255 < 2 ^ LENGTH('a)" and "8 \<le> LENGTH('a)"
  shows "unat (push_bit 8 x OR ucast (b :: byte)) = 256 * unat (x :: 'a::len word) + unat b"
proof -
  have "push_bit 8 x OR ucast b = push_bit 8 x + (ucast b :: 'a word)"
    by (rule disjunctive_add [symmetric]) (auto simp: bit_simps dest: bit_byte_less)
  moreover have "unat (push_bit 8 x) = 256 * unat x"
    unfolding unsigned_push_bit_eq
    using assms(1) by (simp add: take_bit_nat_eq_self push_bit_eq_mult)
  ultimately show ?thesis using unat_byte_less [of b] assms
    by (simp add: unat_word_ariths(1) unat_ucast_byte)
qed

section \<open>Stores and loads are inverse\<close>

lemma read_write_be16 [simp]: "sockify_read_be16 (sockify_write_be16 v) = v"
  using join_byte [of 0 v] top_byte [of 8 v]
  by (simp add: sockify_read_be16_def sockify_write_be16_def ucast_and_ff byte_simps)

lemma read_write_be32 [simp]: "sockify_read_be32 (sockify_write_be32 v) = v"
  using join_byte [of 0 v] join_byte [of 8 v] join_byte [of 16 v] top_byte [of 24 v]
  by (simp add: sockify_read_be32_def sockify_write_be32_def ucast_and_ff byte_simps
      or.assoc [symmetric])

lemma read_write_be64 [simp]: "sockify_read_be64 (sockify_write_be64 v) = v"
  using join_byte [of 0 v] join_byte [of 8 v] join_byte [of 16 v] join_byte [of 24 v]
    join_byte [of 32 v] join_byte [of 40 v] join_byte [of 48 v] top_byte [of 56 v]
  by (simp add: sockify_read_be64_def sockify_write_be64_def ucast_and_ff byte_simps
      or.assoc [symmetric])

section \<open>Loads are base-256 values\<close>

lemma list2E: "length xs = 2 \<Longrightarrow> (\<And>a b. xs = [a, b] \<Longrightarrow> P) \<Longrightarrow> P"
  by (auto simp: numeral_2_eq_2 length_Suc_conv)

lemma list8E:
  assumes "length xs = 8"
  obtains a b c d e f g h where "xs = [a, b, c, d, e, f, g, h]"
  using assms by (auto simp: eval_nat_numeral length_Suc_conv)

lemma be_value_snoc [simp]: "be_value (bs @ [b]) = 256 * be_value bs + unat b"
  by (simp add: be_value_def)

lemma be_value_less: "be_value bs < 256 ^ length bs"
proof (induction bs rule: rev_induct)
  case Nil
  then show ?case by (simp add: be_value_def)
next
  case (snoc b bs)
  then show ?case using unat_byte_less [of b] by simp
qed

definition be_word :: "byte list \<Rightarrow> 'a::len word" where
  "be_word bs = foldl (\<lambda>v b. push_bit 8 v OR ucast b) 0 bs"

lemma unat_be_word:
  "8 * length bs \<le> LENGTH('a) \<Longrightarrow> unat (be_word bs :: 'a::len word) = be_value bs"
proof (induction bs rule: rev_induct)
  case Nil
  then show ?case by (simp add: be_word_def be_value_def)
next
  case (snoc b bs)
  have "256 * be_value bs + 255 < 256 * 256 ^ length bs"
    using be_value_less [of bs] by simp
  also have "\<dots> = 2 ^ (8 * length (bs @ [b]))"
    by (simp add: power_mult power_add)
  also have "\<dots> \<le> 2 ^ LENGTH('a)"
    using snoc.prems by (simp add: power_increasing)
  finally have "256 * be_value bs + 255 < 2 ^ LENGTH('a)" .
  with snoc show ?case
    by (simp add: be_word_def unat_shift_in_byte)
qed

lemma unat_read_be16:
  assumes "length bs = 2"
  shows "unat (sockify_read_be16 bs) = be_value bs"
proof -
  have "sockify_read_be16 bs = be_word bs"
    using assms by (elim list2E) (simp add: sockify_read_be16_def be_word_def)
  then show ?thesis using assms by (simp add: unat_be_word)
qed

lemma unat_read_be64:
  assumes "length bs = 8"
  shows "unat (sockify_read_be64 bs) = be_value bs"
proof -
  have "sockify_read_be64 bs = be_word bs"
    using assms by (elim list8E) (simp add: sockify_read_be64_def be_word_def or.assoc)
  then show ?thesis using assms by (simp add: unat_be_word)
qed

end
