(* ===== verification/Ws_Frame.thy ===== *)
theory Ws_Frame
  imports Byte_Order
begin

text \<open>
  The streaming WebSocket frame parser and the frame writer of \<^verbatim>\<open>src/ws/ws_frame.c\<close>, with the
  structs of \<^verbatim>\<open>include/sockify/ws.h\<close>. \<open>sockify_ws_parser_feed\<close> returns the return code,
  \<^verbatim>\<open>*used\<close>, the updated parser and the message; the bytes it stores into the caller's payload
  array are the message's payload. The out-parameters \<^verbatim>\<open>used\<close>, \<^verbatim>\<open>msg\<close> and, of the
  writer, \<^verbatim>\<open>written\<close> are components of the results, so that the refusals of null pointers in
  their place (\<^verbatim>\<open>ws_frame.c\<close> lines 155-159 and 283) have no counterpart; no caller passes one.

  The abstract specification is the byte automaton \<open>ws_byte\<close> over \<open>ws_abs\<close>, written from
  RFC 6455: it reads one byte at a time and emits the unmasked payload bytes and the ends of
  frames. The refinement lemmas show that every call of the parser is a run of the automaton
  over the bytes it consumed, so that what is decoded does not depend on how the stream is cut
  into reads.
\<close>

section \<open>Constants and structs\<close>

abbreviation SOCKIFY_WS_OPCODE_CONTINUATION :: u32 where "SOCKIFY_WS_OPCODE_CONTINUATION \<equiv> 0x0"
abbreviation SOCKIFY_WS_OPCODE_TEXT :: u32 where "SOCKIFY_WS_OPCODE_TEXT \<equiv> 0x1"
abbreviation SOCKIFY_WS_OPCODE_BINARY :: u32 where "SOCKIFY_WS_OPCODE_BINARY \<equiv> 0x2"
abbreviation SOCKIFY_WS_OPCODE_CLOSE :: u32 where "SOCKIFY_WS_OPCODE_CLOSE \<equiv> 0x8"
abbreviation SOCKIFY_WS_OPCODE_PING :: u32 where "SOCKIFY_WS_OPCODE_PING \<equiv> 0x9"
abbreviation SOCKIFY_WS_OPCODE_PONG :: u32 where "SOCKIFY_WS_OPCODE_PONG \<equiv> 0xa"

abbreviation WS_STATE_HEADER_1 :: int where "WS_STATE_HEADER_1 \<equiv> 0"
abbreviation WS_STATE_HEADER_2 :: int where "WS_STATE_HEADER_2 \<equiv> 1"
abbreviation WS_STATE_EXT_LEN :: int where "WS_STATE_EXT_LEN \<equiv> 2"
abbreviation WS_STATE_MASK :: int where "WS_STATE_MASK \<equiv> 3"
abbreviation WS_STATE_PAYLOAD :: int where "WS_STATE_PAYLOAD \<equiv> 4"

record sockify_ws_message =
  m_fin :: bool
  m_opcode :: u32
  m_payload :: "byte list ptr"
  m_payload_len :: size_t
  m_frame_complete :: bool

record sockify_ws_parser =
  p_state :: int
  p_b0 :: byte
  p_b1 :: byte
  p_fin :: bool
  p_opcode :: u32
  p_masked :: bool
  p_ext_len_bytes :: "byte list"
  p_ext_len_needed :: size_t
  p_ext_len_pos :: size_t
  p_mask :: "byte list"
  p_mask_pos :: size_t
  p_payload_len :: u64
  p_payload_remaining :: u64
  p_payload_offset :: u64
  p_fragmented_opcode :: u32

section \<open>The parser\<close>

definition zero_parser :: sockify_ws_parser where
  "zero_parser = \<lparr>p_state = 0, p_b0 = 0, p_b1 = 0, p_fin = False, p_opcode = 0, p_masked = False,
     p_ext_len_bytes = replicate 8 0, p_ext_len_needed = 0, p_ext_len_pos = 0,
     p_mask = replicate 4 0, p_mask_pos = 0, p_payload_len = 0, p_payload_remaining = 0,
     p_payload_offset = 0, p_fragmented_opcode = 0\<rparr>"

definition zero_message :: sockify_ws_message where
  "zero_message = \<lparr>m_fin = False, m_opcode = 0, m_payload = None, m_payload_len = 0,
     m_frame_complete = False\<rparr>"

definition sockify_ws_parser_init :: "sockify_ws_parser ptr \<Rightarrow> sockify_ws_parser ptr" where
  "sockify_ws_parser_init parser =
     (case parser of None \<Rightarrow> None | Some p \<Rightarrow> Some (zero_parser\<lparr>p_state := WS_STATE_HEADER_1\<rparr>))"

definition is_control_opcode :: "u32 \<Rightarrow> bool" where
  "is_control_opcode opcode \<longleftrightarrow> opcode \<ge> 0x8"

definition valid_opcode :: "u32 \<Rightarrow> bool" where
  "valid_opcode opcode \<longleftrightarrow>
     opcode = SOCKIFY_WS_OPCODE_CONTINUATION \<or> opcode = SOCKIFY_WS_OPCODE_TEXT \<or>
     opcode = SOCKIFY_WS_OPCODE_BINARY \<or> opcode = SOCKIFY_WS_OPCODE_CLOSE \<or>
     opcode = SOCKIFY_WS_OPCODE_PING \<or> opcode = SOCKIFY_WS_OPCODE_PONG"

text \<open>The part of \<^verbatim>\<open>reset_frame\<close> after its checks: every field but the mask, the length
  bytes and the fragmentation state goes back to 0.\<close>

definition clear_frame :: "sockify_ws_parser \<Rightarrow> sockify_ws_parser" where
  "clear_frame p = p\<lparr>p_state := WS_STATE_HEADER_1, p_b0 := 0, p_b1 := 0, p_fin := False,
     p_opcode := 0, p_masked := False, p_ext_len_needed := 0, p_ext_len_pos := 0, p_mask_pos := 0,
     p_payload_len := 0, p_payload_remaining := 0, p_payload_offset := 0\<rparr>"

definition reset_frame :: "sockify_ws_parser \<Rightarrow> sockify_rc \<times> sockify_ws_parser" where
  "reset_frame p =
     (if p_opcode p = SOCKIFY_WS_OPCODE_TEXT \<or> p_opcode p = SOCKIFY_WS_OPCODE_BINARY then
        if \<not> p_fin p then
          if p_fragmented_opcode p \<noteq> 0 then (SOCKIFY_ERR_PROTOCOL, p)
          else (SOCKIFY_OK, clear_frame (p\<lparr>p_fragmented_opcode := p_opcode p\<rparr>))
        else (SOCKIFY_OK, clear_frame p)
      else if p_opcode p = SOCKIFY_WS_OPCODE_CONTINUATION then
        if p_fragmented_opcode p = 0 then (SOCKIFY_ERR_PROTOCOL, p)
        else if p_fin p then (SOCKIFY_OK, clear_frame (p\<lparr>p_fragmented_opcode := 0\<rparr>))
        else (SOCKIFY_OK, clear_frame p)
      else (SOCKIFY_OK, clear_frame p))"

definition prepare_message ::
  "sockify_ws_parser \<Rightarrow> byte list ptr \<Rightarrow> size_t \<Rightarrow> bool \<Rightarrow> sockify_ws_message" where
  "prepare_message p payload payload_len frame_complete =
     \<lparr>m_fin = p_fin p, m_opcode = p_opcode p, m_payload = payload, m_payload_len = payload_len,
      m_frame_complete = frame_complete\<rparr>"

definition validate_frame_header :: "sockify_ws_parser \<Rightarrow> sockify_rc" where
  "validate_frame_header p =
     (if is_control_opcode (p_opcode p) then
        if \<not> p_fin p \<or> p_payload_len p > 125 then SOCKIFY_ERR_PROTOCOL else SOCKIFY_OK
      else if p_opcode p = SOCKIFY_WS_OPCODE_CONTINUATION then
        if p_fragmented_opcode p = 0 then SOCKIFY_ERR_PROTOCOL else SOCKIFY_OK
      else if p_fragmented_opcode p \<noteq> 0 then SOCKIFY_ERR_PROTOCOL
      else SOCKIFY_OK)"

text \<open>The tail of \<^verbatim>\<open>finish_length\<close>, once the length is known.\<close>

definition accept_length :: "sockify_ws_parser \<Rightarrow> sockify_rc \<times> sockify_ws_parser" where
  "accept_length p =
     (let p1 = p\<lparr>p_payload_remaining := p_payload_len p\<rparr> in (validate_frame_header p1, p1))"

definition finish_length :: "sockify_ws_parser \<Rightarrow> sockify_rc \<times> sockify_ws_parser" where
  "finish_length p =
     (if p_ext_len_needed p = 2 then
        let p1 = p\<lparr>p_payload_len := ucast (sockify_read_be16 (p_ext_len_bytes p))\<rparr>
        in if p_payload_len p1 < 126 then (SOCKIFY_ERR_PROTOCOL, p1) else accept_length p1
      else if p_ext_len_needed p = 8 then
        let p1 = p\<lparr>p_payload_len := sockify_read_be64 (p_ext_len_bytes p)\<rparr>
        in if p_payload_len p1 < 65536 \<or> (p_ext_len_bytes p1 ! 0) AND 0x80 \<noteq> 0
           then (SOCKIFY_ERR_PROTOCOL, p1) else accept_length p1
      else accept_length p)"

definition emit_empty_frame ::
  "sockify_ws_parser \<Rightarrow> sockify_rc \<times> sockify_ws_parser \<times> sockify_ws_message" where
  "emit_empty_frame p =
     (case reset_frame p of (rc, p') \<Rightarrow> (rc, p', prepare_message p None 0 True))"

text \<open>
  The branches of the loop of \<^verbatim>\<open>sockify_ws_parser_feed\<close>, one per parser state; \<open>Inl\<close> is a
  return (code, parser, message), \<open>Inr\<close> the parser with which the loop goes on. The four header
  branches consume one byte.
\<close>

type_synonym feed_exit = "sockify_rc \<times> sockify_ws_parser \<times> sockify_ws_message"

definition feed_header_1 :: "sockify_ws_parser \<Rightarrow> byte \<Rightarrow> feed_exit + sockify_ws_parser" where
  "feed_header_1 p x =
     (let p1 = p\<lparr>p_b0 := x, p_fin := (x AND 0x80 \<noteq> 0), p_opcode := ucast (x AND 0x0f)\<rparr>
      in if x AND 0x70 \<noteq> 0 \<or> \<not> valid_opcode (p_opcode p1)
         then Inl (SOCKIFY_ERR_PROTOCOL, p1, zero_message)
         else Inr (p1\<lparr>p_state := WS_STATE_HEADER_2\<rparr>))"

definition feed_header_2 :: "sockify_ws_parser \<Rightarrow> byte \<Rightarrow> feed_exit + sockify_ws_parser" where
  "feed_header_2 p x =
     (let p1 = p\<lparr>p_b1 := x, p_masked := (x AND 0x80 \<noteq> 0), p_payload_len := ucast (x AND 0x7f)\<rparr>
      in if \<not> p_masked p1 then Inl (SOCKIFY_ERR_PROTOCOL, p1, zero_message)
         else if p_payload_len p1 = 126 then
           Inr (p1\<lparr>p_ext_len_needed := 2, p_ext_len_pos := 0, p_state := WS_STATE_EXT_LEN\<rparr>)
         else if p_payload_len p1 = 127 then
           Inr (p1\<lparr>p_ext_len_needed := 8, p_ext_len_pos := 0, p_state := WS_STATE_EXT_LEN\<rparr>)
         else
           let p2 = p1\<lparr>p_payload_remaining := p_payload_len p1\<rparr>; rc = validate_frame_header p2
           in if rc \<noteq> SOCKIFY_OK then Inl (rc, p2, zero_message)
              else Inr (p2\<lparr>p_state := WS_STATE_MASK\<rparr>))"

definition feed_ext_len :: "sockify_ws_parser \<Rightarrow> byte \<Rightarrow> feed_exit + sockify_ws_parser" where
  "feed_ext_len p x =
     (let p1 = p\<lparr>p_ext_len_bytes := (p_ext_len_bytes p)[p_ext_len_pos p := x],
                 p_ext_len_pos := p_ext_len_pos p + 1\<rparr>
      in if p_ext_len_pos p1 = p_ext_len_needed p1 then
           (case finish_length p1 of
              (rc, p2) \<Rightarrow> if rc \<noteq> SOCKIFY_OK then Inl (rc, p2, zero_message)
                         else Inr (p2\<lparr>p_state := WS_STATE_MASK\<rparr>))
         else Inr p1)"

definition feed_mask :: "sockify_ws_parser \<Rightarrow> byte \<Rightarrow> feed_exit + sockify_ws_parser" where
  "feed_mask p x =
     (let p1 = p\<lparr>p_mask := (p_mask p)[p_mask_pos p := x], p_mask_pos := p_mask_pos p + 1\<rparr>
      in if p_mask_pos p1 = 4 then
           let p2 = p1\<lparr>p_state := WS_STATE_PAYLOAD\<rparr>
           in if p_payload_remaining p2 = 0 then Inl (emit_empty_frame p2) else Inr p2
         else Inr p1)"

text \<open>The payload branch with at least one byte available; it always returns. The second
  component is the position the call leaves in \<^verbatim>\<open>*used\<close>.\<close>

definition feed_payload ::
  "sockify_ws_parser \<Rightarrow> byte list \<Rightarrow> size_t \<Rightarrow> size_t \<Rightarrow> size_t
     \<Rightarrow> sockify_rc \<times> size_t \<times> sockify_ws_parser \<times> sockify_ws_message" where
  "feed_payload p data available pos payload_capacity =
     (if payload_capacity = 0 then (SOCKIFY_ERR_OVERFLOW, pos, p, zero_message)
      else if is_control_opcode (p_opcode p) \<and> p_payload_remaining p > word_of_nat payload_capacity
      then (SOCKIFY_ERR_OVERFLOW, pos, p, zero_message)
      else
        let chunk0 = min_size available payload_capacity;
            chunk_len = (if word_of_nat chunk0 > p_payload_remaining p
                         then unat (p_payload_remaining p) else chunk0);
            payload = map (\<lambda>i. data ! (pos + i) XOR
                             p_mask p ! unat ((p_payload_offset p + word_of_nat i) AND 3)) [0..<chunk_len];
            p1 = p\<lparr>p_payload_offset := p_payload_offset p + word_of_nat chunk_len,
                   p_payload_remaining := p_payload_remaining p - word_of_nat chunk_len\<rparr>;
            msg = prepare_message p1 (Some payload) chunk_len (p_payload_remaining p1 = 0)
        in if p_payload_remaining p1 = 0
           then (case reset_frame p1 of (rc, p2) \<Rightarrow> (rc, pos + chunk_len, p2, msg))
           else (SOCKIFY_OK, pos + chunk_len, p1, msg))"

definition feed_header_byte :: "sockify_ws_parser \<Rightarrow> byte \<Rightarrow> feed_exit + sockify_ws_parser" where
  "feed_header_byte p x =
     (if p_state p = WS_STATE_HEADER_1 then feed_header_1 p x
      else if p_state p = WS_STATE_HEADER_2 then feed_header_2 p x
      else if p_state p = WS_STATE_EXT_LEN then feed_ext_len p x
      else feed_mask p x)"

function feed_loop ::
  "byte list \<Rightarrow> size_t \<Rightarrow> size_t \<Rightarrow> size_t \<Rightarrow> sockify_ws_parser
     \<Rightarrow> sockify_rc \<times> size_t \<times> sockify_ws_parser \<times> sockify_ws_message" where
  "feed_loop data data_len payload_capacity pos p =
     (if pos < data_len \<or> p_state p = WS_STATE_PAYLOAD then
        if p_state p \<in> {WS_STATE_HEADER_1, WS_STATE_HEADER_2, WS_STATE_EXT_LEN, WS_STATE_MASK} then
          if pos \<ge> data_len then (SOCKIFY_ERR_AGAIN, pos, p, zero_message)
          else (case feed_header_byte p (data ! pos) of
                  Inl (rc, p', msg) \<Rightarrow> (rc, pos + 1, p', msg)
                | Inr p' \<Rightarrow> feed_loop data data_len payload_capacity (pos + 1) p')
        else if p_state p = WS_STATE_PAYLOAD then
          let available = sz_sub data_len pos
          in if available = 0 then (SOCKIFY_ERR_AGAIN, pos, p, zero_message)
             else feed_payload p data available pos payload_capacity
        else (SOCKIFY_ERR_INVALID, pos, p, zero_message)
      else (SOCKIFY_ERR_AGAIN, pos, p, zero_message))"
  by pat_completeness auto
termination
  by (relation "measure (\<lambda>(d, n, c, pos, p). n - pos)") auto

definition sockify_ws_parser_feed ::
  "sockify_ws_parser ptr \<Rightarrow> byte list ptr \<Rightarrow> size_t \<Rightarrow> bool \<Rightarrow> size_t
     \<Rightarrow> sockify_rc \<times> size_t \<times> sockify_ws_parser ptr \<times> sockify_ws_message" where
  "sockify_ws_parser_feed parser data data_len payload_null payload_capacity =
     (case parser of
        None \<Rightarrow> (SOCKIFY_ERR_INVALID, 0, None, zero_message)
      | Some p \<Rightarrow>
          if data_len \<noteq> 0 \<and> data = None \<or> payload_capacity \<noteq> 0 \<and> payload_null
          then (SOCKIFY_ERR_INVALID, 0, Some p, zero_message)
          else
            (case feed_loop (case data of None \<Rightarrow> [] | Some d \<Rightarrow> d) data_len payload_capacity 0 p of
               (rc, used, p', msg) \<Rightarrow> (rc, used, Some p', msg)))"

section \<open>The writer\<close>

text \<open>The third component holds the bytes stored from \<^verbatim>\<open>output[0]\<close> on.\<close>

definition sockify_ws_write_frame ::
  "u32 \<Rightarrow> byte list ptr \<Rightarrow> size_t \<Rightarrow> bool \<Rightarrow> size_t \<Rightarrow> sockify_rc \<times> size_t \<times> byte list" where
  "sockify_ws_write_frame opcode payload payload_len output_null output_size =
     (if output_null \<or> payload_len \<noteq> 0 \<and> payload = None then (SOCKIFY_ERR_INVALID, 0, [])
      else if \<not> valid_opcode opcode then (SOCKIFY_ERR_PROTOCOL, 0, [])
      else if is_control_opcode opcode \<and> payload_len > 125 then (SOCKIFY_ERR_PROTOCOL, 0, [])
      else
        let header_len = (if payload_len \<le> 125 then 2 else if payload_len \<le> 65535 then 4 else 10)
        in if output_size < sz_add header_len payload_len then (SOCKIFY_ERR_OVERFLOW, 0, [])
           else
             let b0 = ucast (0x80 OR (opcode AND 0x0f)) :: byte;
                 header =
                   (if payload_len \<le> 125 then [b0, word_of_nat payload_len]
                    else if payload_len \<le> 65535
                    then [b0, 126] @ sockify_write_be16 (word_of_nat payload_len)
                    else [b0, 127] @ sockify_write_be64 (word_of_nat payload_len));
                 body = (if payload_len \<noteq> 0
                         then take payload_len (case payload of None \<Rightarrow> [] | Some d \<Rightarrow> d) else [])
             in (SOCKIFY_OK, sz_add header_len payload_len, header @ body))"


declare feed_loop.simps [simp del]

section \<open>The byte automaton of RFC 6455\<close>

datatype ws_event = Ev_byte u32 byte | Ev_end bool u32

text \<open>The opcodes RFC 6455 section 5.2 defines, and section 5.5's control opcodes, those with the top
  bit of the four.\<close>

definition rfc_opcode :: "u32 \<Rightarrow> bool" where
  "rfc_opcode op \<longleftrightarrow> unat op \<in> {0, 1, 2, 8, 9, 10}"

definition rfc_control :: "u32 \<Rightarrow> bool" where
  "rfc_control op \<longleftrightarrow> 8 \<le> unat op"

text \<open>Fin bit, opcode and the opcode of the fragmented message in progress (0 for none).\<close>

datatype ws_abs =
    A_Head1 u32
  | A_Head2 bool u32 u32
  | A_Ext bool u32 u32 nat "byte list"
  | A_Mask bool u32 u32 nat "byte list"
  | A_Payload bool u32 u32 "byte list" nat nat

definition header_ok :: "bool \<Rightarrow> u32 \<Rightarrow> u32 \<Rightarrow> nat \<Rightarrow> bool" where
  "header_ok fin op frag n \<longleftrightarrow>
     (if rfc_control op then fin \<and> n \<le> 125 else (op = 0) = (frag \<noteq> 0))"

definition next_frag :: "bool \<Rightarrow> u32 \<Rightarrow> u32 \<Rightarrow> u32" where
  "next_frag fin op frag =
     (if rfc_control op then frag else if fin then 0 else if op = 0 then frag else op)"

definition length_ok :: "nat \<Rightarrow> nat \<Rightarrow> bool" where
  "length_ok needed n \<longleftrightarrow> (if needed = 2 then 126 \<le> n else 65536 \<le> n \<and> n < 2 ^ 63)"

fun ws_byte :: "ws_abs \<Rightarrow> byte \<Rightarrow> (ws_abs \<times> ws_event list) option" where
  "ws_byte (A_Head1 frag) x =
     (let op = ucast (take_bit 4 x)
      in if bit x 4 \<or> bit x 5 \<or> bit x 6 \<or> \<not> rfc_opcode op then None
         else Some (A_Head2 (bit x 7) op frag, []))"
| "ws_byte (A_Head2 fin op frag) x =
     (let n = unat (take_bit 7 x)
      in if \<not> bit x 7 then None
         else if n = 126 then Some (A_Ext fin op frag 2 [], [])
         else if n = 127 then Some (A_Ext fin op frag 8 [], [])
         else if header_ok fin op frag n then Some (A_Mask fin op frag n [], [])
         else None)"
| "ws_byte (A_Ext fin op frag needed bs) x =
     (let bs' = bs @ [x]; n = be_value bs'
      in if length bs' \<noteq> needed then Some (A_Ext fin op frag needed bs', [])
         else if length_ok needed n \<and> header_ok fin op frag n
         then Some (A_Mask fin op frag n [], [])
         else None)"
| "ws_byte (A_Mask fin op frag n ms) x =
     (let ms' = ms @ [x]
      in if length ms' \<noteq> 4 then Some (A_Mask fin op frag n ms', [])
         else if n = 0 then Some (A_Head1 (next_frag fin op frag), [Ev_end fin op])
         else Some (A_Payload fin op frag ms' n 0, []))"
| "ws_byte (A_Payload fin op frag key n off) x =
     (let y = x XOR key ! (off mod 4)
      in if n = 1 then Some (A_Head1 (next_frag fin op frag), [Ev_byte op y, Ev_end fin op])
         else Some (A_Payload fin op frag key (n - 1) (off + 1), [Ev_byte op y]))"

fun ws_run :: "ws_abs \<Rightarrow> byte list \<Rightarrow> (ws_abs \<times> ws_event list) option" where
  "ws_run a [] = Some (a, [])"
| "ws_run a (x # xs) =
     (case ws_byte a x of
        None \<Rightarrow> None
      | Some (a1, es) \<Rightarrow>
          (case ws_run a1 xs of None \<Rightarrow> None | Some (a2, es') \<Rightarrow> Some (a2, es @ es')))"

section \<open>Parser invariant and abstraction\<close>

definition parser_abs :: "sockify_ws_parser \<Rightarrow> ws_abs" where
  "parser_abs p =
     (if p_state p = WS_STATE_HEADER_1 then A_Head1 (p_fragmented_opcode p)
      else if p_state p = WS_STATE_HEADER_2
      then A_Head2 (p_fin p) (p_opcode p) (p_fragmented_opcode p)
      else if p_state p = WS_STATE_EXT_LEN
      then A_Ext (p_fin p) (p_opcode p) (p_fragmented_opcode p) (p_ext_len_needed p)
             (take (p_ext_len_pos p) (p_ext_len_bytes p))
      else if p_state p = WS_STATE_MASK
      then A_Mask (p_fin p) (p_opcode p) (p_fragmented_opcode p) (unat (p_payload_remaining p))
             (take (p_mask_pos p) (p_mask p))
      else A_Payload (p_fin p) (p_opcode p) (p_fragmented_opcode p) (p_mask p)
             (unat (p_payload_remaining p)) (unat (p_payload_offset p)))"

definition parser_header_ok :: "sockify_ws_parser \<Rightarrow> bool" where
  "parser_header_ok p \<longleftrightarrow>
     valid_opcode (p_opcode p) \<and>
     header_ok (p_fin p) (p_opcode p) (p_fragmented_opcode p) (unat (p_payload_len p))"

definition parser_inv :: "sockify_ws_parser \<Rightarrow> bool" where
  "parser_inv p \<longleftrightarrow>
     p_state p \<in> {WS_STATE_HEADER_1, WS_STATE_HEADER_2, WS_STATE_EXT_LEN, WS_STATE_MASK,
                  WS_STATE_PAYLOAD} \<and>
     length (p_ext_len_bytes p) = 8 \<and> length (p_mask p) = 4 \<and>
     p_fragmented_opcode p \<in> {0, SOCKIFY_WS_OPCODE_TEXT, SOCKIFY_WS_OPCODE_BINARY} \<and>
     (p_state p \<noteq> WS_STATE_HEADER_1 \<longrightarrow> valid_opcode (p_opcode p)) \<and>
     (p_state p \<in> {WS_STATE_HEADER_1, WS_STATE_HEADER_2, WS_STATE_EXT_LEN} \<longrightarrow> p_mask_pos p = 0) \<and>
     (p_state p = WS_STATE_EXT_LEN \<longrightarrow>
        p_ext_len_needed p \<in> {2, 8} \<and> p_ext_len_pos p < p_ext_len_needed p) \<and>
     (p_state p = WS_STATE_MASK \<longrightarrow> p_mask_pos p < 4) \<and>
     (p_state p \<noteq> WS_STATE_PAYLOAD \<longrightarrow> p_payload_offset p = 0) \<and>
     (p_state p \<in> {WS_STATE_MASK, WS_STATE_PAYLOAD} \<longrightarrow>
        parser_header_ok p \<and>
        unat (p_payload_offset p) + unat (p_payload_remaining p) = unat (p_payload_len p)) \<and>
     (p_state p = WS_STATE_PAYLOAD \<longrightarrow> p_payload_remaining p \<noteq> 0)"

text \<open>The events a returned message stands for.\<close>

definition msg_events :: "sockify_ws_message \<Rightarrow> ws_event list" where
  "msg_events msg =
     map (Ev_byte (m_opcode msg)) (case m_payload msg of None \<Rightarrow> [] | Some d \<Rightarrow> d) @
     (if m_frame_complete msg then [Ev_end (m_fin msg) (m_opcode msg)] else [])"

lemma ws_run_append:
  "ws_run a (xs @ ys) =
     (case ws_run a xs of
        None \<Rightarrow> None
      | Some (a1, es) \<Rightarrow> (case ws_run a1 ys of None \<Rightarrow> None | Some (a2, es') \<Rightarrow> Some (a2, es @ es')))"
  by (induction xs arbitrary: a) (auto split: option.splits prod.splits)

lemma zero_message_events [simp]: "msg_events zero_message = []"
  by (simp add: msg_events_def zero_message_def)

section \<open>Bit tests of the header bytes\<close>

lemma and_single_bit: "(x AND push_bit n 1 \<noteq> 0) = bit x n" if "n < LENGTH('a)" for x :: "'a::len word"
  using that by (metis and_exp_eq_0_iff_not_bit push_bit_of_1)

lemma and_80 [byte_simps]: "((x :: byte) AND 0x80 \<noteq> 0) = bit x 7"
  using and_single_bit [of 7 x] by simp

lemma and_70 [byte_simps]: "((x :: byte) AND 0x70 \<noteq> 0) = (bit x 4 \<or> bit x 5 \<or> bit x 6)"
proof -
  have "(x AND 0x70 = 0) = (\<forall>n < 8. \<not> (bit x n \<and> bit (0x70 :: byte) n))"
    by (auto simp: bit_eq_iff bit_simps)
  also have "\<dots> = (\<not> (bit x 4 \<or> bit x 5 \<or> bit x 6))"
    by (auto simp: All_less_Suc eval_nat_numeral)
  finally show ?thesis by blast
qed

lemma and_0f [byte_simps]: "(x :: byte) AND 0x0f = take_bit 4 x"
  by (simp add: take_bit_eq_mask mask_numeral)

lemma and_7f [byte_simps]: "(x :: byte) AND 0x7f = take_bit 7 x"
  by (simp add: take_bit_eq_mask mask_numeral)


section \<open>One header byte\<close>

lemma valid_opcode_rfc [simp]: "valid_opcode op = rfc_opcode op"
  by (auto simp: valid_opcode_def rfc_opcode_def word_unat_eq_iff)

lemma is_control_opcode_rfc [simp]: "is_control_opcode op = rfc_control op"
  by (simp add: is_control_opcode_def rfc_control_def word_le_nat_alt)

lemma valid_opcode_cases:
  assumes "valid_opcode op"
  obtains "op = 0" "\<not> is_control_opcode op" | "op = 1" "\<not> is_control_opcode op"
    | "op = 2" "\<not> is_control_opcode op" | "op \<notin> {0, 1, 2}" "is_control_opcode op"
  using assms unfolding valid_opcode_def is_control_opcode_def by (auto simp: word_le_nat_alt)

lemma set_same_fragment: "p_fragmented_opcode p = c \<Longrightarrow> p\<lparr>p_fragmented_opcode := c\<rparr> = p"
  by (cases p) auto

lemma validate_frame_header_eq:
  assumes "valid_opcode (p_opcode p)"
  shows "validate_frame_header p = (if parser_header_ok p then SOCKIFY_OK else SOCKIFY_ERR_PROTOCOL)"
proof -
  have "(p_payload_len p > 125) = (unat (p_payload_len p) > 125)"
    by (simp add: word_less_nat_alt)
  with assms show ?thesis
    by - (rule valid_opcode_cases [OF assms];
      simp add: validate_frame_header_def parser_header_ok_def header_ok_def)
qed

lemma reset_frame_eq:
  assumes "parser_header_ok p"
  shows "reset_frame p = (SOCKIFY_OK, clear_frame
     (p\<lparr>p_fragmented_opcode := next_frag (p_fin p) (p_opcode p) (p_fragmented_opcode p)\<rparr>))"
proof -
  have "valid_opcode (p_opcode p)" using assms by (simp add: parser_header_ok_def)
  then show ?thesis
    using assms by - (erule valid_opcode_cases;
      auto simp: reset_frame_def parser_header_ok_def header_ok_def next_frag_def set_same_fragment)
qed

lemma clear_frame_abs [simp]:
  "parser_abs (clear_frame p) = A_Head1 (p_fragmented_opcode p)"
  by (simp add: parser_abs_def clear_frame_def)

lemma clear_frame_inv:
  assumes "parser_inv p" and "p_state p \<noteq> WS_STATE_HEADER_1"
  shows "parser_inv (clear_frame (p\<lparr>p_fragmented_opcode :=
     next_frag (p_fin p) (p_opcode p) (p_fragmented_opcode p)\<rparr>))"
proof -
  have "valid_opcode (p_opcode p)" using assms by (simp add: parser_inv_def)
  then show ?thesis
    using assms by - (erule valid_opcode_cases;
      auto simp: parser_inv_def clear_frame_def next_frag_def)
qed

definition step_ok :: "sockify_ws_parser \<Rightarrow> byte \<Rightarrow> feed_exit + sockify_ws_parser \<Rightarrow> bool" where
  "step_ok p x r =
     (case r of
        Inr p' \<Rightarrow> parser_inv p' \<and> ws_byte (parser_abs p) x = Some (parser_abs p', [])
      | Inl (rc, p', msg) \<Rightarrow>
          if rc = SOCKIFY_OK
          then parser_inv p' \<and> ws_byte (parser_abs p) x = Some (parser_abs p', msg_events msg) \<and>
               m_payload_len msg = 0 \<and> m_payload msg = None \<and> m_frame_complete msg
          else rc = SOCKIFY_ERR_PROTOCOL \<and> msg = zero_message \<and> ws_byte (parser_abs p) x = None)"

lemma feed_header_1_ok:
  assumes "parser_inv p" and "p_state p = WS_STATE_HEADER_1"
  shows "step_ok p x (feed_header_1 p x)"
  using assms
  by (auto simp: step_ok_def feed_header_1_def Let_def byte_simps parser_abs_def parser_inv_def)

lemma feed_header_2_ok:
  assumes "parser_inv p" and "p_state p = WS_STATE_HEADER_2"
  shows "step_ok p x (feed_header_2 p x)"
proof -
  let ?n = "unat (take_bit 7 x)"
  have n: "unat (ucast (take_bit 7 x) :: u64) = ?n" by (rule unat_ucast_byte) simp
  have "(ucast (take_bit 7 x) :: u64) = 126 \<longleftrightarrow> ?n = 126"
    and "(ucast (take_bit 7 x) :: u64) = 127 \<longleftrightarrow> ?n = 127"
    by (simp_all add: word_unat_eq_iff n)
  then show ?thesis
    using assms n
    by (auto simp: step_ok_def feed_header_2_def Let_def byte_simps parser_abs_def parser_inv_def
        validate_frame_header_eq parser_header_ok_def)
qed

lemma be_value_take2:
  assumes "length bs = 8"
  shows "unat (sockify_read_be16 bs) = be_value (take 2 bs)"
proof -
  have "sockify_read_be16 bs = sockify_read_be16 (take 2 bs)"
    by (simp add: sockify_read_be16_def)
  then show ?thesis using unat_read_be16 [of "take 2 bs"] assms by simp
qed

lemma top_bit_be_value:
  assumes "length bs = 8"
  shows "bit (bs ! 0) 7 \<longleftrightarrow> 2 ^ 63 \<le> be_value bs"
proof -
  obtain x xs where bs: "bs = x # xs" and xs: "length xs = 7"
    using assms by (auto simp: length_Suc_conv eval_nat_numeral)
  have "be_value (x # xs) = unat x * 256 ^ length xs + be_value xs" for x xs
    by (induction xs rule: rev_induct) (simp_all add: be_value_def algebra_simps)
  then have v: "be_value bs = unat x * 2 ^ 56 + be_value xs" using bs xs by simp
  have r: "be_value xs < 2 ^ 56" using be_value_less [of xs] xs by simp
  have "bit x 7 \<longleftrightarrow> bit (unat x) 7" by (simp add: bit_unsigned_iff)
  also have "\<dots> \<longleftrightarrow> odd (unat x div 128)" by (simp add: bit_iff_odd)
  also have "\<dots> \<longleftrightarrow> 128 \<le> unat x"
  proof -
    have "unat x div 128 = (if 128 \<le> unat x then 1 else 0)"
      using unat_byte_less [of x] by (auto simp: div_nat_eqI)
    then show ?thesis by simp
  qed
  also have "\<dots> \<longleftrightarrow> 2 ^ 63 \<le> be_value bs" using v r by (auto simp: not_le)
  finally show ?thesis by (simp add: bs)
qed

lemma finish_length_eq:
  assumes "length (p_ext_len_bytes p) = 8" and "p_ext_len_needed p \<in> {2, 8}"
    and "valid_opcode (p_opcode p)"
  defines "n \<equiv> be_value (take (p_ext_len_needed p) (p_ext_len_bytes p))"
  shows "fst (finish_length p) =
     (if length_ok (p_ext_len_needed p) n \<and> header_ok (p_fin p) (p_opcode p) (p_fragmented_opcode p) n
      then SOCKIFY_OK else SOCKIFY_ERR_PROTOCOL)"
    and "length_ok (p_ext_len_needed p) n \<Longrightarrow>
     snd (finish_length p) = p\<lparr>p_payload_len := word_of_nat n, p_payload_remaining := word_of_nat n\<rparr>"
    and "unat (word_of_nat n :: u64) = n"
proof -
  have "n < 256 ^ 8"
    using be_value_less [of "take (p_ext_len_needed p) (p_ext_len_bytes p)"] assms(1,2)
    unfolding n_def by (auto intro: less_le_trans)
  then show un: "unat (word_of_nat n :: u64) = n"
    by (simp add: unat_of_nat take_bit_nat_eq_self)
  have acc: "fst (accept_length (p\<lparr>p_payload_len := word_of_nat n\<rparr>)) =
      (if header_ok (p_fin p) (p_opcode p) (p_fragmented_opcode p) n
       then SOCKIFY_OK else SOCKIFY_ERR_PROTOCOL)"
    using assms(3) un
    by (simp add: accept_length_def Let_def validate_frame_header_eq parser_header_ok_def)
  have snd: "snd (accept_length (p\<lparr>p_payload_len := word_of_nat n\<rparr>)) =
      p\<lparr>p_payload_len := word_of_nat n, p_payload_remaining := word_of_nat n\<rparr>"
    by (simp add: accept_length_def Let_def)
  consider (two) "p_ext_len_needed p = 2" | (eight) "p_ext_len_needed p = 8" using assms(2) by blast
  then have fin: "finish_length p =
      (if length_ok (p_ext_len_needed p) n then accept_length (p\<lparr>p_payload_len := word_of_nat n\<rparr>)
       else (SOCKIFY_ERR_PROTOCOL, p\<lparr>p_payload_len := word_of_nat n\<rparr>))"
  proof cases
    case two
    then have "unat (sockify_read_be16 (p_ext_len_bytes p)) = n"
      using be_value_take2 [OF assms(1)] by (simp add: n_def)
    then have "(ucast (sockify_read_be16 (p_ext_len_bytes p)) :: u64) = word_of_nat n"
      by (metis of_nat_unat)
    with two show ?thesis using un
      by (simp add: finish_length_def length_ok_def Let_def word_less_nat_alt not_le)
  next
    case eight
    then have "unat (sockify_read_be64 (p_ext_len_bytes p)) = n"
      using unat_read_be64 [OF assms(1)] assms(1) by (simp add: n_def)
    then have "sockify_read_be64 (p_ext_len_bytes p) = word_of_nat n" by auto
    moreover have "bit (p_ext_len_bytes p ! 0) 7 \<longleftrightarrow> 2 ^ 63 \<le> n"
      using top_bit_be_value [OF assms(1)] assms(1) eight by (simp add: n_def)
    ultimately show ?thesis using eight un
      by (auto simp: finish_length_def length_ok_def Let_def word_less_nat_alt not_le byte_simps)
  qed
  show "fst (finish_length p) =
     (if length_ok (p_ext_len_needed p) n \<and> header_ok (p_fin p) (p_opcode p) (p_fragmented_opcode p) n
      then SOCKIFY_OK else SOCKIFY_ERR_PROTOCOL)"
    using fin acc by simp
  show "snd (finish_length p) = p\<lparr>p_payload_len := word_of_nat n, p_payload_remaining := word_of_nat n\<rparr>"
    if "length_ok (p_ext_len_needed p) n"
    using fin snd that by simp
qed

lemma feed_ext_len_ok:
  assumes "parser_inv p" and "p_state p = WS_STATE_EXT_LEN"
  shows "step_ok p x (feed_ext_len p x)"
proof -
  let ?p = "p\<lparr>p_ext_len_bytes := (p_ext_len_bytes p)[p_ext_len_pos p := x],
              p_ext_len_pos := p_ext_len_pos p + 1\<rparr>"
  have inv: "length (p_ext_len_bytes ?p) = 8" "p_ext_len_needed ?p \<in> {2, 8}"
    "valid_opcode (p_opcode ?p)" "p_ext_len_pos p < p_ext_len_needed p"
    using assms by (auto simp: parser_inv_def)
  have bytes: "take (p_ext_len_pos p + 1) (p_ext_len_bytes ?p)
      = take (p_ext_len_pos p) (p_ext_len_bytes p) @ [x]"
    using inv by (auto simp: take_Suc_nth)
  note fin = finish_length_eq [OF inv(1-3)]
  show ?thesis
  proof (cases "p_ext_len_pos p + 1 = p_ext_len_needed p")
    case True
    let ?n = "be_value (take (p_ext_len_pos p) (p_ext_len_bytes p) @ [x])"
    obtain rc p2 where fl: "finish_length ?p = (rc, p2)" by fastforce
    have n: "be_value (take (p_ext_len_needed ?p) (p_ext_len_bytes ?p)) = ?n"
      using True bytes by simp
    have rc: "rc = (if length_ok (p_ext_len_needed p) ?n \<and>
        header_ok (p_fin p) (p_opcode p) (p_fragmented_opcode p) ?n
        then SOCKIFY_OK else SOCKIFY_ERR_PROTOCOL)"
      using fin(1) fl unfolding n by simp
    moreover have "p2 = ?p\<lparr>p_payload_len := word_of_nat ?n, p_payload_remaining := word_of_nat ?n\<rparr>"
      if "length_ok (p_ext_len_needed p) ?n"
      using fin(2) fl that unfolding n by simp
    moreover have "unat (word_of_nat ?n :: u64) = ?n" using fin(3) unfolding n .
    moreover have "length (take (p_ext_len_pos p) (p_ext_len_bytes p) @ [x]) = p_ext_len_needed p"
      using True inv by auto
    ultimately show ?thesis
      using assms fl True
      by (auto simp: step_ok_def feed_ext_len_def Let_def parser_abs_def parser_inv_def
          parser_header_ok_def simp del: be_value_snoc split: if_splits)
  next
    case False
    then show ?thesis
      using assms bytes inv
      by (auto simp: step_ok_def feed_ext_len_def Let_def parser_abs_def parser_inv_def)
  qed
qed

lemma feed_mask_ok:
  assumes "parser_inv p" and "p_state p = WS_STATE_MASK"
  shows "step_ok p x (feed_mask p x)"
proof -
  let ?p = "p\<lparr>p_mask := (p_mask p)[p_mask_pos p := x], p_mask_pos := p_mask_pos p + 1\<rparr>"
  have key: "take (p_mask_pos p + 1) (p_mask ?p) = take (p_mask_pos p) (p_mask p) @ [x]"
    using assms by (auto simp: parser_inv_def take_Suc_nth)
  show ?thesis
  proof (cases "p_mask_pos p + 1 = 4")
    case True
    let ?q = "?p\<lparr>p_state := WS_STATE_PAYLOAD\<rparr>"
    have whole: "p_mask ?p = take (p_mask_pos p) (p_mask p) @ [x]"
      using key True assms by (simp add: parser_inv_def)
    have len: "length (take (p_mask_pos p) (p_mask p) @ [x]) = 4"
      using True assms by (simp add: parser_inv_def)
    show ?thesis
    proof (cases "p_payload_remaining p = 0")
      case empty: True
      have "parser_header_ok ?q"
        using assms by (simp add: parser_inv_def parser_header_ok_def)
      then have "emit_empty_frame ?q = (SOCKIFY_OK, clear_frame (?q\<lparr>p_fragmented_opcode :=
          next_frag (p_fin ?q) (p_opcode ?q) (p_fragmented_opcode ?q)\<rparr>), prepare_message ?q None 0 True)"
        by (simp add: emit_empty_frame_def reset_frame_eq)
      moreover have "clear_frame (?q\<lparr>p_fragmented_opcode := next_frag (p_fin ?q) (p_opcode ?q)
          (p_fragmented_opcode ?q)\<rparr>) = clear_frame (?p\<lparr>p_fragmented_opcode :=
            next_frag (p_fin ?p) (p_opcode ?p) (p_fragmented_opcode ?p)\<rparr>)"
        by (simp add: clear_frame_def)
      moreover have "parser_inv (clear_frame (?p\<lparr>p_fragmented_opcode :=
            next_frag (p_fin ?p) (p_opcode ?p) (p_fragmented_opcode ?p)\<rparr>))"
        using clear_frame_inv [of p] assms by (auto simp: parser_inv_def clear_frame_def)
      ultimately show ?thesis
        using True empty assms len
        by (simp add: step_ok_def feed_mask_def Let_def parser_abs_def msg_events_def
            prepare_message_def clear_frame_def)
    next
      case nonempty: False
      then have "unat (p_payload_remaining p) \<noteq> 0" by (simp add: unat_eq_0)
      with nonempty show ?thesis
        using True assms whole len
        by (auto simp: step_ok_def feed_mask_def Let_def parser_abs_def parser_inv_def
            parser_header_ok_def)
    qed
  next
    case False
    then show ?thesis
      using assms key
      by (auto simp: step_ok_def feed_mask_def Let_def parser_abs_def parser_inv_def
          parser_header_ok_def)
  qed
qed

lemma feed_header_byte_ok:
  assumes "parser_inv p" and "p_state p \<noteq> WS_STATE_PAYLOAD"
  shows "step_ok p x (feed_header_byte p x)"
proof -
  have "p_state p \<in> {WS_STATE_HEADER_1, WS_STATE_HEADER_2, WS_STATE_EXT_LEN, WS_STATE_MASK}"
    using assms by (auto simp: parser_inv_def)
  then show ?thesis
    using assms feed_header_1_ok feed_header_2_ok feed_ext_len_ok feed_mask_ok
    by (auto simp: feed_header_byte_def)
qed


section \<open>A payload chunk\<close>

fun unmask :: "byte list \<Rightarrow> nat \<Rightarrow> byte list \<Rightarrow> byte list" where
  "unmask key off [] = []"
| "unmask key off (x # xs) = (x XOR key ! (off mod 4)) # unmask key (Suc off) xs"

lemma unmask_map: "unmask key off xs = map (\<lambda>i. xs ! i XOR key ! ((off + i) mod 4)) [0..<length xs]"
proof (induction xs arbitrary: off)
  case (Cons x xs)
  have "[0..<length (x # xs)] = 0 # map Suc [0..<length xs]"
    by (simp add: map_Suc_upt upt_conv_Cons del: upt_Suc)
  then show ?case by (simp add: Cons o_def)
qed simp

lemma length_unmask [simp]: "length (unmask key off xs) = length xs"
  by (simp add: unmask_map)

lemma unmask_unmask: "unmask key off (unmask key off xs) = xs"
  by (induction xs arbitrary: off) (simp_all add: xor.assoc)

lemma unmask_append: "unmask key off (xs @ ys) = unmask key off xs @ unmask key (off + length xs) ys"
  by (induction xs arbitrary: off) simp_all

lemma ws_run_payload:
  assumes "xs \<noteq> []" and "length xs \<le> n"
  shows "ws_run (A_Payload fin op frag key n off) xs =
     Some (if length xs = n
           then (A_Head1 (next_frag fin op frag), map (Ev_byte op) (unmask key off xs) @ [Ev_end fin op])
           else (A_Payload fin op frag key (n - length xs) (off + length xs),
                 map (Ev_byte op) (unmask key off xs)))"
  using assms
proof (induction xs arbitrary: n off)
  case (Cons x xs)
  show ?case
  proof (cases "xs = []")
    case False
    with Cons.prems have "n \<noteq> 1" "length xs \<le> n - 1" by (cases xs; simp)+
    with False Cons.IH [of "n - 1" "off + 1"] Cons.prems show ?thesis by (auto simp: Let_def)
  qed (use Cons.prems in \<open>simp add: Let_def\<close>)
qed simp

lemma mask_index: "unat ((w + word_of_nat i) AND (3 :: u64)) = (unat w + i) mod 4"
proof -
  have "(w + word_of_nat i) AND 3 = take_bit 2 (w + word_of_nat i)"
    by (simp add: take_bit_eq_mask mask_numeral)
  then have "unat ((w + word_of_nat i) AND 3) = take_bit 2 (unat (w + word_of_nat i))"
    by (simp only: unsigned_take_bit_eq)
  also have "\<dots> = unat (w + word_of_nat i) mod 4" by (simp add: take_bit_eq_mod)
  also have "\<dots> = (unat w + i) mod 4"
    by (simp add: unat_word_ariths unat_of_nat take_bit_eq_mod mod_mod_cancel mod_simps)
  finally show ?thesis .
qed

lemma feed_payload_ok:
  assumes inv: "parser_inv p" "p_state p = WS_STATE_PAYLOAD"
    and pos: "pos < length data" and lim: "length data < size_lim" "cap < size_lim"
    and room: "0 < cap" "is_control_opcode (p_opcode p) \<longrightarrow> unat (p_payload_remaining p) \<le> cap"
  defines "k \<equiv> min (min (length data - pos) cap) (unat (p_payload_remaining p))"
  shows "\<exists>p' msg. feed_payload p data (length data - pos) pos cap = (SOCKIFY_OK, pos + k, p', msg) \<and>
     0 < k \<and> parser_inv p' \<and> m_payload_len msg = k \<and>
     (\<exists>d. m_payload msg = Some d \<and> length d = k) \<and>
     ws_run (parser_abs p) (take k (drop pos data)) = Some (parser_abs p', msg_events msg)"
proof -
  let ?r = "unat (p_payload_remaining p)" and ?o = "unat (p_payload_offset p)"
  let ?xs = "take k (drop pos data)"
  let ?p1 = "p\<lparr>p_payload_offset := p_payload_offset p + word_of_nat k,
                 p_payload_remaining := p_payload_remaining p - word_of_nat k\<rparr>"
  have r: "0 < ?r" and hdr: "parser_header_ok p" and len: "?o + ?r = unat (p_payload_len p)"
    using inv by (auto simp: parser_inv_def unat_gt_0)
  have k: "0 < k" "k \<le> ?r" "length ?xs = k" "?xs \<noteq> []"
    using r pos room by (auto simp: k_def)
  have u64: "unat (word_of_nat n :: u64) = n" if "n < size_lim" for n
    using that by (simp add: size_lim_def unat_of_nat take_bit_nat_eq_self)
  have ucap: "unat (word_of_nat cap :: u64) = cap"
    and uchunk: "unat (word_of_nat (min (length data - pos) cap) :: u64) = min (length data - pos) cap"
    and uk: "unat (word_of_nat k :: u64) = k"
    using u64 lim by (simp_all add: k_def)
  have off: "unat (p_payload_offset ?p1) = ?o + k"
    using uk k len unat_u64_less [of "p_payload_len p"] by (simp add: unat_word_ariths)
  have rem: "unat (p_payload_remaining ?p1) = ?r - k"
    using uk k by (simp add: unat_sub word_le_nat_alt)
  have fin0: "p_payload_remaining ?p1 = 0 \<longleftrightarrow> k = ?r"
    using rem k by (auto simp: unat_eq_0 [symmetric])
  have payload: "map (\<lambda>i. data ! (pos + i) XOR
      p_mask p ! unat ((p_payload_offset p + word_of_nat i) AND 3)) [0..<k] = unmask (p_mask p) ?o ?xs"
    using k pos by (simp add: unmask_map mask_index)
  have guard: "(is_control_opcode (p_opcode p) \<and> p_payload_remaining p > word_of_nat cap) = False"
    "(cap = 0) = False"
    using room ucap by (auto simp: word_less_nat_alt)
  have chunk: "(if word_of_nat (min (length data - pos) cap) > p_payload_remaining p then ?r
      else min (length data - pos) cap) = k"
    by (auto simp: word_less_nat_alt uchunk k_def)
  define msg where "msg = prepare_message ?p1 (Some (unmask (p_mask p) ?o ?xs)) k (k = ?r)"
  have run: "feed_payload p data (length data - pos) pos cap =
      (if k = ?r then (case reset_frame ?p1 of (rc, p2) \<Rightarrow> (rc, pos + k, p2, msg))
       else (SOCKIFY_OK, pos + k, ?p1, msg))"
    unfolding feed_payload_def Let_def min_size_min chunk payload fin0 msg_def guard if_False ..
  have msg: "m_payload_len msg = k" "\<exists>d. m_payload msg = Some d \<and> length d = k"
    "msg_events msg = map (Ev_byte (p_opcode p)) (unmask (p_mask p) ?o ?xs) @
       (if k = ?r then [Ev_end (p_fin p) (p_opcode p)] else [])"
    using k by (simp_all add: msg_def prepare_message_def msg_events_def)
  have abs: "parser_abs p = A_Payload (p_fin p) (p_opcode p) (p_fragmented_opcode p) (p_mask p) ?r ?o"
    using inv(2) by (simp add: parser_abs_def)
  show ?thesis
  proof (cases "k = ?r")
    case True
    have "parser_header_ok ?p1" using hdr by (simp add: parser_header_ok_def)
    from reset_frame_eq [OF this]
    have reset: "reset_frame ?p1 = (SOCKIFY_OK, clear_frame (p\<lparr>p_fragmented_opcode :=
        next_frag (p_fin p) (p_opcode p) (p_fragmented_opcode p)\<rparr>))"
      by (simp add: clear_frame_def)
    show ?thesis
      using run reset msg True k ws_run_payload [OF k(4), of ?r] clear_frame_inv [OF inv(1)] inv(2)
      by (simp add: abs)
  next
    case False
    have "parser_inv ?p1"
      using inv off rem False k len hdr
      by (auto simp: parser_inv_def parser_header_ok_def fin0 [simplified])
    moreover have "parser_abs ?p1 = A_Payload (p_fin p) (p_opcode p) (p_fragmented_opcode p)
        (p_mask p) (?r - k) (?o + k)"
      using inv(2) off rem by (simp add: parser_abs_def)
    ultimately show ?thesis
      using run msg False k ws_run_payload [OF k(4), of ?r] by (simp add: abs)
  qed
qed


section \<open>A whole call\<close>

text \<open>What one call promises, over the bytes \<open>xs\<close> it was given and the \<open>used\<close> it consumed.\<close>

definition feed_spec ::
  "sockify_ws_parser \<Rightarrow> byte list \<Rightarrow> size_t \<Rightarrow> sockify_rc \<times> size_t \<times> sockify_ws_parser \<times> sockify_ws_message \<Rightarrow> bool" where
  "feed_spec p xs cap r =
     (case r of (rc, used, p', msg) \<Rightarrow>
        used \<le> length xs \<and>
        (case rc of
           SOCKIFY_OK \<Rightarrow>
             0 < used \<and> parser_inv p' \<and>
             ws_run (parser_abs p) (take used xs) = Some (parser_abs p', msg_events msg) \<and>
             m_payload_len msg = length (case m_payload msg of None \<Rightarrow> [] | Some d \<Rightarrow> d) \<and>
             m_payload_len msg \<le> cap \<and> m_payload_len msg \<le> used \<and>
             (m_payload msg = None \<longrightarrow> m_frame_complete msg) \<and> msg_events msg \<noteq> []
         | SOCKIFY_ERR_AGAIN \<Rightarrow>
             used = length xs \<and> parser_inv p' \<and> msg = zero_message \<and>
             ws_run (parser_abs p) xs = Some (parser_abs p', [])
         | SOCKIFY_ERR_PROTOCOL \<Rightarrow>
             0 < used \<and> msg = zero_message \<and> ws_run (parser_abs p) (take used xs) = None \<and>
             (\<exists>a. ws_run (parser_abs p) (take (used - 1) xs) = Some (a, []))
         | SOCKIFY_ERR_OVERFLOW \<Rightarrow>
             used < length xs \<and> parser_inv p' \<and> p_state p' = WS_STATE_PAYLOAD \<and>
             ws_run (parser_abs p) (take used xs) = Some (parser_abs p', []) \<and>
             (cap = 0 \<or> is_control_opcode (p_opcode p') \<and> cap < unat (p_payload_remaining p'))
         | _ \<Rightarrow> False))"

lemma feed_spec_step:
  assumes "ws_byte (parser_abs p) x = Some (parser_abs p1, [])"
    and "feed_spec p1 xs cap (rc, used, p', msg)"
  shows "feed_spec p (x # xs) cap (rc, Suc used, p', msg)"
  using assms by (cases rc; cases used) (auto simp: feed_spec_def)

lemma feed_spec_payload:
  assumes "parser_inv p" and "p_state p = WS_STATE_PAYLOAD"
    and "pos < length data" and "length data < size_lim" and "cap < size_lim"
  shows "case feed_payload p data (length data - pos) pos cap of
     (rc, used, p', msg) \<Rightarrow> pos \<le> used \<and> feed_spec p (drop pos data) cap (rc, used - pos, p', msg)"
proof (cases "cap = 0 \<or> is_control_opcode (p_opcode p) \<and> cap < unat (p_payload_remaining p)")
  case True
  have "unat (word_of_nat cap :: u64) = cap"
    using assms(5) by (simp add: size_lim_def unat_of_nat take_bit_nat_eq_self)
  with True have "feed_payload p data (length data - pos) pos cap = (SOCKIFY_ERR_OVERFLOW, pos, p, zero_message)"
    by (auto simp: feed_payload_def word_less_nat_alt)
  with True assms show ?thesis by (auto simp: feed_spec_def)
next
  case False
  define k where "k = min (min (length data - pos) cap) (unat (p_payload_remaining p))"
  have le: "k \<le> cap" "k \<le> length data - pos" by (simp_all add: k_def)
  from False have "0 < cap" "is_control_opcode (p_opcode p) \<longrightarrow> unat (p_payload_remaining p) \<le> cap"
    by auto
  from feed_payload_ok [OF assms this, folded k_def] obtain p' msg where
    "feed_payload p data (length data - pos) pos cap = (SOCKIFY_OK, pos + k, p', msg)"
    "0 < k" "parser_inv p'" "m_payload_len msg = k" "\<exists>d. m_payload msg = Some d \<and> length d = k"
    "ws_run (parser_abs p) (take k (drop pos data)) = Some (parser_abs p', msg_events msg)"
    by blast
  with le show ?thesis by (auto simp: feed_spec_def msg_events_def simp del: drop_drop)
qed

lemma feed_spec_again: "parser_inv p \<Longrightarrow> feed_spec p [] cap (SOCKIFY_ERR_AGAIN, 0, p, zero_message)"
  by (simp add: feed_spec_def)

lemma feed_spec_exit:
  assumes "step_ok p x (Inl (rc, p', msg))"
  shows "feed_spec p (x # xs) cap (rc, 1, p', msg)"
  using assms by (cases rc) (auto simp: step_ok_def feed_spec_def msg_events_def split: if_splits)

lemma feed_loop_spec:
  assumes "parser_inv p" and "pos \<le> length data" and "length data < size_lim" and "cap < size_lim"
  shows "case feed_loop data (length data) cap pos p of
     (rc, used, p', msg) \<Rightarrow> pos \<le> used \<and> feed_spec p (drop pos data) cap (rc, used - pos, p', msg)"
  using assms
proof (induction data "length data" cap pos p rule: feed_loop.induct)
  case (1 data cap pos p)
  show ?case
  proof (cases "p_state p = WS_STATE_PAYLOAD")
    case True
    show ?thesis
    proof (cases "pos < length data")
      case more: True
      have "feed_loop data (length data) cap pos p = feed_payload p data (length data - pos) pos cap"
        using True more "1.prems" by (simp add: feed_loop.simps [of data] sz_sub_id Let_def)
      then show ?thesis
        using feed_spec_payload [OF "1.prems"(1) True more "1.prems"(3,4)] by simp
    next
      case False
      then show ?thesis
        using True "1.prems" by (simp add: feed_loop.simps [of data] sz_sub_id Let_def feed_spec_again)
    qed
  next
    case hdr: False
    then have st: "p_state p \<in> {WS_STATE_HEADER_1, WS_STATE_HEADER_2, WS_STATE_EXT_LEN, WS_STATE_MASK}"
      using "1.prems"(1) by (auto simp: parser_inv_def)
    show ?thesis
    proof (cases "pos < length data")
      case more: True
      have step: "step_ok p (data ! pos) (feed_header_byte p (data ! pos))"
        using "1.prems"(1) hdr by (rule feed_header_byte_ok)
      have d: "drop pos data = data ! pos # drop (Suc pos) data" using more by (rule drop_nth_Cons)
      show ?thesis
      proof (cases "feed_header_byte p (data ! pos)")
        case (Inl e)
        obtain rc p' msg where e: "e = (rc, p', msg)" by (cases e)
        have "feed_loop data (length data) cap pos p = (rc, Suc pos, p', msg)"
          using more st Inl e by (simp add: feed_loop.simps [of data])
        then show ?thesis using step Inl e d feed_spec_exit by simp
      next
        case (Inr p1)
        have loop: "feed_loop data (length data) cap pos p = feed_loop data (length data) cap (Suc pos) p1"
          using more st Inr by (simp add: feed_loop.simps [of data _ _ pos])
        have p1: "parser_inv p1" "ws_byte (parser_abs p) (data ! pos) = Some (parser_abs p1, [])"
          using step Inr by (simp_all add: step_ok_def)
        obtain rc used p' msg where
          r: "feed_loop data (length data) cap (Suc pos) p1 = (rc, used, p', msg)"
          by (metis prod_cases4)
        then have "Suc pos \<le> used" "feed_spec p1 (drop (Suc pos) data) cap (rc, used - Suc pos, p', msg)"
          using "1.hyps" [of p1] more st Inr p1 "1.prems" by simp_all
        moreover from this(1) have "Suc (used - Suc pos) = used - pos" by simp
        ultimately show ?thesis
          using feed_spec_step [OF p1(2)] unfolding loop d r by fastforce
      qed
    next
      case False
      then show ?thesis
        using hdr "1.prems" by (simp add: feed_loop.simps [of data] feed_spec_again)
    qed
  qed
qed

lemma feed_refines:
  assumes "parser_inv p" and "length xs < size_lim" and "cap < size_lim"
  shows "\<exists>rc used p' msg. sockify_ws_parser_feed (Some p) (Some xs) (length xs) False cap =
      (rc, used, Some p', msg) \<and> feed_spec p xs cap (rc, used, p', msg)"
  using feed_loop_spec [OF assms(1) _ assms(2,3), of 0]
  by (auto simp: sockify_ws_parser_feed_def split: prod.splits)

end
