(* ===== verification/Ws_Stream.thy ===== *)
theory Ws_Stream
  imports Ws_Frame
begin

text \<open>
  Properties of the frame parser and writer of \<^verbatim>\<open>src/ws/ws_frame.c\<close> over whole streams. The
  parser is driven the way \<^verbatim>\<open>session_process_ws_bytes\<close> drives it, one segment per
  read; reference encoders and decoders of frames, written from RFC 6455 section 5.2, state the
  round trips.
\<close>

section \<open>Driving the parser over segments\<close>

text \<open>\<open>feed_all\<close> calls the parser on the rest of one segment until it asks for more data. The
  result holds the events of all messages handed out, also of those before an error return, and
  the error code or the parser.\<close>

function feed_all ::
  "sockify_ws_parser \<Rightarrow> byte list \<Rightarrow> size_t \<Rightarrow> ws_event list \<times> (sockify_rc + sockify_ws_parser)" where
  "feed_all p xs cap =
     (case sockify_ws_parser_feed (Some p) (Some xs) (length xs) False cap of
        (rc, used, Some p', msg) \<Rightarrow>
          if rc = SOCKIFY_ERR_AGAIN then ([], Inr p')
          else if rc = SOCKIFY_OK \<and> 0 < used \<and> xs \<noteq> [] then
            apfst ((@) (msg_events msg)) (feed_all p' (drop used xs) cap)
          else ([], Inl rc)
      | (rc, _) \<Rightarrow> ([], Inl rc))"
  by pat_completeness auto
termination
  by (relation "measure (\<lambda>(p, xs, cap). length xs)") auto

declare feed_all.simps [simp del]

fun feed_segments ::
  "sockify_ws_parser \<Rightarrow> byte list list \<Rightarrow> size_t \<Rightarrow> ws_event list \<times> (sockify_rc + sockify_ws_parser)" where
  "feed_segments p [] cap = ([], Inr p)"
| "feed_segments p (s # ss) cap =
     (case feed_all p s cap of
        (es, Inl rc) \<Rightarrow> (es, Inl rc)
      | (es, Inr p') \<Rightarrow> apfst ((@) es) (feed_segments p' ss cap))"

lemma control_fits:
  assumes "parser_inv p" and "p_state p = WS_STATE_PAYLOAD" and "is_control_opcode (p_opcode p)"
  shows "unat (p_payload_remaining p) \<le> 125"
  using assms by (auto simp: parser_inv_def parser_header_ok_def header_ok_def)

lemma ws_run_take_None: "ws_run a (take n xs) = None \<Longrightarrow> ws_run a xs = None"
  using ws_run_append [of a "take n xs" "drop n xs"] by simp

lemma ws_run_append_Some:
  "ws_run a xs = Some (a1, es) \<Longrightarrow> ws_run a (xs @ ys) = map_option (apsnd ((@) es)) (ws_run a1 ys)"
  by (auto simp: ws_run_append split: option.splits)

text \<open>The run of the automaton that keeps what was emitted before a rejected byte; the second component
  is \<open>None\<close> after a rejection.\<close>

fun ws_trace :: "ws_abs \<Rightarrow> byte list \<Rightarrow> ws_event list \<times> ws_abs option" where
  "ws_trace a [] = ([], Some a)"
| "ws_trace a (x # xs) =
     (case ws_byte a x of None \<Rightarrow> ([], None) | Some (a1, es) \<Rightarrow> apfst ((@) es) (ws_trace a1 xs))"

lemma apfst_append_append: "apfst ((@) xs) (apfst ((@) ys) r) = apfst ((@) (xs @ ys)) r"
  by (cases r) simp

lemma apfst_append_Nil [simp]: "apfst ((@) []) r = r"
  by (cases r) simp

lemma ws_trace_run:
  "ws_run a xs = Some (a1, es) \<Longrightarrow> ws_trace a (xs @ ys) = apfst ((@) es) (ws_trace a1 ys)"
  by (induction xs arbitrary: a es) (auto simp: apfst_append_append split: option.splits)

lemma ws_trace_run_all: "ws_run a xs = Some (a1, es) \<Longrightarrow> ws_trace a xs = (es, Some a1)"
  using ws_trace_run [of a xs a1 es "[]"] by simp

lemma ws_trace_append:
  "ws_trace a (xs @ ys) =
     (case ws_trace a xs of (es, None) \<Rightarrow> (es, None) | (es, Some a1) \<Rightarrow> apfst ((@) es) (ws_trace a1 ys))"
  by (induction xs arbitrary: a)
    (auto simp: apfst_append_append split: option.splits prod.splits)

lemma ws_trace_reject:
  assumes "ws_run a (take (n - 1) xs) = Some (a1, es)" and "ws_run a (take n xs) = None"
  shows "ws_trace a xs = (es, None)"
proof -
  have n: "0 < n" "n \<le> length xs"
    using assms by (cases n; cases "n - 1 < length xs"; simp)+
  then obtain x where x: "take n xs = take (n - 1) xs @ [x]"
    using take_Suc_conv_app_nth [of "n - 1" xs] by auto
  with assms have "ws_byte a1 x = None"
    by (auto simp: ws_run_append split: option.splits)
  moreover have "xs = take (n - 1) xs @ x # drop n xs"
    using x by (metis append.assoc append_Cons append_Nil append_take_drop_id)
  ultimately show ?thesis using ws_trace_run [OF assms(1), of "x # drop n xs"] by simp
qed

text \<open>The relation between what the driver returns and a run of the automaton: the same events and the
  same outcome, unless the payload array was too small. What was decoded then is the beginning.\<close>

definition run_matches ::
  "ws_event list \<times> (sockify_rc + sockify_ws_parser) \<Rightarrow> ws_event list \<times> ws_abs option \<Rightarrow> bool" where
  "run_matches r s =
     (case (r, s) of
        ((es, Inl rc), (es', q)) \<Rightarrow>
          rc = SOCKIFY_ERR_PROTOCOL \<and> es = es' \<and> q = None \<or> rc = SOCKIFY_ERR_OVERFLOW \<and> (\<exists>zs. es' = es @ zs)
      | ((es, Inr p'), (es', q)) \<Rightarrow> es = es' \<and> parser_inv p' \<and> q = Some (parser_abs p'))"

lemma run_matches_prepend:
  "run_matches r s \<Longrightarrow> run_matches (apfst ((@) es) r) (apfst ((@) es) s)"
  by (auto simp: run_matches_def split: sum.splits)

lemma run_matches_failed:
  assumes "run_matches (es, Inl rc) (ws_trace a xs)"
  shows "run_matches (es, Inl rc) (ws_trace a (xs @ ys))"
proof -
  obtain es1 q where x: "ws_trace a xs = (es1, q)" by fastforce
  obtain es2 q2 where "ws_trace (the q) ys = (es2, q2)" by fastforce
  with x assms show ?thesis by (cases q) (auto simp: run_matches_def ws_trace_append)
qed

lemma feed_all_run:
  assumes "parser_inv p" and "length xs < size_lim" and "cap < size_lim"
  shows "run_matches (feed_all p xs cap) (ws_trace (parser_abs p) xs) \<and>
    (125 \<le> cap \<longrightarrow> snd (feed_all p xs cap) \<noteq> Inl SOCKIFY_ERR_OVERFLOW)"
  using assms
proof (induction p xs cap rule: feed_all.induct)
  case (1 p xs cap)
  obtain rc used p' msg where
    feed: "sockify_ws_parser_feed (Some p) (Some xs) (length xs) False cap = (rc, used, Some p', msg)"
    and spec: "feed_spec p xs cap (rc, used, p', msg)"
    using feed_refines [OF "1.prems"] by blast
  consider "rc = SOCKIFY_OK" | "rc = SOCKIFY_ERR_AGAIN" | "rc = SOCKIFY_ERR_PROTOCOL" | "rc = SOCKIFY_ERR_OVERFLOW"
    using spec by (cases rc) (simp_all add: feed_spec_def)
  then show ?case
  proof cases
    case 1
    with spec have s: "0 < used" "used \<le> length xs" "parser_inv p'"
      "ws_run (parser_abs p) (take used xs) = Some (parser_abs p', msg_events msg)"
      by (simp_all add: feed_spec_def)
    then have "xs \<noteq> []" by auto
    then have "feed_all p xs cap = apfst ((@) (msg_events msg)) (feed_all p' (drop used xs) cap)"
      using feed 1 s by (simp add: feed_all.simps [of p])
    moreover have "run_matches (feed_all p' (drop used xs) cap) (ws_trace (parser_abs p') (drop used xs)) \<and>
        (125 \<le> cap \<longrightarrow> snd (feed_all p' (drop used xs) cap) \<noteq> Inl SOCKIFY_ERR_OVERFLOW)"
      using "1.IH" [OF feed [symmetric] refl refl refl] 1 s \<open>xs \<noteq> []\<close> "1.prems" by simp
    ultimately show ?thesis
      using ws_trace_run [OF s(4), of "drop used xs"] run_matches_prepend by simp
  next
    case 2
    with spec feed show ?thesis
      by (simp add: feed_all.simps [of p] feed_spec_def run_matches_def ws_trace_run_all)
  next
    case 3
    with spec have "ws_trace (parser_abs p) xs = ([], None)"
      by (auto simp: feed_spec_def intro: ws_trace_reject)
    with 3 feed show ?thesis by (simp add: feed_all.simps [of p] run_matches_def)
  next
    case 4
    with spec control_fits [of p'] have "\<not> 125 \<le> cap" by (auto simp: feed_spec_def)
    with 4 feed show ?thesis by (simp add: feed_all.simps [of p] run_matches_def split: prod.split)
  qed
qed

lemma feed_segments_run:
  assumes "parser_inv p" and "\<forall>s \<in> set ss. length s < size_lim" and "cap < size_lim"
  shows "run_matches (feed_segments p ss cap) (ws_trace (parser_abs p) (concat ss)) \<and>
    (125 \<le> cap \<longrightarrow> snd (feed_segments p ss cap) \<noteq> Inl SOCKIFY_ERR_OVERFLOW)"
  using assms
proof (induction ss arbitrary: p)
  case Nil
  then show ?case by (simp add: run_matches_def)
next
  case (Cons s ss)
  have all: "run_matches (feed_all p s cap) (ws_trace (parser_abs p) s)"
    "125 \<le> cap \<longrightarrow> snd (feed_all p s cap) \<noteq> Inl SOCKIFY_ERR_OVERFLOW"
    using feed_all_run Cons.prems by simp_all
  obtain es r where f: "feed_all p s cap = (es, r)" by fastforce
  show ?case
  proof (cases r)
    case (Inl rc)
    with all f run_matches_failed [of es rc _ s "concat ss"] show ?thesis by simp
  next
    case (Inr p')
    with all f have p': "ws_trace (parser_abs p) s = (es, Some (parser_abs p'))" "parser_inv p'"
      by (simp_all add: run_matches_def split: prod.splits)
    from run_matches_prepend [of "feed_segments p' ss cap" _ es] show ?thesis
      using f Inr Cons.IH [OF p'(2)] Cons.prems p'(1) by (simp add: ws_trace_append)
  qed
qed

lemma parser_init_abs:
  obtains p where "sockify_ws_parser_init (Some q) = Some p" and "parser_inv p" and "parser_abs p = A_Head1 0"
  by (simp add: sockify_ws_parser_init_def zero_parser_def parser_inv_def parser_abs_def)

section \<open>Frames of a client\<close>

fun be_bytes :: "nat \<Rightarrow> nat \<Rightarrow> byte list" where
  "be_bytes 0 v = []"
| "be_bytes (Suc k) v = be_bytes k (v div 256) @ [word_of_nat v]"

lemma length_be_bytes [simp]: "length (be_bytes k v) = k"
  by (induction k v rule: be_bytes.induct) simp_all

lemma unat_byte_of_nat [simp]: "unat (word_of_nat v :: byte) = v mod 256"
  by (simp add: unat_of_nat take_bit_eq_mod)

lemma be_value_be_bytes: "v < 256 ^ k \<Longrightarrow> be_value (be_bytes k v) = v"
proof (induction k v rule: be_bytes.induct)
  case (1 v)
  then show ?case by (simp add: be_value_def)
next
  case (2 k v)
  then show ?case by (simp add: less_mult_imp_div_less mult.commute)
qed

text \<open>The frame with the given fin bit, opcode, masking key and payload, in the shortest length
  encoding.\<close>

definition frame_head :: "bool \<Rightarrow> u32 \<Rightarrow> byte" where
  "frame_head fin op = (if fin then 0x80 else 0) OR take_bit 4 (ucast op)"

definition frame_length :: "bool \<Rightarrow> nat \<Rightarrow> byte list" where
  "frame_length masked n =
     (let m = (if masked then 0x80 else 0) :: byte in
      if n \<le> 125 then [m OR word_of_nat n]
      else if n \<le> 65535 then (m OR 126) # be_bytes 2 n
      else (m OR 127) # be_bytes 8 n)"

definition client_frame :: "bool \<Rightarrow> u32 \<Rightarrow> byte list \<Rightarrow> byte list \<Rightarrow> byte list" where
  "client_frame fin op key payload =
     frame_head fin op # frame_length True (length payload) @ key @ unmask key 0 payload"

lemma ws_run_Cons: "ws_byte a x = Some (a1, []) \<Longrightarrow> ws_run a (x # xs) = ws_run a1 xs"
  by (simp split: option.splits)

lemma bit_7_or: "bit ((0x80 :: byte) OR x) 7" "\<not> bit (take_bit 7 x :: byte) 7"
  by (simp_all add: bit_simps)

lemma take_7_or: "take_bit 7 ((0x80 :: byte) OR x) = take_bit 7 x"
  by (rule bit_word_eqI) (auto simp: bit_simps)

lemma rfc_opcode_cases: "rfc_opcode op \<longleftrightarrow> op = 0 \<or> op = 1 \<or> op = 2 \<or> op = 8 \<or> op = 9 \<or> op = 10"
  by (auto simp: rfc_opcode_def word_unat_eq_iff)

lemma ws_byte_head:
  assumes "rfc_opcode op"
  shows "ws_byte (A_Head1 frag) (frame_head fin op) = Some (A_Head2 fin op frag, [])"
  using assms by (cases fin) (auto simp: rfc_opcode_cases frame_head_def bit_simps Let_def)

lemma ws_run_ext_prefix:
  "length acc + length bs < needed \<Longrightarrow>
     ws_run (A_Ext fin op frag needed acc) bs = Some (A_Ext fin op frag needed (acc @ bs), [])"
  by (induction bs arbitrary: acc) (simp_all add: Let_def)

lemma ws_run_ext:
  assumes "bs \<noteq> []" and "length bs = needed"
  shows "ws_run (A_Ext fin op frag needed []) (bs @ xs) =
     (if length_ok needed (be_value bs) \<and> header_ok fin op frag (be_value bs)
      then ws_run (A_Mask fin op frag (be_value bs) []) xs else None)"
proof -
  obtain cs b where bs: "bs = cs @ [b]" using assms(1) by (cases bs rule: rev_cases) auto
  have "ws_run (A_Ext fin op frag needed []) cs = Some (A_Ext fin op frag needed cs, [])"
    using ws_run_ext_prefix [of "[]" cs needed] assms(2) bs by simp
  from ws_run_append_Some [OF this, of "b # xs"] show ?thesis
    using assms(2) bs by (auto simp: Let_def simp del: be_value_snoc split: option.splits)
qed

lemma ws_run_frame_length:
  assumes "header_ok fin op frag n" and "n < 2 ^ 63"
  shows "ws_run (A_Head2 fin op frag) (frame_length True n @ xs) = ws_run (A_Mask fin op frag n []) xs"
proof -
  have small: "n \<le> 125 \<Longrightarrow> unat (take_bit 7 (word_of_nat n :: byte)) = n"
    by (simp add: unsigned_take_bit_eq take_bit_nat_eq_self)
  consider "n \<le> 125" | "125 < n" "n \<le> 65535" | "65535 < n" by linarith
  then show ?thesis
  proof cases
    case 1
    with assms small show ?thesis
      by (simp add: frame_length_def ws_run_Cons Let_def bit_7_or take_7_or del: ws_run.simps)
  next
    case 2
    then have "be_value (be_bytes 2 n) = n" by (intro be_value_be_bytes) simp
    then have "ws_run (A_Ext fin op frag 2 []) (be_bytes 2 n @ xs) = ws_run (A_Mask fin op frag n []) xs"
      using ws_run_ext [of "be_bytes 2 n" 2 fin op frag xs] assms 2
      by (simp add: length_ok_def flip: length_greater_0_conv)
    with 2 show ?thesis
      by (simp add: frame_length_def ws_run_Cons Let_def del: be_bytes.simps ws_run.simps)
  next
    case 3
    have "be_value (be_bytes 8 n) = n" using assms(2) by (intro be_value_be_bytes) simp
    then have "ws_run (A_Ext fin op frag 8 []) (be_bytes 8 n @ xs) = ws_run (A_Mask fin op frag n []) xs"
      using ws_run_ext [of "be_bytes 8 n" 8 fin op frag xs] assms 3
      by (simp add: length_ok_def flip: length_greater_0_conv)
    with 3 show ?thesis
      by (simp add: frame_length_def ws_run_Cons Let_def del: be_bytes.simps ws_run.simps)
  qed
qed

lemma ws_run_mask:
  assumes "length key = 4"
  shows "ws_run (A_Mask fin op frag n []) (key @ unmask key 0 payload) =
     (if n = 0 then map_option (apsnd (Cons (Ev_end fin op)))
        (ws_run (A_Head1 (next_frag fin op frag)) (unmask key 0 payload))
      else ws_run (A_Payload fin op frag key n 0) (unmask key 0 payload))"
proof -
  obtain a b c d where "key = [a, b, c, d]"
    using assms by (auto simp: eval_nat_numeral length_Suc_conv)
  then show ?thesis by (auto simp: Let_def split: option.splits)
qed

lemma ws_run_client_frame:
  assumes "rfc_opcode op" and "header_ok fin op frag (length payload)" and "length key = 4"
    and "length payload < 2 ^ 63"
  shows "ws_run (A_Head1 frag) (client_frame fin op key payload) =
     Some (A_Head1 (next_frag fin op frag), map (Ev_byte op) payload @ [Ev_end fin op])"
proof -
  have "ws_run (A_Head1 frag) (client_frame fin op key payload) =
      ws_run (A_Mask fin op frag (length payload) []) (key @ unmask key 0 payload)"
    unfolding client_frame_def
    by (simp only: ws_run_Cons [OF ws_byte_head [OF assms(1)]] ws_run_frame_length [OF assms(2,4)])
  also have "\<dots> = Some (A_Head1 (next_frag fin op frag), map (Ev_byte op) payload @ [Ev_end fin op])"
  proof (cases "payload = []")
    case False
    then have "unmask key 0 payload \<noteq> []" by (metis length_unmask length_0_conv)
    from ws_run_payload [OF this, of "length payload"] False show ?thesis
      by (simp add: ws_run_mask [OF assms(3)] unmask_unmask)
  qed (use ws_run_mask [OF assms(3), of fin op frag 0 "[]"] in simp)
  finally show ?thesis .
qed


text \<open>Sequences of frames, well formed one after the other under the fragmentation rules.\<close>

record frame =
  f_fin :: bool
  f_opcode :: u32
  f_key :: "byte list"
  f_payload :: "byte list"

definition frame_bytes :: "frame \<Rightarrow> byte list" where
  "frame_bytes f = client_frame (f_fin f) (f_opcode f) (f_key f) (f_payload f)"

definition frame_events :: "frame \<Rightarrow> ws_event list" where
  "frame_events f = map (Ev_byte (f_opcode f)) (f_payload f) @ [Ev_end (f_fin f) (f_opcode f)]"

fun frames_ok :: "u32 \<Rightarrow> frame list \<Rightarrow> bool" where
  "frames_ok frag [] \<longleftrightarrow> True"
| "frames_ok frag (f # fs) \<longleftrightarrow>
     rfc_opcode (f_opcode f) \<and> header_ok (f_fin f) (f_opcode f) frag (length (f_payload f)) \<and>
     length (f_key f) = 4 \<and> length (f_payload f) < 2 ^ 63 \<and>
     frames_ok (next_frag (f_fin f) (f_opcode f) frag) fs"

lemma ws_run_frames:
  "frames_ok frag fs \<Longrightarrow>
     \<exists>frag'. ws_run (A_Head1 frag) (concat (map frame_bytes fs)) =
       Some (A_Head1 frag', concat (map frame_events fs))"
proof (induction fs arbitrary: frag)
  case (Cons f fs)
  then have "ws_run (A_Head1 frag) (frame_bytes f) =
      Some (A_Head1 (next_frag (f_fin f) (f_opcode f) frag), frame_events f)"
    by (simp add: frame_bytes_def frame_events_def ws_run_client_frame)
  moreover obtain frag' where
    "ws_run (A_Head1 (next_frag (f_fin f) (f_opcode f) frag)) (concat (map frame_bytes fs)) =
       Some (A_Head1 frag', concat (map frame_events fs))"
    using Cons by auto
  ultimately show ?case by (simp add: ws_run_append_Some)
qed simp

lemma parser_abs_head1: "parser_inv p \<Longrightarrow> (parser_abs p = A_Head1 frag) = (p_state p = WS_STATE_HEADER_1 \<and> p_fragmented_opcode p = frag)"
  by (auto simp: parser_abs_def)

section \<open>Properties of the parser\<close>

text \<open>
  Property C3. One call of \<^verbatim>\<open>sockify_ws_parser_feed\<close>, with any split of the stream and any
  payload capacity, is a run of the RFC 6455 automaton over exactly the bytes it reports used.
  It never reads past the input nor stores more than the capacity; \<open>SOCKIFY_OK\<close> always makes
  progress and carries unmasked bytes or the end of a frame, \<open>SOCKIFY_ERR_AGAIN\<close> means the whole
  input was taken without output, \<open>SOCKIFY_ERR_PROTOCOL\<close> that the automaton, having emitted nothing,
  rejects the last byte used, and
  \<open>SOCKIFY_ERR_OVERFLOW\<close> that the payload array is empty or a control payload does not fit.
\<close>

theorem ws_feed_refines_automaton:
  assumes "parser_inv p" and "length xs < size_lim" and "cap < size_lim"
  shows "\<exists>rc used p' msg. sockify_ws_parser_feed (Some p) (Some xs) (length xs) False cap =
      (rc, used, Some p', msg) \<and> feed_spec p xs cap (rc, used, p', msg)"
  using assms by (rule feed_refines)

text \<open>A masked text frame carrying \<open>[72, 105]\<close>, delivered in two pieces.\<close>

definition demo_frame :: "byte list" where
  "demo_frame = client_frame True SOCKIFY_WS_OPCODE_TEXT [1, 2, 3, 4] [72, 105]"

lemma zero_parser_inv: "parser_inv zero_parser"
  by (simp add: zero_parser_def parser_inv_def)

theorem ws_feed_refines_automaton_witness:
  "\<exists>rc used p' msg. sockify_ws_parser_feed (Some zero_parser) (Some demo_frame) (length demo_frame) False 16 =
      (rc, used, Some p', msg) \<and> feed_spec zero_parser demo_frame 16 (rc, used, p', msg)"
proof (rule ws_feed_refines_automaton [OF zero_parser_inv])
  show "length demo_frame < size_lim"
    by (simp add: demo_frame_def client_frame_def frame_length_def size_lim_def Let_def)
qed (simp add: size_lim_def)

text \<open>
  Property C2. Every sequence of well-formed client frames, cut into reads anywhere, is decoded
  to exactly its payload bytes and frame ends, in order; the parser ends between frames. The
  payload array need only hold a control frame (125 bytes).
\<close>

theorem ws_client_frames_roundtrip:
  assumes "frames_ok 0 fs" and "concat ss = concat (map frame_bytes fs)"
    and "\<forall>s \<in> set ss. length s < size_lim" and "125 \<le> cap" and "cap < size_lim"
  shows "\<exists>p p'. sockify_ws_parser_init (Some q) = Some p \<and>
     feed_segments p ss cap = (concat (map frame_events fs), Inr p') \<and>
     parser_inv p' \<and> p_state p' = WS_STATE_HEADER_1"
proof -
  obtain p where p: "sockify_ws_parser_init (Some q) = Some p" "parser_inv p" "parser_abs p = A_Head1 0"
    by (rule parser_init_abs)
  obtain frag where "ws_run (A_Head1 0) (concat ss) = Some (A_Head1 frag, concat (map frame_events fs))"
    using ws_run_frames [OF assms(1)] assms(2) by auto
  from ws_trace_run_all [OF this] obtain p' where
    "feed_segments p ss cap = (concat (map frame_events fs), Inr p')" "parser_inv p'" "A_Head1 frag = parser_abs p'"
    using feed_segments_run [OF p(2) assms(3,5)] assms(4) p
    by (auto simp: run_matches_def split: prod.splits sum.splits)
  then show ?thesis using p(1) parser_abs_head1 by metis
qed

definition demo_frames :: "frame list" where
  "demo_frames =
     [\<lparr>f_fin = False, f_opcode = SOCKIFY_WS_OPCODE_BINARY, f_key = [1, 2, 3, 4], f_payload = [10, 20]\<rparr>,
      \<lparr>f_fin = True, f_opcode = SOCKIFY_WS_OPCODE_PING, f_key = [9, 9, 9, 9], f_payload = []\<rparr>,
      \<lparr>f_fin = True, f_opcode = SOCKIFY_WS_OPCODE_CONTINUATION, f_key = [5, 6, 7, 8], f_payload = [30]\<rparr>]"

theorem ws_client_frames_roundtrip_witness:
  "\<exists>p p'. sockify_ws_parser_init (Some zero_parser) = Some p \<and>
     feed_segments p (map (\<lambda>x. [x]) (concat (map frame_bytes demo_frames))) 125 =
       (concat (map frame_events demo_frames), Inr p') \<and>
     parser_inv p' \<and> p_state p' = WS_STATE_HEADER_1"
proof (rule ws_client_frames_roundtrip)
  show "frames_ok 0 demo_frames"
    by (simp add: demo_frames_def rfc_opcode_def header_ok_def rfc_control_def next_frag_def)
qed (auto simp: size_lim_def concat_map_singleton)

text \<open>What a caller sees of a decoded stream: the events, and the error code or the parser.\<close>

definition observed :: "ws_event list \<times> (sockify_rc + sockify_ws_parser) \<Rightarrow> ws_event list \<times> (sockify_rc + ws_abs)" where
  "observed r = apsnd (map_sum id parser_abs) r"

text \<open>
  Property C4. What the parser decodes, and whether and how it rejects the stream, depends only on the
  bytes. Cut a stream into reads in two ways and decode it with two payload capacities: unless one of
  the two ends with \<open>SOCKIFY_ERR_OVERFLOW\<close>, both hand out the same events, those before a rejected
  byte included, and both end with the same error code or the same abstract parser state. A capacity of
  at least 125, the largest control payload, never overflows; if a smaller one does, what it had
  handed out is the beginning of what the other one hands out.
\<close>

theorem ws_segmentation_independent:
  assumes "parser_inv p" and "concat ss = concat ts"
    and "\<forall>s \<in> set ss \<union> set ts. length s < size_lim" and "cap < size_lim" and "cap' < size_lim"
  shows "(125 \<le> cap \<longrightarrow> snd (feed_segments p ss cap) \<noteq> Inl SOCKIFY_ERR_OVERFLOW) \<and>
    (snd (feed_segments p ts cap') \<noteq> Inl SOCKIFY_ERR_OVERFLOW \<longrightarrow>
       (if snd (feed_segments p ss cap) = Inl SOCKIFY_ERR_OVERFLOW
        then \<exists>es. fst (feed_segments p ts cap') = fst (feed_segments p ss cap) @ es
        else observed (feed_segments p ss cap) = observed (feed_segments p ts cap')))"
proof -
  let ?w = "ws_trace (parser_abs p) (concat ss)"
  have "run_matches (feed_segments p ss cap) ?w" "run_matches (feed_segments p ts cap') ?w"
    "125 \<le> cap \<longrightarrow> snd (feed_segments p ss cap) \<noteq> Inl SOCKIFY_ERR_OVERFLOW"
    using feed_segments_run [OF assms(1), of ss cap] feed_segments_run [OF assms(1), of ts cap'] assms
    by auto
  moreover obtain es r where "feed_segments p ss cap = (es, r)" by fastforce
  moreover obtain es' r' where "feed_segments p ts cap' = (es', r')" by fastforce
  moreover obtain es0 q where "?w = (es0, q)" by fastforce
  ultimately show ?thesis by (cases r; cases r') (auto simp: run_matches_def observed_def)
qed

text \<open>A good frame followed by one with a reserved bit, whole or cut inside the first frame.\<close>

theorem ws_segmentation_independent_witness:
  "observed (feed_segments zero_parser [demo_frame @ [0xff]] 200) =
   observed (feed_segments zero_parser [take 3 demo_frame, drop 3 demo_frame, [0xff]] 125)"
proof -
  define ss where "ss = [demo_frame @ [0xff]]"
  define ts where "ts = [take 3 demo_frame, drop 3 demo_frame, [0xff]]"
  have n: "\<forall>s \<in> set ss \<union> set ts. length s < size_lim"
    by (simp add: ss_def ts_def demo_frame_def client_frame_def frame_length_def size_lim_def Let_def)
  have c: "concat ss = concat ts" by (simp add: ss_def ts_def)
  have "snd (feed_segments zero_parser ts 125) \<noteq> Inl SOCKIFY_ERR_OVERFLOW"
    using ws_segmentation_independent [OF zero_parser_inv c [symmetric], of 125 200] n by (auto simp: size_lim_def)
  then show ?thesis
    using ws_segmentation_independent [OF zero_parser_inv c n, of 200 125] by (simp add: size_lim_def flip: ss_def ts_def)
qed

text \<open>The length of the extended length, and what RFC 6455 sections 5.2, 5.4 and 5.5 forbid in a header,
  for a message in progress with opcode \<open>frag\<close> (0 for none).\<close>

definition ext_length :: "byte \<Rightarrow> nat" where
  "ext_length y = (if unat (take_bit 7 y) = 126 then 2 else if unat (take_bit 7 y) = 127 then 8 else 0)"

definition bad_header :: "u32 \<Rightarrow> byte \<Rightarrow> byte \<Rightarrow> byte list \<Rightarrow> bool" where
  "bad_header frag x y ext \<longleftrightarrow>
     (let op = ucast (take_bit 4 x) :: u32; n7 = unat (take_bit 7 y);
          n = (if n7 \<le> 125 then n7 else be_value ext)
      in bit x 4 \<or> bit x 5 \<or> bit x 6 \<or> \<not> rfc_opcode op \<or> \<not> bit y 7 \<or>
         n7 = 126 \<and> n < 126 \<or> n7 = 127 \<and> (n < 65536 \<or> 2 ^ 63 \<le> n) \<or>
         rfc_control op \<and> (\<not> bit x 7 \<or> 125 < n) \<or>
         \<not> rfc_control op \<and> op = SOCKIFY_WS_OPCODE_CONTINUATION \<and> frag = 0 \<or>
         \<not> rfc_control op \<and> op \<noteq> SOCKIFY_WS_OPCODE_CONTINUATION \<and> frag \<noteq> 0)"

lemma header_run:
  assumes "length ext = ext_length y"
  shows "if bad_header frag x y ext then ws_run (A_Head1 frag) (x # y # ext) = None
    else \<exists>n. ws_run (A_Head1 frag) (x # y # ext) = Some (A_Mask (bit x 7) (ucast (take_bit 4 x)) frag n [], [])"
proof (cases "ext = []")
  case True
  then have "unat (take_bit 7 y) \<noteq> 126" "unat (take_bit 7 y) \<noteq> 127"
    using assms by (auto simp: ext_length_def split: if_splits)
  moreover have "unat (take_bit 7 y) < 2 ^ 7"
    unfolding unsigned_take_bit_eq by (rule take_bit_nat_less_exp)
  ultimately show ?thesis using True by (auto simp: bad_header_def header_ok_def Let_def)
next
  case False
  note e = ws_run_ext [OF False, of "ext_length y" _ _ _ "[]", simplified]
  have "unat (take_bit 7 y) = 126 \<or> unat (take_bit 7 y) = 127"
    using assms False by (auto simp: ext_length_def split: if_splits)
  then show ?thesis
    using e assms by (auto simp: bad_header_def header_ok_def length_ok_def ext_length_def Let_def)
qed

lemma header_prefix_run:
  assumes "length ext = ext_length y" and "k < length (x # y # ext)"
    and "ws_run (A_Head1 frag) (take k (x # y # ext)) = Some (a, es)"
  shows "es = [] \<and> (\<forall>fin op g key n off. a \<noteq> A_Payload fin op g key n off)"
proof -
  consider "k = 0" | "k = 1" | j where "k = Suc (Suc j)" by (metis One_nat_def not0_implies_Suc)
  then show ?thesis
  proof cases
    case (3 j)
    with assms(2) have j: "j < ext_length y" using assms(1) by simp
    then have "ws_run (A_Ext fin op frag (ext_length y) []) (take j ext) =
        Some (A_Ext fin op frag (ext_length y) (take j ext), [])" for fin op
      using ws_run_ext_prefix [of "[]" "take j ext" "ext_length y"] assms(1) by simp
    with 3 j assms(3) show ?thesis
      by (auto simp: ext_length_def Let_def split: if_splits)
  qed (use assms(3) in \<open>auto simp: Let_def split: if_splits\<close>)
qed

lemma bad_header_run:
  assumes "parser_inv p" and "p_state p = WS_STATE_HEADER_1" and "length ext = ext_length y"
    and "length (x # y # ext @ xs) < size_lim" and "cap < size_lim"
    and bad: "bad_header (p_fragmented_opcode p) x y ext"
  shows "\<exists>used p'. used \<le> 2 + length ext \<and>
     sockify_ws_parser_feed (Some p) (Some (x # y # ext @ xs)) (length (x # y # ext @ xs)) False cap =
       (SOCKIFY_ERR_PROTOCOL, used, Some p', zero_message)"
proof -
  let ?h = "x # y # ext"
  have abs: "parser_abs p = A_Head1 (p_fragmented_opcode p)" using assms(2) by (simp add: parser_abs_def)
  note run = header_run [OF assms(3), of "p_fragmented_opcode p" x]
    and prefix = header_prefix_run [OF assms(3), of _ x "p_fragmented_opcode p"]
  let ?d = "?h @ xs"
  have "length ?d < size_lim" using assms(4) by simp
  from feed_refines [OF assms(1) this assms(5)] obtain rc used p' msg where
    feed: "sockify_ws_parser_feed (Some p) (Some ?d) (length ?d) False cap = (rc, used, Some p', msg)"
    and spec: "feed_spec p ?d cap (rc, used, p', msg)" by blast
  have None: "ws_run (parser_abs p) (take k ?d) = None" if "length ?h \<le> k" for k
  proof -
    have "take k ?d = ?h @ take (k - length ?h) xs" by (simp only: take_append take_all [OF that])
    then show ?thesis using run bad abs by (simp only: ws_run_append) simp
  qed
  have short: "k < length ?h" "take k ?d = take k ?h" if "ws_run (parser_abs p) (take k ?d) = Some r" for k r
  proof -
    show "k < length ?h" using None [of k] that by fastforce
    then have "k - length ?h = 0" by simp
    then show "take k ?d = take k ?h" by (simp only: take_append take_0 append_Nil2)
  qed
  have "rc = SOCKIFY_ERR_PROTOCOL"
  proof (cases rc)
    case SOCKIFY_OK
    with spec have "ws_run (parser_abs p) (take used ?d) = Some (parser_abs p', msg_events msg)" "msg_events msg \<noteq> []"
      by (simp_all add: feed_spec_def)
    with short [of used] prefix [of used] show ?thesis by (simp add: abs)
  next
    case SOCKIFY_ERR_AGAIN
    with spec None [of "length ?d"] show ?thesis by (simp add: feed_spec_def)
  next
    case SOCKIFY_ERR_OVERFLOW
    with spec have "ws_run (parser_abs p) (take used ?d) = Some (parser_abs p', [])" "p_state p' = WS_STATE_PAYLOAD"
      by (simp_all add: feed_spec_def)
    with short [of used] prefix [of used] show ?thesis by (auto simp: abs parser_abs_def [of p'])
  qed (use spec in \<open>simp_all add: feed_spec_def\<close>)
  moreover from this spec obtain a where "0 < used" "msg = zero_message"
    "ws_run (parser_abs p) (take (used - 1) ?d) = Some (a, [])" by (auto simp: feed_spec_def)
  moreover from short(1) [OF this(3)] this(1) have "used \<le> 2 + length ext" by simp
  ultimately show ?thesis using feed by simp
qed

lemma good_header_run:
  assumes "parser_inv p" and "p_state p = WS_STATE_HEADER_1" and "length ext = ext_length y"
    and "length (x # y # ext @ xs) < size_lim" and "cap < size_lim"
    and good: "\<not> bad_header (p_fragmented_opcode p) x y ext"
  shows "\<exists>p'. sockify_ws_parser_feed (Some p) (Some (x # y # ext)) (length (x # y # ext)) False cap =
     (SOCKIFY_ERR_AGAIN, 2 + length ext, Some p', zero_message)"
proof -
  let ?h = "x # y # ext"
  have abs: "parser_abs p = A_Head1 (p_fragmented_opcode p)" using assms(2) by (simp add: parser_abs_def)
  note run = header_run [OF assms(3), of "p_fragmented_opcode p" x]
    and prefix = header_prefix_run [OF assms(3), of _ x "p_fragmented_opcode p"]
  have "length ?h < size_lim" using assms(4) by simp
  from feed_refines [OF assms(1) this assms(5)] obtain rc used p' msg where
    feed: "sockify_ws_parser_feed (Some p) (Some ?h) (length ?h) False cap = (rc, used, Some p', msg)"
    and spec: "feed_spec p ?h cap (rc, used, p', msg)" by blast
  obtain n where whole: "ws_run (parser_abs p) ?h = Some (A_Mask (bit x 7) (ucast (take_bit 4 x)) (p_fragmented_opcode p) n [], [])"
    using run good abs by auto
  have part: "es = [] \<and> (\<forall>fin op g key n off. a \<noteq> A_Payload fin op g key n off)"
    if "ws_run (parser_abs p) (take k ?h) = Some (a, es)" for k a es
    using that prefix [of k a es] whole abs by (cases "k < length ?h") (auto simp del: ws_run.simps)
  have "rc = SOCKIFY_ERR_AGAIN"
  proof (cases rc)
    case SOCKIFY_OK
    with spec part [of used] show ?thesis by (simp add: feed_spec_def)
  next
    case SOCKIFY_ERR_PROTOCOL
    with spec ws_run_take_None [of "parser_abs p" used ?h] whole show ?thesis by (simp add: feed_spec_def)
  next
    case SOCKIFY_ERR_OVERFLOW
    with spec part [of used "parser_abs p'" "[]"] show ?thesis by (auto simp: feed_spec_def parser_abs_def [of p'])
  qed (use spec in \<open>simp_all add: feed_spec_def\<close>)
  with spec feed show ?thesis by (simp add: feed_spec_def)
qed

text \<open>
  Property C8. The header of a frame, its first two bytes and the two or eight bytes of an extended
  length, is accepted exactly if it obeys RFC 6455. If it has a reserved bit, a reserved opcode, no
  mask, a length that is not in its shortest form or not below \<open>2 ^ 63\<close>, if it is a control frame that
  is fragmented or longer than 125 bytes, a data frame inside an unfinished message or a continuation
  without one, the call returns \<open>SOCKIFY_ERR_PROTOCOL\<close> within the header, whatever follows and without
  a message. Otherwise the header alone is taken completely and more bytes are asked for.
\<close>

theorem ws_bad_header_rejected:
  assumes "parser_inv p" and "p_state p = WS_STATE_HEADER_1" and "length ext = ext_length y"
    and "length (x # y # ext @ xs) < size_lim" and "cap < size_lim"
  shows "if bad_header (p_fragmented_opcode p) x y ext
    then \<exists>used p'. used \<le> 2 + length ext \<and>
       sockify_ws_parser_feed (Some p) (Some (x # y # ext @ xs)) (length (x # y # ext @ xs)) False cap =
         (SOCKIFY_ERR_PROTOCOL, used, Some p', zero_message)
    else \<exists>p'. sockify_ws_parser_feed (Some p) (Some (x # y # ext)) (length (x # y # ext)) False cap =
         (SOCKIFY_ERR_AGAIN, 2 + length ext, Some p', zero_message)"
  using bad_header_run [OF assms] good_header_run [OF assms] by (simp only: split: if_split) blast

theorem ws_bad_header_rejected_witness:
  "\<exists>used p'. used \<le> 4 \<and>
     sockify_ws_parser_feed (Some zero_parser) (Some [0x89, 0xfe, 1, 0, 1, 2, 3]) 7 False 64 =
       (SOCKIFY_ERR_PROTOCOL, used, Some p', zero_message)"
proof -
  have n: "length (0x89 # 0xfe # [1, 0] @ [1, 2, 3 :: byte]) = 7" by simp
  have z: "p_state zero_parser = WS_STATE_HEADER_1" "p_fragmented_opcode zero_parser = 0"
    by (simp_all add: zero_parser_def)
  show ?thesis
    using ws_bad_header_rejected [OF zero_parser_inv z(1), of "[1, 0]" "0xfe" "0x89" "[1, 2, 3]" 64]
    unfolding n by (simp add: z bad_header_def ext_length_def rfc_control_def size_lim_def be_value_def Let_def)
qed

section \<open>The writer\<close>

text \<open>A reader of unmasked server frames: opcode, payload and the rest of the stream.\<close>

definition server_frame_decode :: "byte list \<Rightarrow> (u32 \<times> byte list \<times> byte list) option" where
  "server_frame_decode bs =
     (case bs of
        b0 # b1 # r \<Rightarrow>
          if \<not> bit b0 7 \<or> bit b0 6 \<or> bit b0 5 \<or> bit b0 4 \<or> bit b1 7 then None
          else
            let n7 = unat b1;
                w = (if n7 = 126 then 2 else if n7 = 127 then 8 else 0);
                n = (if w = 0 then n7 else be_value (take w r))
            in if length r < w + n then None
               else Some (ucast (take_bit 4 b0), take n (drop w r), drop (w + n) r)
      | _ \<Rightarrow> None)"

lemma be_value_write_be16: "be_value (sockify_write_be16 v) = unat v"
  using unat_read_be16 [of "sockify_write_be16 v"] by simp

lemma be_value_write_be64: "be_value (sockify_write_be64 v) = unat v"
  using unat_read_be64 [of "sockify_write_be64 v"] by simp

lemma write_frame_head:
  assumes "rfc_opcode op"
  shows "bit (ucast (0x80 OR (op AND 0x0f)) :: byte) 7 \<and>
     \<not> bit (ucast (0x80 OR (op AND 0x0f)) :: byte) 6 \<and> \<not> bit (ucast (0x80 OR (op AND 0x0f)) :: byte) 5 \<and>
     \<not> bit (ucast (0x80 OR (op AND 0x0f)) :: byte) 4 \<and>
     ucast (take_bit 4 (ucast (0x80 OR (op AND 0x0f)) :: byte)) = op"
  using assms by (auto simp: rfc_opcode_cases)

definition write_accepts :: "u32 \<Rightarrow> nat \<Rightarrow> bool" where
  "write_accepts op n \<longleftrightarrow> rfc_opcode op \<and> (rfc_control op \<longrightarrow> n \<le> 125)"

definition frame_overhead :: "nat \<Rightarrow> nat" where
  "frame_overhead n = (if n \<le> 125 then 2 else if n \<le> 65535 then 4 else 10)"

lemma write_frame_ok:
  assumes "write_accepts op (length payload)" and "length payload + 10 < size_lim"
    and "frame_overhead (length payload) + length payload \<le> osize"
  obtains b1 ext where "sockify_ws_write_frame op (Some payload) (length payload) False osize =
      (SOCKIFY_OK, frame_overhead (length payload) + length payload,
       ucast (0x80 OR (op AND 0x0f)) # b1 # ext @ payload)"
    and "\<not> bit (b1 :: byte) 7"
    and "length ext = (if unat b1 = 126 then 2 else if unat b1 = 127 then 8 else 0)"
    and "length payload = (if ext = [] then unat b1 else be_value ext)"
    and "frame_overhead (length payload) = 2 + length ext"
proof -
  let ?n = "length payload"
  let ?h = "ucast (0x80 OR (op AND 0x0f)) :: byte"
  have sz: "sz_add (frame_overhead ?n) ?n = frame_overhead ?n + ?n"
    using assms(2) by (intro sz_add_id) (auto simp: frame_overhead_def)
  have run: "sockify_ws_write_frame op (Some payload) ?n False osize =
      (SOCKIFY_OK, frame_overhead ?n + ?n,
       (if ?n \<le> 125 then [?h, word_of_nat ?n]
        else if ?n \<le> 65535 then [?h, 126] @ sockify_write_be16 (word_of_nat ?n)
        else [?h, 127] @ sockify_write_be64 (word_of_nat ?n)) @ payload)"
    using assms(1,3) sz
    by (auto simp: sockify_ws_write_frame_def write_accepts_def frame_overhead_def [symmetric] Let_def)
  consider "?n \<le> 125" | "125 < ?n" "?n \<le> 65535" | "65535 < ?n" by linarith
  then show thesis
  proof cases
    case 1
    then have "\<not> bit (word_of_nat ?n :: byte) 7"
      by (simp add: bit_of_nat_iff bit_nat_def)
    then show thesis
      using that [of "word_of_nat ?n" "[]"] run 1 by (simp add: frame_overhead_def)
  next
    case 2
    then have "unat (word_of_nat ?n :: u16) = ?n" by (simp add: unat_of_nat take_bit_nat_eq_self)
    then show thesis
      using that [of 126 "sockify_write_be16 (word_of_nat ?n)"] run 2
      by (simp add: frame_overhead_def be_value_write_be16 flip: length_0_conv)
  next
    case 3
    have "unat (word_of_nat ?n :: u64) = ?n"
      using assms(2) by (simp add: unat_of_nat take_bit_nat_eq_self size_lim_def)
    then show thesis
      using that [of 127 "sockify_write_be64 (word_of_nat ?n)"] run 3
      by (simp add: frame_overhead_def be_value_write_be64 flip: length_0_conv)
  qed
qed

text \<open>
  Property C7. On every branch: \<^verbatim>\<open>sockify_ws_write_frame\<close> refuses a reserved opcode and a
  control payload over 125 bytes, refuses an output array that is too small, and otherwise
  stores exactly the reported number of bytes, at most \<^verbatim>\<open>output_size\<close>, from which a reader
  recovers opcode and payload whatever follows in the stream.
\<close>

theorem ws_write_frame_roundtrip:
  assumes "length payload + 10 < size_lim"
  shows "if \<not> write_accepts op (length payload)
     then sockify_ws_write_frame op (Some payload) (length payload) False osize = (SOCKIFY_ERR_PROTOCOL, 0, [])
     else if osize < frame_overhead (length payload) + length payload
     then sockify_ws_write_frame op (Some payload) (length payload) False osize = (SOCKIFY_ERR_OVERFLOW, 0, [])
     else \<exists>out. sockify_ws_write_frame op (Some payload) (length payload) False osize =
              (SOCKIFY_OK, length out, out) \<and> length out \<le> osize \<and>
            server_frame_decode (out @ rest) = Some (op, payload, rest)"
proof -
  have sz: "sz_add (frame_overhead (length payload)) (length payload)
      = frame_overhead (length payload) + length payload"
    using assms by (intro sz_add_id) (auto simp: frame_overhead_def)
  consider "\<not> write_accepts op (length payload)"
    | "write_accepts op (length payload)" "osize < frame_overhead (length payload) + length payload"
    | "write_accepts op (length payload)" "frame_overhead (length payload) + length payload \<le> osize"
    by linarith
  then show ?thesis
  proof cases
    case 1
    then show ?thesis by (auto simp: sockify_ws_write_frame_def write_accepts_def)
  next
    case 2
    with sz show ?thesis
      by (auto simp: sockify_ws_write_frame_def write_accepts_def frame_overhead_def [symmetric] Let_def)
  next
    case 3
    obtain b1 ext where w: "sockify_ws_write_frame op (Some payload) (length payload) False osize =
        (SOCKIFY_OK, frame_overhead (length payload) + length payload,
         ucast (0x80 OR (op AND 0x0f)) # b1 # ext @ payload)"
      "\<not> bit (b1 :: byte) 7" "length ext = (if unat b1 = 126 then 2 else if unat b1 = 127 then 8 else 0)"
      "length payload = (if ext = [] then unat b1 else be_value ext)"
      "frame_overhead (length payload) = 2 + length ext"
      using write_frame_ok [OF 3(1) assms 3(2)] by blast
    have "server_frame_decode ((ucast (0x80 OR (op AND 0x0f)) # b1 # ext @ payload) @ rest) =
        Some (op, payload, rest)"
      using write_frame_head [of op] 3(1) w(2-4)
      by (auto simp: server_frame_decode_def write_accepts_def Let_def split: if_splits)
    with 3 w(1,5) show ?thesis by simp
  qed
qed

theorem ws_write_frame_roundtrip_witness:
  "\<exists>out. sockify_ws_write_frame SOCKIFY_WS_OPCODE_BINARY (Some (replicate 200 7)) 200 False 256 =
      (SOCKIFY_OK, length out, out) \<and> length out \<le> 256 \<and>
    server_frame_decode (out @ [1, 2]) = Some (SOCKIFY_WS_OPCODE_BINARY, replicate 200 7, [1, 2])"
  using ws_write_frame_roundtrip [of "replicate 200 7" SOCKIFY_WS_OPCODE_BINARY 256 "[1, 2]"]
  by (simp add: write_accepts_def rfc_opcode_def rfc_control_def frame_overhead_def size_lim_def)

end
