(* ===== verification/Sha1.thy ===== *)
theory Sha1
  imports Byte_Order "HOL-Library.While_Combinator"
begin

text \<open>
  The one-shot SHA-1 of \<^verbatim>\<open>src/core/sha1.c\<close>: the context record, the compression of one
  block, the byte-wise buffering of \<^verbatim>\<open>sha1_update\<close> and the padding loop of
  \<^verbatim>\<open>sha1_final\<close>. The second half states SHA-1 the way FIPS 180-4 does (message padding, a
  word schedule \<open>W\<close>, \<open>Ch\<close>, \<open>Parity\<close> and \<open>Maj\<close>, blocks of 64 bytes) and proves that the
  code computes it for every input.
\<close>

section \<open>The code\<close>

record sha1_ctx =
  sha_state :: "u32 list"
  sha_total_len :: u64
  sha_block :: "byte list"
  sha_block_len :: size_t

definition rotl32 :: "u32 \<Rightarrow> nat \<Rightarrow> u32" where
  "rotl32 value bits = (push_bit bits value OR drop_bit (32 - bits) value) AND 0xffffffff"

definition sha1_init :: "sha1_ctx \<Rightarrow> sha1_ctx" where
  "sha1_init ctx = ctx\<lparr>sha_state := [0x67452301, 0xefcdab89, 0x98badcfe, 0x10325476, 0xc3d2e1f0],
     sha_total_len := 0, sha_block_len := 0\<rparr>"

definition sha1_load :: "byte list \<Rightarrow> u32 list" where
  "sha1_load block =
     map (\<lambda>i. push_bit 24 (ucast (block ! (i * 4))) OR push_bit 16 (ucast (block ! (i * 4 + 1))) OR
              push_bit 8 (ucast (block ! (i * 4 + 2))) OR ucast (block ! (i * 4 + 3))) [0..<16]"

definition sha1_schedule :: "byte list \<Rightarrow> u32 list" where
  "sha1_schedule block =
     foldl (\<lambda>w i. w @ [rotl32 (w ! (i - 3) XOR w ! (i - 8) XOR w ! (i - 14) XOR w ! (i - 16)) 1])
       (sha1_load block) [16..<80]"

fun sha1_round :: "u32 list \<Rightarrow> u32 \<times> u32 \<times> u32 \<times> u32 \<times> u32 \<Rightarrow> nat \<Rightarrow> u32 \<times> u32 \<times> u32 \<times> u32 \<times> u32" where
  "sha1_round w (a, b, c, d, e) i =
     (let (f, k) =
        (if i < 20 then ((b AND c) OR (NOT b AND d), 0x5a827999)
         else if i < 40 then (b XOR c XOR d, 0x6ed9eba1)
         else if i < 60 then ((b AND c) OR (b AND d) OR (c AND d), 0x8f1bbcdc)
         else (b XOR c XOR d, 0xca62c1d6));
          temp = (rotl32 a 5 + f + e + k + w ! i) AND 0xffffffff
      in (temp, a, rotl32 b 30, c, d))"

definition sha1_process :: "sha1_ctx \<Rightarrow> byte list \<Rightarrow> sha1_ctx" where
  "sha1_process ctx block =
     (let w = sha1_schedule block;
          s = sha_state ctx;
          (a, b, c, d, e) = foldl (sha1_round w) (s ! 0, s ! 1, s ! 2, s ! 3, s ! 4) [0..<80]
      in ctx\<lparr>sha_state :=
           [(s ! 0 + a) AND 0xffffffff, (s ! 1 + b) AND 0xffffffff, (s ! 2 + c) AND 0xffffffff,
            (s ! 3 + d) AND 0xffffffff, (s ! 4 + e) AND 0xffffffff]\<rparr>)"

text \<open>One iteration of the loop of \<^verbatim>\<open>sha1_update\<close>.\<close>

definition sha1_update_byte :: "sha1_ctx \<Rightarrow> byte \<Rightarrow> sha1_ctx" where
  "sha1_update_byte ctx x =
     (let ctx1 = ctx\<lparr>sha_block := (sha_block ctx)[sha_block_len ctx := x],
                     sha_block_len := sha_block_len ctx + 1\<rparr>
      in if sha_block_len ctx1 = 64
         then (sha1_process ctx1 (sha_block ctx1))\<lparr>sha_block_len := 0\<rparr>
         else ctx1)"

definition sha1_update :: "sha1_ctx \<Rightarrow> byte list \<Rightarrow> size_t \<Rightarrow> sha1_ctx" where
  "sha1_update ctx data len =
     foldl sha1_update_byte (ctx\<lparr>sha_total_len := sha_total_len ctx + word_of_nat len\<rparr>) (take len data)"

definition sha1_pad_guard :: "sha1_ctx \<Rightarrow> bool" where
  "sha1_pad_guard ctx \<longleftrightarrow> sha_block_len ctx \<noteq> 56"

definition sha1_pad_step :: "sha1_ctx \<Rightarrow> sha1_ctx" where
  "sha1_pad_step ctx = sha1_update ctx [0x00] 1"

definition sha1_final :: "sha1_ctx \<Rightarrow> byte list" where
  "sha1_final ctx =
     (let bit_len = sha_total_len ctx * 8;
          ctx1 = sha1_update ctx [0x80] 1;
          ctx2 = while sha1_pad_guard sha1_pad_step ctx1;
          ctx3 = foldl (\<lambda>c i. sha1_update c [ucast (drop_bit (i * 8) bit_len AND 0xff)] 1) ctx2
                   [7, 6, 5, 4, 3, 2, 1, 0]
      in concat (map (\<lambda>i. let s = sha_state ctx3 ! i
                          in [ucast (drop_bit 24 s AND 0xff), ucast (drop_bit 16 s AND 0xff),
                              ucast (drop_bit 8 s AND 0xff), ucast (s AND 0xff)]) [0..<5]))"

text \<open>
  The C function leaves the context it declares uninitialised but for what \<^verbatim>\<open>sha1_init\<close>
  sets; \<open>garbage\<close> is the 64-byte block array it starts with.
\<close>

definition sockify_sha1 :: "byte list \<Rightarrow> byte list \<Rightarrow> size_t \<Rightarrow> byte list" where
  "sockify_sha1 garbage input input_len =
     (let ctx = sha1_init \<lparr>sha_state = [], sha_total_len = 0, sha_block = garbage, sha_block_len = 0\<rparr>;
          ctx1 = (if input_len \<noteq> 0 then sha1_update ctx input input_len else ctx)
      in sha1_final ctx1)"

section \<open>SHA-1 as FIPS 180-4 states it\<close>

definition sha1_padded :: "byte list \<Rightarrow> byte list" where
  "sha1_padded m = m @ [0x80] @ replicate ((119 - length m mod 64) mod 64) 0
     @ sockify_write_be64 (word_of_nat (8 * length m))"

definition blocks64 :: "byte list \<Rightarrow> byte list list" where
  "blocks64 m = map (\<lambda>i. take 64 (drop (64 * i) m)) [0..<length m div 64]"

fun sha1_W :: "byte list \<Rightarrow> nat \<Rightarrow> u32" where
  "sha1_W block t =
     (if t < 16 then sockify_read_be32 (drop (4 * t) block)
      else word_rotl 1 (sha1_W block (t - 3) XOR sha1_W block (t - 8) XOR
                        sha1_W block (t - 14) XOR sha1_W block (t - 16)))"

definition sha1_f :: "nat \<Rightarrow> u32 \<Rightarrow> u32 \<Rightarrow> u32 \<Rightarrow> u32" where
  "sha1_f t x y z =
     (if t < 20 then (x AND y) XOR (NOT x AND z)
      else if 40 \<le> t \<and> t < 60 then (x AND y) XOR (x AND z) XOR (y AND z)
      else x XOR y XOR z)"

definition sha1_K :: "nat \<Rightarrow> u32" where
  "sha1_K t = [0x5a827999, 0x6ed9eba1, 0x8f1bbcdc, 0xca62c1d6] ! (t div 20)"

primrec sha1_rounds :: "byte list \<Rightarrow> nat \<Rightarrow> u32 \<times> u32 \<times> u32 \<times> u32 \<times> u32 \<Rightarrow> u32 \<times> u32 \<times> u32 \<times> u32 \<times> u32" where
  "sha1_rounds block 0 v = v"
| "sha1_rounds block (Suc t) v =
     (case sha1_rounds block t v of
        (a, b, c, d, e) \<Rightarrow>
          (word_rotl 5 a + sha1_f t b c d + e + sha1_K t + sha1_W block t, a, word_rotl 30 b, c, d))"

fun sha1_compress :: "u32 \<times> u32 \<times> u32 \<times> u32 \<times> u32 \<Rightarrow> byte list \<Rightarrow> u32 \<times> u32 \<times> u32 \<times> u32 \<times> u32" where
  "sha1_compress (h0, h1, h2, h3, h4) block =
     (case sha1_rounds block 80 (h0, h1, h2, h3, h4) of
        (a, b, c, d, e) \<Rightarrow> (h0 + a, h1 + b, h2 + c, h3 + d, h4 + e))"

definition sha1_digest :: "byte list \<Rightarrow> byte list" where
  "sha1_digest m =
     (case foldl sha1_compress (0x67452301, 0xefcdab89, 0x98badcfe, 0x10325476, 0xc3d2e1f0)
             (blocks64 (sha1_padded m)) of
        (h0, h1, h2, h3, h4) \<Rightarrow> concat (map sockify_write_be32 [h0, h1, h2, h3, h4]))"

declare sha1_W.simps [simp del]


section \<open>The compression function\<close>

lemma and_all32 [simp]: "(x :: u32) AND 0xffffffff = x"
proof -
  have "(0xffffffff :: u32) = - 1" by simp
  then show ?thesis by (metis and.right_neutral)
qed

lemma rotl32_rotl:
  assumes "0 < n" and "n < 32"
  shows "rotl32 v n = word_rotl n v"
  unfolding rotl32_def and_all32
proof (rule bit_word_eqI)
  fix i assume i: "i < LENGTH(32)"
  show "bit (push_bit n v OR drop_bit (32 - n) v) i = bit (word_rotl n v) i"
  proof (cases "n \<le> i")
    case True
    then have "(i + 32 - n) mod 32 = i - n" using assms i by (simp add: mod_if)
    moreover have "\<not> bit v (32 - n + i)"
      using True assms bit_imp_le_length [of v "32 - n + i"] by auto
    ultimately show ?thesis using True assms i by (simp add: bit_simps)
  next
    case False
    then have "(i + 32 - n) mod 32 = 32 - n + i" using assms by simp
    then show ?thesis using False assms i by (simp add: bit_simps)
  qed
qed

lemma sha1_load_nth:
  assumes "length block = 64" and "t < 16"
  shows "sha1_load block ! t = sha1_W block t"
  using assms by (simp add: sha1_load_def sha1_W.simps [of block t] sockify_read_be32_def algebra_simps)

lemma length_sha1_load [simp]: "length (sha1_load block) = 16"
  by (simp add: sha1_load_def)

lemma sha1_schedule_prefix:
  assumes "length block = 64"
  shows "foldl (\<lambda>w i. w @ [rotl32 (w ! (i - 3) XOR w ! (i - 8) XOR w ! (i - 14) XOR w ! (i - 16)) 1])
      (sha1_load block) [16..<16 + n] = map (sha1_W block) [0..<16 + n]"
proof (induction n)
  case 0
  have "sha1_load block = map (sha1_W block) [0..<16]"
    by (rule nth_equalityI) (simp_all add: sha1_load_nth assms del: upt_rec_numeral)
  then show ?case by simp
next
  case (Suc n)
  have "sha1_W block (16 + n) = rotl32 (sha1_W block (13 + n) XOR sha1_W block (8 + n) XOR
      sha1_W block (2 + n) XOR sha1_W block n) 1"
    by (subst sha1_W.simps) (simp add: rotl32_rotl)
  moreover have "[16..<16 + Suc n] = [16..<16 + n] @ [16 + n]"
    and "[0..<16 + Suc n] = [0..<16 + n] @ [16 + n]"
    unfolding add_Suc_right by (rule upt_Suc_append; simp)+
  ultimately show ?case
    using Suc by (simp del: upt_rec_numeral add_Suc_right)
qed

lemma sha1_schedule_nth:
  assumes "length block = 64" and "t < 80"
  shows "sha1_schedule block ! t = sha1_W block t"
proof -
  have "sha1_schedule block = map (sha1_W block) [0..<80]"
    using sha1_schedule_prefix [OF assms(1), of 64] unfolding sha1_schedule_def
    by (simp del: upt_rec_numeral)
  then show ?thesis using assms(2) by (simp del: upt_rec_numeral)
qed

lemma ch_or_xor: "(x AND y) OR (NOT x AND z) = (x AND y) XOR (NOT x AND (z :: u32))"
  by (rule bit_word_eqI) (auto simp: bit_simps)

lemma maj_or_xor:
  "(x AND y) OR (x AND z) OR (y AND z) = (x AND y) XOR (x AND z) XOR (y AND (z :: u32))"
  by (rule bit_word_eqI) (auto simp: bit_simps)

lemma sha1_round_eq:
  assumes "length block = 64" and "t < 80"
  shows "sha1_round (sha1_schedule block) (a, b, c, d, e) t =
     (word_rotl 5 a + sha1_f t b c d + e + sha1_K t + sha1_W block t, a, word_rotl 30 b, c, d)"
proof -
  consider "t < 20" "t div 20 = 0" | "20 \<le> t" "t < 40" "t div 20 = 1" | "40 \<le> t" "t < 60" "t div 20 = 2"
    | "60 \<le> t" "t div 20 = 3"
    using assms(2) by linarith
  then show ?thesis
    by cases (simp_all add: sha1_f_def sha1_K_def rotl32_rotl sha1_schedule_nth [OF assms]
        ch_or_xor maj_or_xor)
qed

lemma sha1_rounds_eq:
  assumes "length block = 64" and "t \<le> 80"
  shows "foldl (sha1_round (sha1_schedule block)) v [0..<t] = sha1_rounds block t v"
  using assms(2)
proof (induction t)
  case (Suc t)
  then show ?case
    using sha1_round_eq [OF assms(1), of t] by (auto split: prod.splits)
qed simp

fun st5 :: "u32 \<times> u32 \<times> u32 \<times> u32 \<times> u32 \<Rightarrow> u32 list" where
  "st5 (a, b, c, d, e) = [a, b, c, d, e]"

lemma sha1_process_eq:
  assumes "sha_state ctx = st5 h" and "length block = 64"
  shows "sha1_process ctx block = ctx\<lparr>sha_state := st5 (sha1_compress h block)\<rparr>"
  using assms by (cases h) (simp add: sha1_process_def Let_def sha1_rounds_eq split: prod.splits)


section \<open>Buffering bytes into blocks\<close>

definition sha1_iv :: "u32 \<times> u32 \<times> u32 \<times> u32 \<times> u32" where
  "sha1_iv = (0x67452301, 0xefcdab89, 0x98badcfe, 0x10325476, 0xc3d2e1f0)"

definition rest64 :: "byte list \<Rightarrow> byte list" where
  "rest64 m = drop (64 * (length m div 64)) m"

lemma length_rest64 [simp]: "length (rest64 m) = length m mod 64"
  by (simp add: rest64_def minus_mult_div_eq_mod)

lemma blocks64_partial:
  assumes "length m mod 64 \<noteq> 63"
  shows "blocks64 (m @ [x]) = blocks64 m" and "rest64 (m @ [x]) = rest64 m @ [x]"
proof -
  have q: "length (m @ [x]) div 64 = length m div 64" using assms by (simp add: div_Suc mod_Suc)
  have "64 * i + 64 \<le> length m" if "i < length m div 64" for i
    using that by linarith
  then show "blocks64 (m @ [x]) = blocks64 m"
    unfolding blocks64_def q by (auto simp: le_diff_conv2)
  show "rest64 (m @ [x]) = rest64 m @ [x]"
    unfolding rest64_def q by simp
qed

lemma blocks64_full:
  assumes "length m mod 64 = 63"
  shows "blocks64 (m @ [x]) = blocks64 m @ [rest64 m @ [x]]" and "rest64 (m @ [x]) = []"
proof -
  have q: "length (m @ [x]) div 64 = Suc (length m div 64)"
    and r: "length (rest64 m) = 63" using assms by (simp_all add: div_Suc mod_Suc)
  have "64 * i + 64 \<le> length m" if "i < length m div 64" for i
    using that by linarith
  then have "map (\<lambda>i. take 64 (drop (64 * i) (m @ [x]))) [0..<length m div 64] = blocks64 m"
    unfolding blocks64_def by (auto simp: le_diff_conv2)
  moreover have "take 64 (drop (64 * (length m div 64)) (m @ [x])) = rest64 m @ [x]"
    using r by (simp add: rest64_def)
  ultimately show "blocks64 (m @ [x]) = blocks64 m @ [rest64 m @ [x]]"
    unfolding blocks64_def q by simp
  have "64 * Suc (length m div 64) = length (m @ [x])"
    using assms mult_div_mod_eq [of 64 "length m"] by simp
  then show "rest64 (m @ [x]) = []" unfolding rest64_def q by simp
qed

text \<open>The context holds the message \<open>m\<close>: its full blocks compressed, its rest buffered.\<close>

definition absorbed :: "sha1_ctx \<Rightarrow> byte list \<Rightarrow> bool" where
  "absorbed ctx m \<longleftrightarrow>
     sha_state ctx = st5 (foldl sha1_compress sha1_iv (blocks64 m)) \<and>
     length (sha_block ctx) = 64 \<and> sha_block_len ctx = length m mod 64 \<and>
     take (length m mod 64) (sha_block ctx) = rest64 m"

lemma absorbed_byte:
  assumes "absorbed ctx m"
  shows "absorbed (sha1_update_byte ctx x) (m @ [x])"
proof -
  let ?block = "(sha_block ctx)[length m mod 64 := x]"
  have blk: "take (Suc (length m mod 64)) ?block = rest64 m @ [x]"
    using assms by (simp add: absorbed_def take_Suc_nth)
  show ?thesis
  proof (cases "length m mod 64 = 63")
    case True
    then have "take 64 ?block = rest64 m @ [x]" using blk by simp
    then have block: "?block = rest64 m @ [x]" using assms by (simp add: absorbed_def)
    have len: "length ?block = 64" using assms by (simp add: absorbed_def)
    have "sha1_update_byte ctx x = ctx\<lparr>sha_block := ?block, sha_block_len := 0,
        sha_state := st5 (sha1_compress (foldl sha1_compress sha1_iv (blocks64 m)) ?block)\<rparr>"
      using assms True len
      by (simp add: sha1_update_byte_def absorbed_def Let_def
          sha1_process_eq [where h = "foldl sha1_compress sha1_iv (blocks64 m)"])
    moreover have "length (m @ [x]) mod 64 = 0" using True by (simp add: mod_Suc)
    ultimately show ?thesis
      using len blocks64_full [OF True, of x] block by (simp add: absorbed_def)
  next
    case False
    then have "length (m @ [x]) mod 64 = Suc (length m mod 64)" by (simp add: mod_Suc)
    then show ?thesis
      using assms False blk blocks64_partial [OF False, of x]
      by (simp add: absorbed_def sha1_update_byte_def Let_def)
  qed
qed

lemma absorbed_bytes: "absorbed ctx m \<Longrightarrow> absorbed (foldl sha1_update_byte ctx xs) (m @ xs)"
proof (induction xs arbitrary: ctx m)
  case (Cons x xs)
  then show ?case
    using Cons.IH [OF absorbed_byte [OF Cons.prems, of x]] by simp
qed simp

lemma absorbed_total: "absorbed (ctx\<lparr>sha_total_len := n\<rparr>) m = absorbed ctx m"
  by (simp add: absorbed_def)

lemma absorbed_update:
  "absorbed ctx m \<Longrightarrow> absorbed (sha1_update ctx xs len) (m @ take len xs)"
  unfolding sha1_update_def by (rule absorbed_bytes) (simp add: absorbed_total)

lemma sha1_update_byte_total: "sha_total_len (sha1_update_byte ctx x) = sha_total_len ctx"
  by (simp add: sha1_update_byte_def sha1_process_def Let_def split: prod.splits)

lemma sha1_update_total:
  "sha_total_len (sha1_update ctx xs len) = sha_total_len ctx + word_of_nat len"
proof -
  have "sha_total_len (foldl sha1_update_byte c ys) = sha_total_len c" for c ys
    by (induction ys arbitrary: c) (simp_all add: sha1_update_byte_total)
  then show ?thesis by (simp add: sha1_update_def)
qed

section \<open>The padding loop\<close>

lemma pad_distance:
  "(120 - length m mod 64) mod 64
     = (if length m mod 64 \<le> 56 then 56 - length m mod 64 else 120 - length m mod 64)"
proof (cases "length m mod 64 \<le> 56")
  case True
  then have "120 - length m mod 64 = 64 + (56 - length m mod 64)" by simp
  then have "(120 - length m mod 64) mod 64 = (56 - length m mod 64) mod 64"
    by (simp only: mod_add_self1)
  then show ?thesis using True by simp
qed simp

lemma sha1_pad_loop:
  assumes "absorbed ctx m" and "k = (120 - length m mod 64) mod 64"
  shows "\<exists>ctx'. while_option sha1_pad_guard sha1_pad_step ctx = Some ctx' \<and>
     absorbed ctx' (m @ replicate k 0)"
  using assms
proof (induction k arbitrary: ctx m)
  case 0
  then have "length m mod 64 = 56" by (simp add: pad_distance split: if_splits)
  with 0 show ?case
    by (intro exI [of _ ctx]) (simp add: while_option_unfold sha1_pad_guard_def absorbed_def)
next
  case (Suc k)
  from Suc.prems(2) have ne: "length m mod 64 \<noteq> 56" by auto
  from Suc.prems(2) have k: "k = (120 - length (m @ [0]) mod 64) mod 64"
    unfolding pad_distance by (auto simp: mod_Suc split: if_splits)
  have "absorbed (sha1_pad_step ctx) (m @ [0])"
    using absorbed_update [OF Suc.prems(1), of "[0]" 1] by (simp add: sha1_pad_step_def)
  from Suc.IH [OF this k] obtain ctx' where
    "while_option sha1_pad_guard sha1_pad_step (sha1_pad_step ctx) = Some ctx'"
    "absorbed ctx' (m @ replicate (Suc k) 0)" by auto
  moreover have "sha1_pad_guard ctx"
    using Suc.prems(1) ne by (simp add: sha1_pad_guard_def absorbed_def)
  ultimately show ?case by (subst while_option_unfold) simp
qed

lemma sha1_pad_while:
  assumes "absorbed ctx m"
  shows "absorbed (while sha1_pad_guard sha1_pad_step ctx)
     (m @ replicate ((120 - length m mod 64) mod 64) 0)"
  using sha1_pad_loop [OF assms refl] by (auto simp: while_def)


section \<open>The code computes SHA-1\<close>

lemma sha1_length_bytes:
  "map (\<lambda>i. ucast (drop_bit (i * 8) v AND 0xff)) [7, 6, 5, 4, 3, 2, 1, 0] = sockify_write_be64 v"
  by (simp add: sockify_write_be64_def)

lemma absorbed_each:
  "absorbed ctx m \<Longrightarrow> absorbed (foldl (\<lambda>c i. sha1_update c [f i] 1) ctx is) (m @ map f is)"
proof (induction "is" arbitrary: ctx m)
  case (Cons i "is")
  then show ?case
    using Cons.IH [OF absorbed_update [OF Cons.prems, of "[f i]" 1]] by simp
qed simp

lemma sha1_final_eq:
  assumes "absorbed ctx m" and "sha_total_len ctx = word_of_nat (length m)"
  shows "sha1_final ctx = sha1_digest m"
proof -
  define ctx1 where "ctx1 = sha1_update ctx [0x80] 1"
  define ctx2 where "ctx2 = while sha1_pad_guard sha1_pad_step ctx1"
  define bit_len where "bit_len = sha_total_len ctx * 8"
  define ctx3 where "ctx3 = foldl (\<lambda>c i. sha1_update c [ucast (drop_bit (i * 8) bit_len AND 0xff)] 1)
    ctx2 [7, 6, 5, 4, 3, 2, 1, 0]"
  have bits: "bit_len = word_of_nat (8 * length m)"
    using assms(2) by (simp add: bit_len_def mult.commute)
  have "absorbed ctx1 (m @ [0x80])"
    unfolding ctx1_def using absorbed_update [OF assms(1), of "[0x80]" 1] by simp
  from sha1_pad_while [OF this]
  have "absorbed ctx2 (m @ [0x80] @ replicate ((120 - length (m @ [0x80]) mod 64) mod 64) 0)"
    unfolding ctx2_def by simp
  also have "(120 - length (m @ [0x80]) mod 64) mod 64 = (119 - length m mod 64) mod 64"
    by (auto simp: mod_Suc)
  finally have "absorbed ctx2 (m @ [0x80] @ replicate ((119 - length m mod 64) mod 64) 0)" .
  from absorbed_each [OF this, of "\<lambda>i. ucast (drop_bit (i * 8) bit_len AND 0xff)"
      "[7, 6, 5, 4, 3, 2, 1, 0]"]
  have "absorbed ctx3 (sha1_padded m)"
    unfolding ctx3_def sha1_padded_def bits [symmetric] sha1_length_bytes append_assoc .
  then have "sha_state ctx3 = st5 (foldl sha1_compress sha1_iv (blocks64 (sha1_padded m)))"
    by (simp add: absorbed_def)
  then show ?thesis
    unfolding sha1_final_def sha1_digest_def Let_def
    unfolding bit_len_def [symmetric] ctx1_def [symmetric]
    unfolding ctx2_def [symmetric] ctx3_def [symmetric] sha1_iv_def [symmetric]
    by (auto simp: sockify_write_be32_def eval_nat_numeral split: prod.splits)
qed

lemma sha1_run:
  assumes "length garbage = 64"
  shows "sockify_sha1 garbage input (length input) = sha1_digest input"
proof -
  let ?ctx = "sha1_init \<lparr>sha_state = [], sha_total_len = 0, sha_block = garbage, sha_block_len = 0\<rparr>"
  have "absorbed ?ctx []"
    using assms by (simp add: absorbed_def sha1_init_def sha1_iv_def blocks64_def rest64_def)
  then have "absorbed (sha1_update ?ctx input (length input)) input"
    using absorbed_update [of ?ctx "[]" input "length input"] by simp
  moreover have "sha_total_len (sha1_update ?ctx input (length input)) = word_of_nat (length input)"
    by (simp add: sha1_update_total sha1_init_def)
  ultimately have "sha1_final (sha1_update ?ctx input (length input)) = sha1_digest input"
    by (rule sha1_final_eq)
  moreover have "sha1_update ?ctx [] 0 = ?ctx"
    by (simp add: sha1_update_def sha1_init_def)
  ultimately show ?thesis by (auto simp: sockify_sha1_def Let_def)
qed

text \<open>
  Property C9. For every message the code returns the digest FIPS 180-4 defines: the message
  padded with the bit 1, zeros and its length in bits, cut into 64-byte blocks, compressed
  from the standard initial value; whatever the uninitialised block array held.
\<close>

theorem sockify_sha1_correct:
  assumes "length garbage = 64"
  shows "sockify_sha1 garbage input (length input) = sha1_digest input"
  using assms by (rule sha1_run)

theorem sockify_sha1_correct_witness:
  "sockify_sha1 (replicate 64 7) (cstr ''abc'') (length (cstr ''abc'')) = sha1_digest (cstr ''abc'')"
  by (rule sockify_sha1_correct) simp

lemma length_sha1_digest: "length (sha1_digest m) = 20"
  by (simp add: sha1_digest_def split: prod.splits)

text \<open>
  Property C10. The padding loop of \<^verbatim>\<open>sha1_final\<close> ends from every state the other functions
  leave behind (a context that has absorbed some message), after less than 64 rounds, and with
  room for exactly the eight length bytes.
\<close>

theorem sha1_pad_terminates:
  assumes "absorbed ctx m"
  shows "\<exists>ctx' k. while_option sha1_pad_guard sha1_pad_step ctx = Some ctx' \<and> k < 64 \<and>
     absorbed ctx' (m @ replicate k 0) \<and> sha_block_len ctx' = 56"
proof -
  let ?k = "(120 - length m mod 64) mod 64"
  obtain ctx' where "while_option sha1_pad_guard sha1_pad_step ctx = Some ctx'"
    "absorbed ctx' (m @ replicate ?k 0)"
    using sha1_pad_loop [OF assms refl] by blast
  moreover from this(1) have "sha_block_len ctx' = 56"
    by (auto dest: while_option_stop simp: sha1_pad_guard_def)
  ultimately show ?thesis by (intro exI [of _ ctx'] exI [of _ ?k]) simp
qed

theorem sha1_pad_terminates_witness:
  "\<exists>ctx' k. while_option sha1_pad_guard sha1_pad_step
       (sha1_init \<lparr>sha_state = [], sha_total_len = 0, sha_block = replicate 64 1, sha_block_len = 3\<rparr>)
       = Some ctx' \<and> k < 64 \<and> absorbed ctx' ([] @ replicate k 0) \<and> sha_block_len ctx' = 56"
  by (rule sha1_pad_terminates)
    (simp add: absorbed_def sha1_init_def sha1_iv_def blocks64_def rest64_def)

end
