(* ===== verification/Base64.thy ===== *)
theory Base64
  imports Byte_Order
begin

text \<open>
  The encoder of \<^verbatim>\<open>src/core/base64.c\<close>. The output array is the list of bytes the function
  stores from index 0 on, its terminating null byte included. The reference decoder
  \<open>base64_decode\<close> is written from RFC 4648 and not from the code; the encoder is correct when
  the decoder gives the input back.
\<close>

section \<open>The encoder\<close>

definition base64_chars :: "byte list" where
  "base64_chars = cstr ''ABCDEFGHIJKLMNOPQRSTUVWXYZabcdefghijklmnopqrstuvwxyz0123456789+/''"

definition base64_char :: "u32 \<Rightarrow> byte" where
  "base64_char x = base64_chars ! unat (x AND 0x3f)"

function base64_loop :: "byte list \<Rightarrow> size_t \<Rightarrow> size_t \<Rightarrow> byte list \<Rightarrow> size_t \<times> byte list" where
  "base64_loop input input_len i out =
     (if i + 3 \<le> input_len then
        let triple = push_bit 16 (ucast (input ! i)) OR push_bit 8 (ucast (input ! (i + 1))) OR
                     (ucast (input ! (i + 2)) :: u32)
        in base64_loop input input_len (i + 3)
             (out @ [base64_char (drop_bit 18 triple), base64_char (drop_bit 12 triple),
                     base64_char (drop_bit 6 triple), base64_char triple])
      else (i, out))"
  by pat_completeness auto
termination
  by (relation "measure (\<lambda>(d, n, i, out). n - i)") auto

definition base64_tail :: "byte list \<Rightarrow> size_t \<Rightarrow> size_t \<Rightarrow> byte list" where
  "base64_tail input input_len i =
     (if input_len - i = 1 then
        let triple = push_bit 16 (ucast (input ! i)) :: u32
        in [base64_char (drop_bit 18 triple), base64_char (drop_bit 12 triple),
            of_char CHR ''='', of_char CHR ''='']
      else if input_len - i = 2 then
        let triple = push_bit 16 (ucast (input ! i)) OR push_bit 8 (ucast (input ! (i + 1))) :: u32
        in [base64_char (drop_bit 18 triple), base64_char (drop_bit 12 triple),
            base64_char (drop_bit 6 triple), of_char CHR ''='']
      else [])"

definition sockify_base64_encode ::
  "byte list ptr \<Rightarrow> size_t \<Rightarrow> bool \<Rightarrow> size_t \<Rightarrow> sockify_rc \<times> size_t \<times> byte list" where
  "sockify_base64_encode input input_len output_null output_size =
     (if output_null \<or> input = None \<and> input_len \<noteq> 0 then (SOCKIFY_ERR_INVALID, 0, [])
      else
        let bytes = (case input of None \<Rightarrow> [] | Some d \<Rightarrow> d);
            encoded_len = sz_mul (sz_add input_len 2 div 3) 4
        in if output_size < sz_add encoded_len 1 then (SOCKIFY_ERR_OVERFLOW, 0, [])
           else
             let (i, out) = base64_loop bytes input_len 0 [];
                 out' = out @ base64_tail bytes input_len i
             in (SOCKIFY_OK, length out', out' @ [0]))"

section \<open>A decoder from RFC 4648\<close>

definition b64_pad :: byte where
  "b64_pad = of_char CHR ''=''"

text \<open>The value of a character in the alphabet of table 1, 64 for all others.\<close>

definition b64_value :: "byte \<Rightarrow> nat" where
  "b64_value c =
     (let n = unat c
      in if 65 \<le> n \<and> n \<le> 90 then n - 65
         else if 97 \<le> n \<and> n \<le> 122 then n - 97 + 26
         else if 48 \<le> n \<and> n \<le> 57 then n - 48 + 52
         else if n = 43 then 62
         else if n = 47 then 63
         else 64)"

definition dec_1 :: "nat \<Rightarrow> nat \<Rightarrow> byte" where
  "dec_1 va vb = word_of_nat (va * 4 + vb div 16)"

definition dec_2 :: "nat \<Rightarrow> nat \<Rightarrow> byte" where
  "dec_2 vb vc = word_of_nat (vb mod 16 * 16 + vc div 4)"

definition dec_3 :: "nat \<Rightarrow> nat \<Rightarrow> byte" where
  "dec_3 vc vd = word_of_nat (vc mod 4 * 64 + vd)"

fun base64_decode :: "byte list \<Rightarrow> byte list option" where
  "base64_decode [] = Some []"
| "base64_decode (a # b # c # d # rest) =
     (let va = b64_value a; vb = b64_value b; vc = b64_value c; vd = b64_value d;
          x = dec_1 va vb; y = dec_2 vb vc; z = dec_3 vc vd
      in if va \<ge> 64 \<or> vb \<ge> 64 then None
         else if c = b64_pad \<and> d = b64_pad \<and> rest = [] then Some [x]
         else if vc \<ge> 64 then None
         else if d = b64_pad \<and> rest = [] then Some [x, y]
         else if vd \<ge> 64 then None
         else map_option (\<lambda>t. x # y # z # t) (base64_decode rest))"
| "base64_decode _ = None"

declare base64_loop.simps [simp del]

lemma length_base64_chars [simp]: "length base64_chars = 64"
  by (simp add: base64_chars_def)

lemma b64_value_chars: "i < 64 \<Longrightarrow> b64_value (base64_chars ! i) = i"
proof -
  have "map b64_value base64_chars = [0..<64]"
    by (simp add: base64_chars_def cstr_def b64_value_def upt_rec)
  then show "i < 64 \<Longrightarrow> b64_value (base64_chars ! i) = i"
    by (metis add_0 length_base64_chars nth_map nth_upt)
qed

lemma pad_not_in: "b64_pad \<notin> set base64_chars"
  by (simp add: base64_chars_def cstr_def b64_pad_def)


section \<open>The encoder over groups of three bytes\<close>

definition sextet :: "nat \<Rightarrow> nat \<Rightarrow> byte" where
  "sextet k t = base64_chars ! (t div 2 ^ k mod 64)"

lemma base64_char_drop: "base64_char (drop_bit k x) = sextet k (unat x)"
proof -
  have "unat (drop_bit k x AND 0x3f) = unat x div 2 ^ k mod 64"
  proof -
    have "drop_bit k x AND 0x3f = take_bit 6 (drop_bit k x)"
      by (simp add: take_bit_eq_mask mask_numeral)
    then have "unat (drop_bit k x AND 0x3f) = take_bit 6 (unat (drop_bit k x))"
      by (simp only: unsigned_take_bit_eq)
    also have "unat (drop_bit k x) = drop_bit k (unat x)"
      by (rule unat_drop_bit_eq)
    finally show ?thesis by (simp add: take_bit_eq_mod drop_bit_eq_div)
  qed
  then show ?thesis by (simp add: base64_char_def sextet_def)
qed

lemma base64_char_0: "base64_char x = sextet 0 (unat x)"
  using base64_char_drop [of 0 x] by simp

lemma triple_value:
  "unat (push_bit 16 (ucast a) OR push_bit 8 (ucast b) OR ucast c :: u32) = be_value [a, b, c]"
proof -
  have "(push_bit 16 (ucast a) OR push_bit 8 (ucast b) OR ucast c :: u32) = be_word [a, b, c]"
    by (simp add: be_word_def or.assoc)
  then show ?thesis by (simp add: unat_be_word)
qed

lemmas triple_values = triple_value triple_value [of _ _ 0, simplified]
  triple_value [of _ 0 0, simplified]

fun base64_groups :: "byte list \<Rightarrow> byte list" where
  "base64_groups (a # b # c # rest) =
     (let t = be_value [a, b, c] in [sextet 18 t, sextet 12 t, sextet 6 t, sextet 0 t])
     @ base64_groups rest"
| "base64_groups [a, b] =
     (let t = be_value [a, b, 0] in [sextet 18 t, sextet 12 t, sextet 6 t, b64_pad])"
| "base64_groups [a] =
     (let t = be_value [a, 0, 0] in [sextet 18 t, sextet 12 t, b64_pad, b64_pad])"
| "base64_groups [] = []"

lemma base64_tail_groups:
  assumes "n \<le> length input" and "i \<le> n" and "n < i + 3"
  shows "base64_tail input n i = base64_groups (drop i (take n input))"
proof -
  consider "n = i" | "n = i + 1" | "n = i + 2" using assms by linarith
  then show ?thesis
  proof cases
    case 2
    then have "drop i (take n input) = [input ! i]"
      using assms by (simp add: take_Suc_nth)
    with 2 show ?thesis
      by (simp add: base64_tail_def base64_char_drop triple_values b64_pad_def Let_def)
  next
    case 3
    then have "drop i (take n input) = [input ! i, input ! (i + 1)]"
      using assms by (simp add: take_Suc_nth)
    with 3 show ?thesis
      by (simp add: base64_tail_def base64_char_drop triple_values b64_pad_def Let_def)
  qed (simp add: base64_tail_def)
qed

lemma base64_loop_groups:
  assumes "n \<le> length input" and "i \<le> n" and "base64_loop input n i out = (j, out')"
  shows "out' @ base64_tail input n j = out @ base64_groups (drop i (take n input))"
  using assms
proof (induction input n i out rule: base64_loop.induct)
  case (1 input n i out)
  show ?case
  proof (cases "i + 3 \<le> n")
    case True
    have d: "drop i (take n input)
        = input ! i # input ! (i + 1) # input ! (i + 2) # drop (i + 3) (take n input)"
      using True "1.prems" by (simp add: drop_nth_Cons eval_nat_numeral)
    define t :: u32 where "t = push_bit 16 (ucast (input ! i)) OR
        push_bit 8 (ucast (input ! (i + 1))) OR ucast (input ! (i + 2))"
    have t: "unat t = be_value [input ! i, input ! (i + 1), input ! (i + 2)]"
      unfolding t_def by (rule triple_value)
    have "base64_loop input n (i + 3)
        (out @ [sextet 18 (unat t), sextet 12 (unat t), sextet 6 (unat t), sextet 0 (unat t)])
        = (j, out')"
      using "1.prems"(3) True
      unfolding base64_loop.simps [of input n i] Let_def t_def [symmetric] base64_char_drop
      unfolding base64_char_0 by simp
    then show ?thesis
      using "1.IH" [OF True refl] "1.prems"(1) True
      unfolding t_def [symmetric] base64_char_drop
      unfolding base64_char_0
      by (simp add: d t Let_def)
  next
    case False
    then show ?thesis
      using "1.prems" base64_tail_groups [of n input i]
      by (simp add: base64_loop.simps [of input n i])
  qed
qed

section \<open>Decoding the groups\<close>

lemma sextet_value: "b64_value (sextet k t) = t div 2 ^ k mod 64"
  by (simp add: sextet_def b64_value_chars)

lemma sextet_not_pad: "sextet k t \<noteq> b64_pad"
proof -
  have "sextet k t \<in> set base64_chars" unfolding sextet_def by (rule nth_mem) simp
  then show ?thesis using pad_not_in by auto
qed

lemma be_value3: "be_value [a, b, c] = 65536 * unat a + 256 * unat b + unat c"
  by (simp add: be_value_def)

lemma digits_mod:
  assumes "q < m"
  shows "(m * x + q) mod (m * k) = m * (x mod k) + (q :: nat)"
    and "(m * x + q) div m = x" and "(m * x + q) mod m = q"
  using assms by (simp_all add: mod_mult2_eq)

lemma sextets_of_three:
  fixes a b c :: nat
  assumes "a < 256" and "b < 256" and "c < 256"
  defines "t \<equiv> 65536 * a + 256 * b + c"
  shows "t div 2 ^ 18 mod 64 = a div 4"
    and "t div 2 ^ 12 mod 64 = 16 * (a mod 4) + b div 16"
    and "t div 2 ^ 6 mod 64 = 4 * (b mod 16) + c div 64"
    and "t div 2 ^ 0 mod 64 = c mod 64"
proof -
  have a: "t div 65536 = a" and b: "t div 256 = 256 * a + b"
    using assms by simp_all
  have "t div 262144 = t div 65536 div 4" by (simp flip: div_mult2_eq)
  then show "t div 2 ^ 18 mod 64 = a div 4" using a assms(1) by simp
  have "t div 4096 = t div 256 div 16" by (simp flip: div_mult2_eq)
  also have "\<dots> = 16 * a + b div 16" unfolding b by simp
  finally show "t div 2 ^ 12 mod 64 = 16 * (a mod 4) + b div 16"
    using assms(2) digits_mod(1) [of "b div 16" 16 a 4] by simp
  have "t div 64 = 4 * (256 * a + b) + c div 64" unfolding t_def by simp
  then have "t div 64 mod 64 = 4 * ((256 * a + b) mod 16) + c div 64"
    using assms(3) digits_mod(1) [of "c div 64" 4 "256 * a + b" 16] by simp
  moreover have "(256 * a + b) mod 16 = b mod 16"
    using mod_mult_self3 [of "16 * a" 16 b] by simp
  ultimately show "t div 2 ^ 6 mod 64 = 4 * (b mod 16) + c div 64" by simp
  have "t = (1024 * a + 4 * b) * 64 + c" unfolding t_def by simp
  then have "t mod 64 = c mod 64" by (metis mod_mult_self3)
  then show "t div 2 ^ 0 mod 64 = c mod 64" by simp
qed

lemma group_values:
  "b64_value (sextet 18 (be_value [a, b, c])) = unat a div 4"
  "b64_value (sextet 12 (be_value [a, b, c])) = 16 * (unat a mod 4) + unat b div 16"
  "b64_value (sextet 6 (be_value [a, b, c])) = 4 * (unat b mod 16) + unat c div 64"
  "b64_value (sextet 0 (be_value [a, b, c])) = unat c mod 64"
  unfolding sextet_value be_value3
  by (rule sextets_of_three; rule unat_byte_less)+

lemma group_bytes:
  "dec_1 (unat a div 4) (16 * (unat a mod 4) + unat b div 16) = a"
  "dec_2 (16 * (unat a mod 4) + unat b div 16) (4 * (unat b mod 16) + unat c div 64) = b"
  "dec_3 (4 * (unat b mod 16) + unat c div 64) (unat c mod 64) = c"
proof -
  have b: "unat b div 16 < 16" and c: "unat c div 64 < 4"
    using unat_byte_less [of b] unat_byte_less [of c] by simp_all
  show "dec_1 (unat a div 4) (16 * (unat a mod 4) + unat b div 16) = a"
    unfolding dec_1_def digits_mod(2) [OF b] div_mult_mod_eq by simp
  show "dec_2 (16 * (unat a mod 4) + unat b div 16) (4 * (unat b mod 16) + unat c div 64) = b"
    unfolding dec_2_def digits_mod(3) [OF b] digits_mod(2) [OF c] div_mult_mod_eq by simp
  show "dec_3 (4 * (unat b mod 16) + unat c div 64) (unat c mod 64) = c"
    unfolding dec_3_def digits_mod(3) [OF c] div_mult_mod_eq by simp
qed

lemma group_value_less:
  fixes a b c :: byte
  shows "unat a div 4 < 64 \<and> 16 * (unat a mod 4) + unat b div 16 < 64 \<and>
     4 * (unat b mod 16) + unat c div 64 < 64 \<and> unat c mod 64 < 64"
proof -
  have "unat a mod 4 < 4" "unat b div 16 < 16" "unat b mod 16 < 16" "unat c div 64 < 4"
    "unat a div 4 < 64"
    using unat_byte_less [of a] unat_byte_less [of b] unat_byte_less [of c] by simp_all
  then show ?thesis by (intro conjI; linarith)
qed

lemma base64_decode_groups: "base64_decode (base64_groups xs) = Some xs"
proof (induction xs rule: base64_groups.induct)
  case (1 a b c rest)
  then show ?case
    using group_value_less [of a b c]
    by (simp add: Let_def sextet_not_pad group_values group_bytes not_le)
next
  case (2 a b)
  then show ?case
    using group_value_less [of a b 0]
      group_values [of a b 0] group_bytes(1) [of a b] group_bytes(2) [of a b 0]
    by (simp add: Let_def sextet_not_pad)
next
  case (3 a)
  then show ?case
    using group_value_less [of a 0 0] group_values [of a 0 0] group_bytes(1) [of a 0]
    by (simp add: Let_def sextet_not_pad)
qed simp

lemma length_base64_groups: "length (base64_groups xs) = (length xs + 2) div 3 * 4"
proof (induction xs rule: base64_groups.induct)
  case (1 a b c rest)
  have "(length (a # b # c # rest) + 2) div 3 = Suc ((length rest + 2) div 3)"
    by (simp flip: div_add_self2)
  then show ?case using 1 by (simp add: Let_def)
qed (simp_all add: Let_def)


section \<open>Correctness of the encoder\<close>

lemma base64_encode_run:
  assumes "n \<le> length input" and "n < size_lim div 2"
  shows "sockify_base64_encode (Some input) n False output_size =
     (if output_size < (n + 2) div 3 * 4 + 1 then (SOCKIFY_ERR_OVERFLOW, 0, [])
      else (SOCKIFY_OK, (n + 2) div 3 * 4, base64_groups (take n input) @ [0]))"
proof -
  have "sz_mul (sz_add n 2 div 3) 4 = (n + 2) div 3 * 4"
    and "sz_add ((n + 2) div 3 * 4) 1 = (n + 2) div 3 * 4 + 1"
    using assms(2) by (simp_all add: sz_add_def sz_mul_def size_lim_def)
  moreover obtain j out where loop: "base64_loop input n 0 [] = (j, out)" by fastforce
  moreover have out: "out @ base64_tail input n j = base64_groups (take n input)"
    using base64_loop_groups [OF assms(1) _ loop] by simp
  moreover have "length (out @ base64_tail input n j) = (n + 2) div 3 * 4"
    unfolding out length_base64_groups using assms(1) by simp
  ultimately show ?thesis
    by (simp add: sockify_base64_encode_def Let_def del: length_append)
qed

text \<open>
  Property C11. Encoding is inverted by the decoder of RFC 4648: whenever the output has room
  for the \<open>4 * ceil (n / 3)\<close> characters and the terminating null byte, the call succeeds,
  stores exactly that many bytes and the decoded text is the input; with less room it stores
  nothing and returns \<open>SOCKIFY_ERR_OVERFLOW\<close>.
\<close>

theorem base64_roundtrip:
  assumes "length input < size_lim div 2"
  shows "if (length input + 2) div 3 * 4 + 1 \<le> output_size
     then \<exists>text. sockify_base64_encode (Some input) (length input) False output_size =
              (SOCKIFY_OK, length text, text @ [0]) \<and>
            length text = (length input + 2) div 3 * 4 \<and> base64_decode text = Some input
     else sockify_base64_encode (Some input) (length input) False output_size =
            (SOCKIFY_ERR_OVERFLOW, 0, [])"
  using base64_encode_run [OF le_refl assms, of output_size]
  by (auto simp: length_base64_groups base64_decode_groups intro!: exI [of _ "base64_groups input"])

theorem base64_roundtrip_witness:
  "\<exists>text. sockify_base64_encode (Some (cstr ''fooba'')) 5 False 9 = (SOCKIFY_OK, length text, text @ [0]) \<and>
     length text = 8 \<and> base64_decode text = Some (cstr ''fooba'')"
  using base64_roundtrip [of "cstr ''fooba''" 9]
  by (simp add: size_lim_def flip: numeral_2_eq_2)

end
