(* ===== verification/Ws_Handshake.thy ===== *)
theory Ws_Handshake
  imports Sha1 Base64 "HOL-Library.Sublist"
begin

text \<open>
  The opening handshake of \<^verbatim>\<open>src/ws/ws_handshake.c\<close>. A \<^verbatim>\<open>char *\<close> is the list of bytes from the
  address it points to, C string literals are written with \<open>cstr\<close> and carry no terminator, and
  every index of a request is below 8192 (\<open>find_header_end\<close> refuses a longer request), so the
  index arithmetic is that of \<open>nat\<close>.

  The specification splits the request head into lines and fields and says which requests are
  upgrades; the theorems show that the index loops compute it.
\<close>

section \<open>Constants\<close>

definition SOCKIFY_WS_GUID :: "byte list" where
  "SOCKIFY_WS_GUID = cstr ''258EAFA5-E914-47DA-95CA-C5AB0DC85B11''"

abbreviation SOCKIFY_WS_ACCEPT_SIZE :: size_t where "SOCKIFY_WS_ACCEPT_SIZE \<equiv> 29"
abbreviation SOCKIFY_WS_MAX_HTTP_REQUEST :: size_t where "SOCKIFY_WS_MAX_HTTP_REQUEST \<equiv> 8192"

abbreviation CR :: byte where "CR \<equiv> 13"
abbreviation LF :: byte where "LF \<equiv> 10"
abbreviation SP :: byte where "SP \<equiv> 32"
abbreviation TAB :: byte where "TAB \<equiv> 9"
abbreviation COLON :: byte where "COLON \<equiv> 58"
abbreviation COMMA :: byte where "COMMA \<equiv> 44"

section \<open>Comparison and scanning helpers\<close>

definition strlen :: "byte list \<Rightarrow> size_t" where
  "strlen s = length (takeWhile (\<lambda>c. c \<noteq> 0) s)"

definition ascii_tolower :: "int \<Rightarrow> int" where
  "ascii_tolower c = (if c \<ge> 65 \<and> c \<le> 90 then c + (97 - 65) else c)"

definition ci_equal_n :: "byte list \<Rightarrow> byte list \<Rightarrow> size_t \<Rightarrow> bool" where
  "ci_equal_n a b n = list_all (\<lambda>i. ascii_tolower (uint (a ! i)) = ascii_tolower (uint (b ! i))) [0..<n]"

definition ci_equal_string_n :: "byte list \<Rightarrow> size_t \<Rightarrow> byte list \<Rightarrow> bool" where
  "ci_equal_string_n a a_len b =
     (let b_len = strlen b in if a_len \<noteq> b_len then False else ci_equal_n a b a_len)"

definition is_token_sep :: "byte \<Rightarrow> bool" where
  "is_token_sep c \<longleftrightarrow> c = COMMA \<or> c = SP \<or> c = TAB \<or> c = CR \<or> c = LF"

text \<open>The loop \<^verbatim>\<open>while (i < n && P(s[i])) i++\<close>.\<close>

function scan_while :: "(byte \<Rightarrow> bool) \<Rightarrow> byte list \<Rightarrow> size_t \<Rightarrow> size_t \<Rightarrow> size_t" where
  "scan_while P s n i = (if i < n \<and> P (s ! i) then scan_while P s n (i + 1) else i)"
  by pat_completeness auto
termination
  by (relation "measure (\<lambda>(P, s, n, i). n - i)") auto

declare scan_while.simps [simp del]

lemma scan_while_ge: "i \<le> scan_while P s n i"
proof (induction P s n i rule: scan_while.induct)
  case (1 P s n i)
  then show ?case by (subst scan_while.simps) (simp add: Suc_leD)
qed

function token_loop :: "byte list \<Rightarrow> size_t \<Rightarrow> byte list \<Rightarrow> size_t \<Rightarrow> size_t \<Rightarrow> bool" where
  "token_loop value value_len token token_len i =
     (if i < value_len then
        let i1 = scan_while is_token_sep value value_len i;
            j = scan_while (\<lambda>c. \<not> is_token_sep c) value value_len i1
        in if j - i1 = token_len \<and> ci_equal_n (drop i1 value) token token_len then True
           else token_loop value value_len token token_len (j + 1)
      else False)"
  by pat_completeness auto
termination
proof (relation "measure (\<lambda>(v, n, t, m, i). n - i)", goal_cases)
  case (2 v n t m i i1 j)
  then have "i \<le> j" using scan_while_ge order_trans by metis
  with 2 show ?case by simp
qed simp

declare token_loop.simps [simp del]

definition ci_contains_token :: "byte list \<Rightarrow> size_t \<Rightarrow> byte list \<Rightarrow> bool" where
  "ci_contains_token value value_len token = token_loop value value_len token (strlen token) 0"

definition is_blank :: "byte \<Rightarrow> bool" where
  "is_blank c \<longleftrightarrow> c = SP \<or> c = TAB"

fun trim_left :: "byte list \<Rightarrow> size_t \<Rightarrow> byte list \<times> size_t" where
  "trim_left s 0 = (s, 0)"
| "trim_left s (Suc n) = (if is_blank (s ! 0) then trim_left (tl s) n else (s, Suc n))"

fun trim_right :: "byte list \<Rightarrow> size_t \<Rightarrow> size_t" where
  "trim_right s 0 = 0"
| "trim_right s (Suc n) = (if is_blank (s ! n) then trim_right s n else Suc n)"

definition trim_span :: "byte list \<Rightarrow> size_t \<Rightarrow> byte list \<times> size_t" where
  "trim_span start len = (case trim_left start len of (s, n) \<Rightarrow> (s, trim_right s n))"

definition memory_contains :: "byte list \<Rightarrow> size_t \<Rightarrow> byte list \<Rightarrow> size_t \<Rightarrow> bool" where
  "memory_contains haystack hay_len needle needle_len =
     (if needle_len = 0 then True
      else if hay_len < needle_len then False
      else list_ex (\<lambda>i. take needle_len (drop i haystack) = take needle_len needle)
             [0..<hay_len - needle_len + 1])"

section \<open>The end of the request head\<close>

function find_end_loop :: "byte list \<Rightarrow> size_t \<Rightarrow> size_t \<Rightarrow> size_t option" where
  "find_end_loop request request_len i =
     (if i + 3 < request_len then
        if request ! i = CR \<and> request ! (i + 1) = LF \<and> request ! (i + 2) = CR \<and> request ! (i + 3) = LF
        then Some (i + 4)
        else find_end_loop request request_len (i + 1)
      else None)"
  by pat_completeness auto
termination
  by (relation "measure (\<lambda>(r, n, i). n - i)") auto

declare find_end_loop.simps [simp del]

definition find_header_end :: "byte list \<Rightarrow> size_t \<Rightarrow> sockify_rc \<times> size_t" where
  "find_header_end request request_len =
     (if request_len > SOCKIFY_WS_MAX_HTTP_REQUEST then (SOCKIFY_ERR_OVERFLOW, 0)
      else (case find_end_loop request request_len 0 of
              Some header_len \<Rightarrow> (SOCKIFY_OK, header_len)
            | None \<Rightarrow> (SOCKIFY_ERR_AGAIN, 0)))"

section \<open>The accept key\<close>

text \<open>\<open>garbage\<close> is the uninitialised block array of the hash context. The second component is
  what the call leaves in the output array, terminator included.\<close>

definition sockify_ws_accept_key ::
  "byte list \<Rightarrow> byte list ptr \<Rightarrow> bool \<Rightarrow> size_t \<Rightarrow> sockify_rc \<times> byte list" where
  "sockify_ws_accept_key garbage client_key output_null output_size =
     (case client_key of
        None \<Rightarrow> (SOCKIFY_ERR_INVALID, [])
      | Some key \<Rightarrow>
          if output_null then (SOCKIFY_ERR_INVALID, [])
          else
            let key_len = strlen key; guid_len = strlen SOCKIFY_WS_GUID
            in if key_len = 0 \<or> sz_add key_len guid_len \<ge> 256 then (SOCKIFY_ERR_INVALID, [])
               else if output_size < SOCKIFY_WS_ACCEPT_SIZE then (SOCKIFY_ERR_OVERFLOW, [0])
               else
                 let combined = take key_len key @ take guid_len SOCKIFY_WS_GUID;
                     digest = sockify_sha1 garbage combined (sz_add key_len guid_len)
                 in (case sockify_base64_encode (Some digest) 20 False output_size of
                       (rc, written, text) \<Rightarrow> (rc, text)))"

section \<open>The response\<close>

text \<open>The loop \<^verbatim>\<open>while (line_end + 1 < header_len)\<close> that stops at the next CRLF; the code has it twice.\<close>

function line_scan :: "byte list \<Rightarrow> size_t \<Rightarrow> size_t \<Rightarrow> size_t" where
  "line_scan request header_len line_end =
     (if line_end + 1 < header_len then
        if request ! line_end = CR \<and> request ! (line_end + 1) = LF then line_end
        else line_scan request header_len (line_end + 1)
      else line_end)"
  by pat_completeness auto
termination
  by (relation "measure (\<lambda>(r, n, i). n - i)") auto

declare line_scan.simps [simp del]

lemma line_scan_ge: "i \<le> line_scan r n i"
proof (induction r n i rule: line_scan.induct)
  case (1 r n i)
  show ?case
  proof (cases "i + 1 < n \<and> \<not> (r ! i = CR \<and> r ! (i + 1) = LF)")
    case True
    with 1 have "i + 1 \<le> line_scan r n (i + 1)" by blast
    with True show ?thesis by (simp add: line_scan.simps [of r n i])
  next
    case False
    then have "line_scan r n i = i" by (subst line_scan.simps) argo
    then show ?thesis by simp
  qed
qed

record handshake_flags =
  saw_upgrade :: bool
  saw_connection :: bool
  saw_version :: bool
  saw_key :: bool
  key_value :: "byte list"
  key_len :: size_t

definition no_flags :: handshake_flags where
  "no_flags = \<lparr>saw_upgrade = False, saw_connection = False, saw_version = False, saw_key = False,
     key_value = [], key_len = 0\<rparr>"

definition note_field ::
  "byte list \<Rightarrow> size_t \<Rightarrow> byte list \<Rightarrow> size_t \<Rightarrow> handshake_flags \<Rightarrow> handshake_flags" where
  "note_field name name_len value value_len fl =
     (if ci_equal_string_n name name_len (cstr ''Upgrade'') then
        if ci_equal_string_n value value_len (cstr ''websocket'')
        then fl\<lparr>saw_upgrade := True\<rparr> else fl
      else if ci_equal_string_n name name_len (cstr ''Connection'') then
        if ci_contains_token value value_len (cstr ''upgrade'')
        then fl\<lparr>saw_connection := True\<rparr> else fl
      else if ci_equal_string_n name name_len (cstr ''Sec-WebSocket-Version'') then
        if value_len = 2 \<and> value ! 0 = 49 \<and> value ! 1 = 51
        then fl\<lparr>saw_version := True\<rparr> else fl
      else if ci_equal_string_n name name_len (cstr ''Sec-WebSocket-Key'') then
        if value_len \<noteq> 0 \<and> value_len < 128
        then fl\<lparr>key_value := value, key_len := value_len, saw_key := True\<rparr> else fl
      else fl)"

text \<open>The loop over the field lines, and its body from \<^verbatim>\<open>line_end = line_start\<close> on, which
  yields the flags and the next \<^verbatim>\<open>line_start\<close>; \<open>None\<close> is the \<open>SOCKIFY_ERR_PROTOCOL\<close> of a line
  without a colon.\<close>

definition field_line ::
  "byte list \<Rightarrow> size_t \<Rightarrow> size_t \<Rightarrow> handshake_flags \<Rightarrow> (size_t \<times> handshake_flags) option" where
  "field_line request header_len line_start fl =
     (let line_end = line_scan request header_len line_start;
          name = drop line_start request;
          name_len = scan_while (\<lambda>c. c \<noteq> COLON) name (line_end - line_start) 0
      in if line_start + name_len \<ge> line_end then None
         else
           let (value, value_len) =
                 trim_span (drop (line_start + name_len + 1) request)
                   (line_end - (line_start + name_len + 1))
           in Some (line_end + 2, note_field name name_len value value_len fl))"

lemma field_line_next: "field_line r n i fl = Some (i', fl') \<Longrightarrow> i < i'"
  using line_scan_ge [of i r n] by (auto simp: field_line_def Let_def split: if_splits prod.splits)

function field_loop ::
  "byte list \<Rightarrow> size_t \<Rightarrow> size_t \<Rightarrow> handshake_flags \<Rightarrow> handshake_flags option" where
  "field_loop request header_len line_start fl =
     (if line_start + 1 < header_len then
        if request ! line_start = CR \<and> request ! (line_start + 1) = LF then Some fl
        else
          (case field_line request header_len line_start fl of
             None \<Rightarrow> None
           | Some (next_start, fl') \<Rightarrow> field_loop request header_len next_start fl')
      else Some fl)"
  by pat_completeness auto
termination
  by (relation "measure (\<lambda>(r, n, i, fl). n - i)") (auto dest!: field_line_next)

declare field_loop.simps [simp del]

definition response_prefix :: "byte list" where
  "response_prefix =
     cstr ''HTTP/1.1 101 Switching Protocols'' @ [CR, LF] @
     cstr ''Upgrade: websocket'' @ [CR, LF] @
     cstr ''Connection: Upgrade'' @ [CR, LF] @
     cstr ''Sec-WebSocket-Accept: ''"

definition response_suffix :: "byte list" where
  "response_suffix = [CR, LF, CR, LF]"

text \<open>The tail of \<^verbatim>\<open>sockify_ws_build_handshake_response_ex\<close>, after the loop over the fields.\<close>

definition finish_handshake ::
  "byte list \<Rightarrow> handshake_flags \<Rightarrow> size_t \<Rightarrow> size_t \<Rightarrow> sockify_rc \<times> size_t \<times> size_t \<times> byte list" where
  "finish_handshake garbage fl header_len response_size =
     (if \<not> saw_upgrade fl \<or> \<not> saw_connection fl \<or> \<not> saw_version fl \<or> \<not> saw_key fl
      then (SOCKIFY_ERR_PROTOCOL, 0, 0, [])
      else
        let key_copy = take (key_len fl) (key_value fl) @ [0]
        in (case sockify_ws_accept_key garbage (Some key_copy) False SOCKIFY_WS_ACCEPT_SIZE of
              (rc, accept) \<Rightarrow>
                if rc \<noteq> SOCKIFY_OK then (rc, 0, 0, [])
                else
                  let accept_len = strlen accept;
                      temp_len = length response_prefix + accept_len + length response_suffix;
                      temp = response_prefix @ take accept_len accept @ response_suffix @ [0]
                  in if temp_len \<ge> 256 then (SOCKIFY_ERR_OVERFLOW, 0, 0, [])
                     else if response_size \<le> temp_len then (SOCKIFY_ERR_OVERFLOW, 0, 0, [0])
                     else (SOCKIFY_OK, temp_len, header_len, temp)))"

text \<open>The components of the result: return code, \<^verbatim>\<open>*written\<close>, \<^verbatim>\<open>*consumed\<close> and the bytes stored
  into the response array (terminator included). The two out-parameters are results, so the test
  for null pointers among them has no counterpart.\<close>

definition sockify_ws_build_handshake_response_ex ::
  "byte list \<Rightarrow> byte list ptr \<Rightarrow> size_t \<Rightarrow> bool \<Rightarrow> size_t
     \<Rightarrow> sockify_rc \<times> size_t \<times> size_t \<times> byte list" where
  "sockify_ws_build_handshake_response_ex garbage request_ptr request_len response_null response_size =
     (case request_ptr of
        None \<Rightarrow> (SOCKIFY_ERR_INVALID, 0, 0, [])
      | Some request \<Rightarrow>
          if response_null then (SOCKIFY_ERR_INVALID, 0, 0, [])
          else
            (case find_header_end request request_len of
               (rc, header_len) \<Rightarrow>
                 if rc \<noteq> SOCKIFY_OK then (rc, 0, 0, [])
                 else
                   let line_end = line_scan request header_len 0
                   in if line_end < 14 then (SOCKIFY_ERR_PROTOCOL, 0, 0, [])
                      else if \<not> ci_equal_n request (cstr ''GET '') 4 then (SOCKIFY_ERR_PROTOCOL, 0, 0, [])
                      else if \<not> memory_contains request line_end (cstr '' HTTP/1.1'') 9 \<and>
                              \<not> memory_contains request line_end (cstr '' HTTP/1.0'') 9
                      then (SOCKIFY_ERR_PROTOCOL, 0, 0, [])
                      else
                        (case field_loop request header_len (line_end + 2) no_flags of
                           None \<Rightarrow> (SOCKIFY_ERR_PROTOCOL, 0, 0, [])
                         | Some fl \<Rightarrow> finish_handshake garbage fl header_len response_size)))"

definition sockify_ws_build_handshake_response ::
  "byte list \<Rightarrow> byte list ptr \<Rightarrow> size_t \<Rightarrow> bool \<Rightarrow> size_t \<Rightarrow> sockify_rc \<times> size_t \<times> byte list" where
  "sockify_ws_build_handshake_response garbage request request_len response_null response_size =
     (case sockify_ws_build_handshake_response_ex garbage request request_len response_null response_size of
        (rc, written, consumed, response) \<Rightarrow> (rc, written, response))"


section \<open>Specification: lines, fields, upgrade requests\<close>

definition crlf2 :: "byte list" where
  "crlf2 = [CR, LF, CR, LF]"

definition ci_eq :: "byte list \<Rightarrow> byte list \<Rightarrow> bool" where
  "ci_eq a b \<longleftrightarrow> map (ascii_tolower \<circ> uint) a = map (ascii_tolower \<circ> uint) b"

definition trim :: "byte list \<Rightarrow> byte list" where
  "trim xs = rev (dropWhile is_blank (rev (dropWhile is_blank xs)))"

function tokens :: "byte list \<Rightarrow> byte list list" where
  "tokens xs =
     (let ys = dropWhile is_token_sep xs in
      if ys = [] then []
      else takeWhile (\<lambda>c. \<not> is_token_sep c) ys # tokens (dropWhile (\<lambda>c. \<not> is_token_sep c) ys))"
  by pat_completeness auto
termination
proof (relation "measure length", goal_cases)
  case (2 xs ys)
  then have "hd ys \<notin> Collect is_token_sep" by (metis hd_dropWhile mem_Collect_eq)
  then have "length (dropWhile (\<lambda>c. \<not> is_token_sep c) ys) < length ys"
    using 2(2) by (cases ys) (simp_all add: length_dropWhile_le le_imp_less_Suc)
  with 2(1) show ?case using length_dropWhile_le [of is_token_sep xs] by simp
qed simp

declare tokens.simps [simp del]

fun cut_line :: "byte list \<Rightarrow> byte list" where
  "cut_line (a # b # r) = (if a = CR \<and> b = LF then [] else a # cut_line (b # r))"
| "cut_line xs = xs"

function head_lines :: "byte list \<Rightarrow> byte list list" where
  "head_lines xs =
     (if length xs \<le> 1 \<or> take 2 xs = [CR, LF] then []
      else cut_line xs # head_lines (drop (length (cut_line xs) + 2) xs))"
  by pat_completeness auto
termination
  by (relation "measure length") auto

declare head_lines.simps [simp del]

definition parse_field :: "byte list \<Rightarrow> (byte list \<times> byte list) option" where
  "parse_field l =
     (if COLON \<in> set l
      then Some (takeWhile (\<lambda>c. c \<noteq> COLON) l, trim (tl (dropWhile (\<lambda>c. c \<noteq> COLON) l)))
      else None)"

definition request_fields :: "byte list \<Rightarrow> (byte list \<times> byte list) list option" where
  "request_fields head = those (map parse_field (head_lines (drop (length (cut_line head) + 2) head)))"

definition request_line_ok :: "byte list \<Rightarrow> bool" where
  "request_line_ok l \<longleftrightarrow>
     14 \<le> length l \<and> ci_eq (take 4 l) (cstr ''GET '') \<and>
     (sublist (cstr '' HTTP/1.1'') l \<or> sublist (cstr '' HTTP/1.0'') l)"

definition field_values :: "string \<Rightarrow> (byte list \<times> byte list) list \<Rightarrow> byte list list" where
  "field_values name fs = map snd (filter (\<lambda>f. ci_eq (fst f) (cstr name)) fs)"

definition usable_keys :: "(byte list \<times> byte list) list \<Rightarrow> byte list list" where
  "usable_keys fs = filter (\<lambda>v. v \<noteq> [] \<and> length v < 128) (field_values ''Sec-WebSocket-Key'' fs)"

definition upgrade_fields :: "(byte list \<times> byte list) list \<Rightarrow> bool" where
  "upgrade_fields fs \<longleftrightarrow>
     (\<exists>v \<in> set (field_values ''Upgrade'' fs). ci_eq v (cstr ''websocket'')) \<and>
     (\<exists>v \<in> set (field_values ''Connection'' fs). \<exists>t \<in> set (tokens v). ci_eq t (cstr ''upgrade'')) \<and>
     cstr ''13'' \<in> set (field_values ''Sec-WebSocket-Version'' fs) \<and>
     usable_keys fs \<noteq> []"

text \<open>The key of a request head that is an acceptable upgrade; the last usable key counts.\<close>

definition upgrade_key :: "byte list \<Rightarrow> byte list option" where
  "upgrade_key head =
     (case request_fields head of
        None \<Rightarrow> None
      | Some fs \<Rightarrow>
          if request_line_ok (cut_line head) \<and> upgrade_fields fs then Some (last (usable_keys fs)) else None)"

section \<open>The helpers compute the specification\<close>

lemma drop_take_Cons:
  "i < n \<Longrightarrow> n \<le> length s \<Longrightarrow> drop i (take n s) = s ! i # drop (i + 1) (take n s)"
  using Cons_nth_drop_Suc [of i "take n s"] by simp

lemma scan_while_eq:
  "n \<le> length s \<Longrightarrow> i \<le> n \<Longrightarrow> scan_while P s n i = i + length (takeWhile P (drop i (take n s)))"
proof (induction P s n i rule: scan_while.induct)
  case (1 P s n i)
  show ?case
  proof (cases "i < n \<and> P (s ! i)")
    case True
    with 1 have "drop i (take n s) = s ! i # drop (i + 1) (take n s)" by (intro drop_take_Cons) simp_all
    with True 1 show ?thesis by (simp add: scan_while.simps [of P s n i])
  next
    case False
    have "takeWhile P (drop i (take n s)) = []"
    proof (cases "i < n")
      case True
      with 1 have "drop i (take n s) = s ! i # drop (i + 1) (take n s)" by (intro drop_take_Cons) simp_all
      with True False show ?thesis by simp
    qed (use 1 in simp)
    moreover have "scan_while P s n i = i" using False by (subst scan_while.simps) argo
    ultimately show ?thesis by simp
  qed
qed

lemma ci_equal_n_eq:
  "n \<le> length a \<Longrightarrow> n \<le> length b \<Longrightarrow> ci_equal_n a b n = ci_eq (take n a) (take n b)"
  by (auto simp: ci_equal_n_def ci_eq_def list_all_iff list_eq_iff_nth_eq)

lemma strlen_cstr [simp]: "(0 :: byte) \<notin> set b \<Longrightarrow> strlen b = length b"
  by (metis (mono_tags, lifting) strlen_def takeWhile_eq_all_conv)

lemma ci_eq_length: "ci_eq a b \<Longrightarrow> length a = length b"
  by (metis ci_eq_def length_map)

lemma ci_equal_string_n_eq:
  assumes "n \<le> length a" and "0 \<notin> set b"
  shows "ci_equal_string_n a n b = ci_eq (take n a) b"
proof (cases "n = length b")
  case True
  with assms ci_equal_n_eq [of n a b] show ?thesis by (simp add: ci_equal_string_n_def)
next
  case False
  with assms ci_eq_length [of "take n a" b] show ?thesis by (auto simp: ci_equal_string_n_def)
qed

lemma trim_left_eq:
  "n \<le> length s \<Longrightarrow> trim_left s n = (s', n') \<Longrightarrow> n' \<le> length s' \<and> take n' s' = dropWhile is_blank (take n s)"
proof (induction s n rule: trim_left.induct)
  case (2 s n)
  then show ?case by (cases s) (auto split: if_splits)
qed auto

lemma trim_right_eq:
  "n \<le> length s \<Longrightarrow> trim_right s n \<le> n \<and> take (trim_right s n) s = rev (dropWhile is_blank (rev (take n s)))"
  by (induction s n rule: trim_right.induct) (auto simp: take_Suc_nth)

lemma trim_span_eq:
  assumes "n \<le> length s" and "trim_span s n = (s', n')"
  shows "n' \<le> length s'" and "take n' s' = trim (take n s)"
proof -
  obtain m where l: "trim_left s n = (s', m)" and n': "n' = trim_right s' m"
    using assms(2) by (auto simp: trim_span_def split: prod.splits)
  show "n' \<le> length s'" "take n' s' = trim (take n s)"
    using trim_left_eq [OF assms(1) l] trim_right_eq [of m s'] n' by (auto simp: trim_def)
qed

lemma memory_contains_eq:
  assumes "n \<le> length h" and "needle \<noteq> []"
  shows "memory_contains h n needle (length needle) = sublist needle (take n h)"
proof -
  let ?m = "length needle"
  have "(\<exists>i < n - ?m + 1. take ?m (drop i h) = needle) = sublist needle (take n h)" if fits: "?m \<le> n"
  proof
    assume "\<exists>i < n - ?m + 1. take ?m (drop i h) = needle"
    then obtain i where i: "i < n - ?m + 1" "take ?m (drop i h) = needle" by blast
    then have "i + ?m \<le> n" using fits by linarith
    then have "take (i + ?m) (take n h) = take i h @ needle"
      using i(2) by (simp add: take_add min_def)
    then have "take n h = take i h @ needle @ drop (i + ?m) (take n h)"
      by (metis append.assoc append_take_drop_id)
    then show "sublist needle (take n h)" by (metis sublist_appendI)
  next
    assume "sublist needle (take n h)"
    then obtain xs ys where e: "take n h = xs @ needle @ ys" by (auto simp: sublist_def)
    then have len: "length xs + ?m \<le> n" using assms(1) by (metis add_le_mono1 append_assoc le_add1 length_append length_take min.absorb2)
    have "take ?m (drop (length xs) h) = take ?m (drop (length xs) (take n h))"
      using len by (simp add: drop_take)
    then have "take ?m (drop (length xs) h) = needle" using e by simp
    with len fits show "\<exists>i < n - ?m + 1. take ?m (drop i h) = needle" by (intro exI [of _ "length xs"]) auto
  qed
  moreover have "\<not> sublist needle (take n h)" if "n < ?m"
    using that sublist_length_le by fastforce
  moreover have "list_ex P [0..<k] = (\<exists>i < k. P i)" for P :: "nat \<Rightarrow> bool" and k
    by (auto simp: list_ex_iff)
  ultimately show ?thesis using assms(2) by (simp add: memory_contains_def del: upt_Suc)
qed


lemma tokens_Nil: "dropWhile is_token_sep xs = [] \<Longrightarrow> tokens xs = []"
  by (simp add: tokens.simps [of xs])

lemma tokens_rest:
  assumes "dropWhile is_token_sep xs \<noteq> []"
  defines "ys \<equiv> dropWhile is_token_sep xs"
  defines "t \<equiv> takeWhile (\<lambda>c. \<not> is_token_sep c) ys"
  shows "tokens xs = t # tokens (drop (length t + 1) ys)" and "t \<noteq> []"
proof -
  have hd: "\<not> is_token_sep (hd ys)" using assms(1) unfolding ys_def by (rule hd_dropWhile)
  then show "t \<noteq> []" using assms(1) by (cases ys) (simp_all add: t_def ys_def)
  let ?z = "dropWhile (\<lambda>c. \<not> is_token_sep c) ys"
  have z: "?z = drop (length t) ys" unfolding t_def by (rule dropWhile_eq_drop)
  have "tokens ?z = tokens (drop 1 ?z)"
  proof (cases ?z)
    case (Cons c cs)
    then have "is_token_sep c" by (metis hd_dropWhile list.sel(1) list.simps(3))
    with Cons show ?thesis by (simp add: tokens.simps [of "c # cs"] tokens.simps [of cs])
  next
    case Nil
    then show ?thesis by (simp only: drop_Nil)
  qed
  then show "tokens xs = t # tokens (drop (length t + 1) ys)"
    using assms(1) z by (simp add: tokens.simps [of xs] ys_def t_def Let_def)
qed

lemma token_loop_eq:
  assumes "n \<le> length v" and "token \<noteq> []" and "i \<le> n + 1"
  shows "token_loop v n token (length token) i = (\<exists>t \<in> set (tokens (drop i (take n v))). ci_eq t token)"
  using assms
proof (induction v n token "length token" i rule: token_loop.induct)
  case (1 v n token i)
  show ?case
  proof (cases "i < n")
    case True
    define xs where "xs = drop i (take n v)"
    define ys where "ys = dropWhile is_token_sep xs"
    define t where "t = takeWhile (\<lambda>c. \<not> is_token_sep c) ys"
    define i1 where "i1 = scan_while is_token_sep v n i"
    define j where "j = scan_while (\<lambda>c. \<not> is_token_sep c) v n i1"
    have i1: "i1 = i + length (takeWhile is_token_sep xs)"
      using 1 True by (simp add: i1_def xs_def scan_while_eq)
    have "length (takeWhile is_token_sep xs) \<le> n - i"
      using length_takeWhile_le [of is_token_sep xs] 1 by (simp add: xs_def)
    then have i1n: "i1 \<le> n" using i1 True by simp
    have ys: "ys = drop i1 (take n v)"
      by (simp add: ys_def dropWhile_eq_drop i1 xs_def add.commute)
    have j: "j = i1 + length t"
      using 1 i1n by (simp add: j_def scan_while_eq t_def ys)
    have jn: "j \<le> n"
      using length_takeWhile_le [of "\<lambda>c. \<not> is_token_sep c" ys] 1 i1n by (simp add: j t_def ys)
    have t: "t = take (length t) (drop i1 v)"
    proof -
      have "t = take (length t) ys" unfolding t_def by (rule takeWhile_eq_take)
      also have "\<dots> = take (length t) (drop i1 v)" using jn j by (simp add: ys drop_take min_def)
      finally show ?thesis .
    qed
    have hit: "(j - i1 = length token \<and> ci_equal_n (drop i1 v) token (length token)) = ci_eq t token"
    proof (cases "length t = length token")
      case True
      have "ci_equal_n (drop i1 v) token (length token) = ci_eq (take (length token) (drop i1 v)) token"
        using ci_equal_n_eq [of "length token" "drop i1 v" token] jn j True 1 by simp
      with True t j show ?thesis by simp
    next
      case False
      with j ci_eq_length show ?thesis by auto
    qed
    have loop: "token_loop v n token (length token) i =
        (if ci_eq t token then True else token_loop v n token (length token) (j + 1))"
      using True hit by (simp add: token_loop.simps [of v n token "length token" i] Let_def
          flip: i1_def j_def)
    have rest: "drop (length t + 1) ys = drop (j + 1) (take n v)" by (simp add: ys j add_ac)
    have IH: "token_loop v n token (length token) (j + 1) =
        (\<exists>t \<in> set (tokens (drop (j + 1) (take n v))). ci_eq t token)" if "\<not> ci_eq t token"
      using "1.hyps" [OF True i1_def j_def] that hit jn 1 by simp
    show ?thesis
    proof (cases "ys = []")
      case True
      then have "t = []" "n \<le> j" using 1 i1n by (simp_all add: t_def ys j)
      then have "\<not> ci_eq t token" "drop (j + 1) (take n v) = []"
        using 1 ci_eq_length [of t token] by auto
      moreover from this(2) have "tokens (drop (j + 1) (take n v)) = []" by (simp add: tokens_Nil)
      ultimately show ?thesis
        using loop IH tokens_Nil [of xs] True by (simp add: ys_def flip: xs_def)
    next
      case False
      then have "tokens xs = t # tokens (drop (j + 1) (take n v))"
        using tokens_rest(1) [of xs] rest by (simp add: ys_def t_def)
      then show ?thesis using loop IH by (auto simp flip: xs_def)
    qed
  next
    case False
    then show ?thesis by (simp add: token_loop.simps [of v n token "length token" i] tokens_Nil)
  qed
qed

lemma ci_contains_token_eq:
  assumes "n \<le> length v" and "token \<noteq> []" and "0 \<notin> set token"
  shows "ci_contains_token v n token = (\<exists>t \<in> set (tokens (take n v)). ci_eq t token)"
  using token_loop_eq [OF assms(1,2), of 0] assms(3) by (simp add: ci_contains_token_def)

section \<open>Lines\<close>

lemma cut_line_append: "CR \<notin> set l \<Longrightarrow> cut_line (l @ CR # LF # r) = l"
proof (induction l)
  case (Cons a l)
  then show ?case by (cases l) auto
qed simp

lemma cut_line_bound:
  "suffix [CR, LF] xs \<Longrightarrow> length (cut_line xs) + 2 \<le> length xs \<and>
     take 2 (drop (length (cut_line xs)) xs) = [CR, LF] \<and> cut_line xs = take (length (cut_line xs)) xs"
proof (induction xs rule: cut_line.induct)
  case (1 a b r)
  show ?case
  proof (cases "a = CR \<and> b = LF")
    case False
    then have "suffix [CR, LF] (b # r)" using 1(2) by (auto simp: suffix_Cons)
    with 1(1) False show ?thesis by auto
  qed simp
qed (auto simp: suffix_def Cons_eq_append_conv)

lemma line_scan_eq:
  assumes "h \<le> length r" and "i \<le> h" and "suffix [CR, LF] (drop i (take h r))"
  shows "line_scan r h i = i + length (cut_line (drop i (take h r)))"
  using assms
proof (induction r h i rule: line_scan.induct)
  case (1 r h i)
  have len: "i + 1 < h" using suffix_length_le [OF "1.prems"(3)] "1.prems" by simp
  have xs: "drop i (take h r) = r ! i # r ! (i + 1) # drop (i + 2) (take h r)"
    using len "1.prems" by (simp add: drop_take_Cons)
  show ?case
  proof (cases "r ! i = CR \<and> r ! (i + 1) = LF")
    case True
    then show ?thesis using len xs by (simp add: line_scan.simps [of r h i])
  next
    case False
    have "suffix [CR, LF] (drop (i + 1) (take h r))"
      using "1.prems"(3) False xs len "1.prems"(1) by (auto simp: suffix_Cons drop_take_Cons)
    then have "line_scan r h (i + 1) = i + 1 + length (cut_line (drop (i + 1) (take h r)))"
      using "1.IH" len False "1.prems" by simp
    moreover have "drop (i + 1) (take h r) = r ! (i + 1) # drop (i + 2) (take h r)"
      using len "1.prems" by (simp add: drop_take_Cons)
    ultimately show ?thesis
      using False len xs by (simp add: line_scan.simps [of r h i])
  qed
qed


section \<open>Fields\<close>

lemma literal_no_nul [simp]:
  "0 \<notin> set (cstr ''Upgrade'')" "0 \<notin> set (cstr ''websocket'')" "0 \<notin> set (cstr ''Connection'')"
  "0 \<notin> set (cstr ''upgrade'')" "0 \<notin> set (cstr ''Sec-WebSocket-Version'')"
  "0 \<notin> set (cstr ''Sec-WebSocket-Key'')" "0 \<notin> set SOCKIFY_WS_GUID"
  by (simp_all add: cstr_def SOCKIFY_WS_GUID_def)

text \<open>What the flags say after a list of fields.\<close>

definition flags_of :: "handshake_flags \<Rightarrow> (byte list \<times> byte list) list \<Rightarrow> bool" where
  "flags_of fl fs \<longleftrightarrow>
     saw_upgrade fl = (\<exists>v \<in> set (field_values ''Upgrade'' fs). ci_eq v (cstr ''websocket'')) \<and>
     saw_connection fl =
       (\<exists>v \<in> set (field_values ''Connection'' fs). \<exists>t \<in> set (tokens v). ci_eq t (cstr ''upgrade'')) \<and>
     saw_version fl = (cstr ''13'' \<in> set (field_values ''Sec-WebSocket-Version'' fs)) \<and>
     saw_key fl = (usable_keys fs \<noteq> []) \<and>
     (usable_keys fs \<noteq> [] \<longrightarrow>
        key_len fl \<le> length (key_value fl) \<and> take (key_len fl) (key_value fl) = last (usable_keys fs))"

lemma flags_of_no_flags: "flags_of no_flags []"
  by (simp add: flags_of_def no_flags_def field_values_def usable_keys_def)

lemma field_values_snoc:
  "field_values name (fs @ [(n, v)]) = field_values name fs @ (if ci_eq n (cstr name) then [v] else [])"
  by (simp add: field_values_def)

lemma usable_keys_snoc:
  "usable_keys (fs @ [(n, v)]) = usable_keys fs @
     (if ci_eq n (cstr ''Sec-WebSocket-Key'') \<and> v \<noteq> [] \<and> length v < 128 then [v] else [])"
  by (simp add: usable_keys_def field_values_snoc)

lemma ci_names_distinct:
  "ci_eq n (cstr ''Upgrade'') \<Longrightarrow> \<not> ci_eq n (cstr ''Connection'')"
  "ci_eq n (cstr ''Upgrade'') \<Longrightarrow> \<not> ci_eq n (cstr ''Sec-WebSocket-Version'')"
  "ci_eq n (cstr ''Upgrade'') \<Longrightarrow> \<not> ci_eq n (cstr ''Sec-WebSocket-Key'')"
  "ci_eq n (cstr ''Connection'') \<Longrightarrow> \<not> ci_eq n (cstr ''Sec-WebSocket-Version'')"
  "ci_eq n (cstr ''Connection'') \<Longrightarrow> \<not> ci_eq n (cstr ''Sec-WebSocket-Key'')"
  "ci_eq n (cstr ''Sec-WebSocket-Version'') \<Longrightarrow> \<not> ci_eq n (cstr ''Sec-WebSocket-Key'')"
  by (auto dest!: ci_eq_length)

lemma value_is_13:
  assumes "n \<le> length v"
  shows "(n = 2 \<and> v ! 0 = 49 \<and> v ! 1 = 51) = (cstr ''13'' = take n v)"
proof -
  have lit: "cstr ''13'' = [49, 51]" by (simp add: cstr_def)
  show ?thesis
  proof (cases "n = 2")
    case True
    with assms obtain a b r where "v = a # b # r"
      by (metis Suc_le_length_iff numeral_2_eq_2)
    with True lit show ?thesis by auto
  next
    case False
    then have "take n v \<noteq> cstr ''13''" using assms by (auto dest: arg_cong [of _ _ length])
    with False show ?thesis by metis
  qed
qed

lemma note_field_flags:
  assumes "flags_of fl fs" and "name_len \<le> length name" and "value_len \<le> length v"
  shows "flags_of (note_field name name_len v value_len fl) (fs @ [(take name_len name, take value_len v)])"
proof -
  have upg: "ci_equal_string_n v value_len (cstr ''websocket'') = ci_eq (take value_len v) (cstr ''websocket'')"
    using assms(3) by (simp add: ci_equal_string_n_eq)
  have con: "ci_contains_token v value_len (cstr ''upgrade'') =
      (\<exists>t \<in> set (tokens (take value_len v)). ci_eq t (cstr ''upgrade''))"
    using assms(3) by (simp add: ci_contains_token_eq cstr_def)
  have ver: "(value_len = 2 \<and> v ! 0 = 49 \<and> v ! 1 = 51) = (cstr ''13'' = take value_len v)"
    using assms(3) by (rule value_is_13)
  note names = ci_equal_string_n_eq [OF assms(2)]
  let ?is = "\<lambda>s. ci_eq (take name_len name) (cstr s)"
  note d = ci_names_distinct [of "take name_len name"]
  consider
      (upgrade) "?is ''Upgrade''" "\<not> ?is ''Connection''" "\<not> ?is ''Sec-WebSocket-Version''" "\<not> ?is ''Sec-WebSocket-Key''"
    | (connection) "\<not> ?is ''Upgrade''" "?is ''Connection''" "\<not> ?is ''Sec-WebSocket-Version''" "\<not> ?is ''Sec-WebSocket-Key''"
    | (version) "\<not> ?is ''Upgrade''" "\<not> ?is ''Connection''" "?is ''Sec-WebSocket-Version''" "\<not> ?is ''Sec-WebSocket-Key''"
    | (key) "\<not> ?is ''Upgrade''" "\<not> ?is ''Connection''" "\<not> ?is ''Sec-WebSocket-Version''" "?is ''Sec-WebSocket-Key''"
    | (other) "\<not> ?is ''Upgrade''" "\<not> ?is ''Connection''" "\<not> ?is ''Sec-WebSocket-Version''" "\<not> ?is ''Sec-WebSocket-Key''"
    using d by blast
  then show ?thesis
  proof cases
    case upgrade
    with assms(1) show ?thesis
      by (simp add: note_field_def names upg flags_of_def usable_keys_snoc field_values_snoc)
  next
    case connection
    with assms(1) show ?thesis
      by (simp add: note_field_def names con flags_of_def usable_keys_snoc field_values_snoc)
  next
    case version
    with assms(1) show ?thesis
      unfolding note_field_def ver
      by (cases "cstr ''13'' = take value_len v")
        (simp_all add: names flags_of_def usable_keys_snoc field_values_snoc)
  next
    case key
    define w where "w = take value_len v"
    have w: "(value_len \<noteq> 0 \<and> value_len < 128) = (w \<noteq> [] \<and> value_len < 128)" "length w = value_len"
      using assms(3) by (auto simp: w_def)
    from key assms show ?thesis
      unfolding note_field_def w(1)
      by (cases "w \<noteq> [] \<and> value_len < 128")
        (simp_all add: names flags_of_def usable_keys_snoc field_values_snoc w(2) flip: w_def, blast)
  next
    case other
    with assms(1) show ?thesis
      by (simp add: note_field_def names flags_of_def usable_keys_snoc field_values_snoc)
  qed
qed


lemma length_takeWhile_mem: "x \<in> set xs \<Longrightarrow> length (takeWhile (\<lambda>c. c \<noteq> x) xs) < length xs"
  by (induction xs) auto

lemma field_line_eq:
  assumes "h \<le> length r" and "i \<le> h" and "suffix [CR, LF] (drop i (take h r))" and "flags_of fl fs"
  defines "l \<equiv> cut_line (drop i (take h r))"
  shows "case parse_field l of
     None \<Rightarrow> field_line r h i fl = None
   | Some f \<Rightarrow> \<exists>fl'. field_line r h i fl = Some (i + length l + 2, fl') \<and> flags_of fl' (fs @ [f])"
proof -
  have e: "line_scan r h i = i + length l" unfolding l_def by (rule line_scan_eq [OF assms(1-3)])
  have cut: "length l + 2 \<le> h - i" "l = take (length l) (drop i (take h r))"
    using cut_line_bound [OF assms(3)] assms(1) by (simp_all add: l_def)
  have l: "take (length l) (drop i r) = l"
    using cut by (simp add: drop_take min_def)
  let ?name = "takeWhile (\<lambda>c. c \<noteq> COLON) l"
  have n: "scan_while (\<lambda>c. c \<noteq> COLON) (drop i r) (length l) 0 = length ?name"
    using cut(1) assms(1) l by (simp add: scan_while_eq)
  show ?thesis
  proof (cases "COLON \<in> set l")
    case False
    then have "?name = l" by (auto simp: takeWhile_eq_all_conv)
    with False e n show ?thesis by (simp add: field_line_def parse_field_def)
  next
    case True
    then have less: "length ?name < length l" by (rule length_takeWhile_mem)
    let ?m = "length l - (length ?name + 1)"
    let ?v = "drop (i + length ?name + 1) r"
    obtain v vl where t: "trim_span ?v ?m = (v, vl)" by fastforce
    have m: "?m \<le> length ?v" using cut(1) assms(1) by simp
    have "drop (length ?name + 1) (take (length l) (drop i r)) = take ?m ?v"
      by (simp add: drop_take add_ac)
    then have "take ?m ?v = drop (length ?name + 1) l" unfolding l by simp
    moreover have "drop (length ?name + 1) l = tl (dropWhile (\<lambda>c. c \<noteq> COLON) l)"
      by (simp add: dropWhile_eq_drop drop_Suc tl_drop)
    ultimately have v: "vl \<le> length v" "take vl v = trim (tl (dropWhile (\<lambda>c. c \<noteq> COLON) l))"
      using trim_span_eq [OF m t] by simp_all
    have name: "take (length ?name) (drop i r) = ?name"
      using l less by (metis min.absorb1 less_imp_le take_take takeWhile_eq_take)
    have "field_line r h i fl = Some (i + length l + 2, note_field (drop i r) (length ?name) v vl fl)"
      using e n less t by (simp add: field_line_def)
    moreover have "flags_of (note_field (drop i r) (length ?name) v vl fl)
        (fs @ [(?name, trim (tl (dropWhile (\<lambda>c. c \<noteq> COLON) l)))])"
      using note_field_flags [OF assms(4) _ v(1), of "length ?name" "drop i r"] name v(2) less cut(1) assms(1)
      by simp
    ultimately show ?thesis using True by (simp add: parse_field_def)
  qed
qed

lemma field_loop_eq:
  assumes "h \<le> length r" and "i \<le> h" and "suffix [CR, LF] (take h r)" and "flags_of fl fs"
  shows "case those (map parse_field (head_lines (drop i (take h r)))) of
     None \<Rightarrow> field_loop r h i fl = None
   | Some gs \<Rightarrow> \<exists>fl'. field_loop r h i fl = Some fl' \<and> flags_of fl' (fs @ gs)"
  using assms
proof (induction r h i fl arbitrary: fs rule: field_loop.induct)
  case (1 r h i fl)
  define xs where "xs = drop i (take h r)"
  show ?case
  proof (cases "i + 1 < h \<and> \<not> (r ! i = CR \<and> r ! (i + 1) = LF)")
    case False
    moreover have "take 2 xs = [r ! i, r ! (i + 1)]" if "i + 1 < h"
      using that "1.prems"(1) by (simp add: xs_def drop_take_Cons)
    ultimately have "length xs \<le> 1 \<or> take 2 xs = [CR, LF]"
      using "1.prems"(1) by (cases "i + 1 < h") (auto simp: xs_def)
    then have "head_lines xs = []" by (simp add: head_lines.simps [of xs])
    moreover have "field_loop r h i fl = Some fl"
      using False by (subst field_loop.simps) argo
    ultimately show ?thesis using "1.prems"(4) by (simp flip: xs_def)
  next
    case True
    have two: "2 \<le> length xs" "take 2 xs = [r ! i, r ! (i + 1)]"
      using True "1.prems"(1) by (simp_all add: xs_def drop_take_Cons)
    then have suf: "suffix [CR, LF] xs"
      using "1.prems"(3) suffix_drop [of i "take h r"] suffix_length_suffix [of "[CR, LF]" "take h r" xs]
      by (simp add: xs_def)
    define l where "l = cut_line xs"
    have lines: "head_lines xs = l # head_lines (drop (i + length l + 2) (take h r))"
    proof -
      have "\<not> (length xs \<le> 1 \<or> take 2 xs = [CR, LF])" using two True by auto
      then have "head_lines xs = l # head_lines (drop (length l + 2) xs)"
        unfolding l_def by (subst head_lines.simps) argo
      then show ?thesis by (simp add: xs_def add_ac)
    qed
    have step: "case parse_field l of
         None \<Rightarrow> field_line r h i fl = None
       | Some f \<Rightarrow> \<exists>fl'. field_line r h i fl = Some (i + length l + 2, fl') \<and> flags_of fl' (fs @ [f])"
      unfolding l_def xs_def
      by (rule field_line_eq) (use "1.prems" suf in \<open>simp_all flip: xs_def\<close>)
    have bound: "i + length l + 2 \<le> h"
    proof -
      have "length l + 2 \<le> length xs" using cut_line_bound [OF suf] by (simp add: l_def)
      moreover have "length xs = h - i" using "1.prems"(1) by (simp add: xs_def)
      ultimately show ?thesis by linarith
    qed
    show ?thesis
    proof (cases "parse_field l")
      case None
      then show ?thesis
        using step True lines by (simp add: field_loop.simps [of r h i] flip: xs_def)
    next
      case (Some f)
      then obtain fl' where fl': "field_line r h i fl = Some (i + length l + 2, fl')" "flags_of fl' (fs @ [f])"
        using step by auto
      have loop: "field_loop r h i fl = field_loop r h (i + length l + 2) fl'"
        using True fl'(1) by (subst field_loop.simps) auto
      have "case those (map parse_field (head_lines (drop (i + length l + 2) (take h r)))) of
         None \<Rightarrow> field_loop r h (i + length l + 2) fl' = None
       | Some gs \<Rightarrow> \<exists>fl''. field_loop r h (i + length l + 2) fl' = Some fl'' \<and> flags_of fl'' ((fs @ [f]) @ gs)"
        using "1.IH" [OF _ _ fl'(1) refl _ bound] True fl'(2) "1.prems" by simp
      then show ?thesis
        using Some lines loop by (auto simp flip: xs_def split: option.splits)
    qed
  qed
qed


section \<open>The end of the head\<close>

lemma find_end_loop_eq:
  "n \<le> length r \<Longrightarrow>
     find_end_loop r n i = (case find (\<lambda>j. take 4 (drop j r) = crlf2) [i..<n - 3] of
                              None \<Rightarrow> None | Some j \<Rightarrow> Some (j + 4))"
proof (induction r n i rule: find_end_loop.induct)
  case (1 r n i)
  show ?case
  proof (cases "i + 3 < n")
    case True
    then have up: "[i..<n - 3] = i # [i + 1..<n - 3]" by (simp add: upt_conv_Cons)
    have "take 4 (drop i r) = [r ! i, r ! (i + 1), r ! (i + 2), r ! (i + 3)]"
      using True 1(2) by (simp add: drop_nth_Cons numeral_eq_Suc)
    then have "(take 4 (drop i r) = crlf2) =
        (r ! i = CR \<and> r ! (i + 1) = LF \<and> r ! (i + 2) = CR \<and> r ! (i + 3) = LF)"
      by (simp add: crlf2_def)
    with True up 1 show ?thesis by (simp add: find_end_loop.simps [of r n i])
  qed (simp add: find_end_loop.simps [of r n i])
qed

text \<open>The first end of a head: the shortest prefix that ends in an empty line.\<close>

definition head_end :: "byte list \<Rightarrow> nat \<Rightarrow> bool" where
  "head_end r h \<longleftrightarrow> h \<le> length r \<and> suffix crlf2 (take h r) \<and> \<not> sublist crlf2 (take (h - 1) r)"

lemma sublist_crlf2: "sublist crlf2 r = (\<exists>j. j + 3 < length r \<and> take 4 (drop j r) = crlf2)"
proof
  assume "sublist crlf2 r"
  then obtain a b where "r = a @ crlf2 @ b" by (auto simp: sublist_def)
  then show "\<exists>j. j + 3 < length r \<and> take 4 (drop j r) = crlf2"
    by (intro exI [of _ "length a"]) (simp add: crlf2_def)
next
  assume "\<exists>j. j + 3 < length r \<and> take 4 (drop j r) = crlf2"
  then obtain j where "take 4 (drop j r) = crlf2" by blast
  then have "r = take j r @ crlf2 @ drop (j + 4) r"
    by (metis add.commute append_take_drop_id drop_drop)
  then show "sublist crlf2 r" by (metis sublist_appendI)
qed

lemma find_header_end_cases:
  assumes "length r \<le> SOCKIFY_WS_MAX_HTTP_REQUEST"
  obtains h where "find_header_end r (length r) = (SOCKIFY_OK, h)" and "head_end r h" and "4 \<le> h"
  | "find_header_end r (length r) = (SOCKIFY_ERR_AGAIN, 0)" and "\<not> sublist crlf2 r"
proof (cases "find (\<lambda>j. take 4 (drop j r) = crlf2) [0..<length r - 3]")
  case None
  then have "\<not> sublist crlf2 r" by (auto simp: sublist_crlf2 find_None_iff)
  with None assms that(2) show thesis by (simp add: find_header_end_def find_end_loop_eq)
next
  case (Some j)
  then have j: "j + 3 < length r" "take 4 (drop j r) = crlf2" "\<forall>k < j. take 4 (drop k r) \<noteq> crlf2"
    by (auto simp: find_Some_iff)
  have "take (j + 4) r = take j r @ crlf2" using j(2) by (simp add: take_add)
  then have "suffix crlf2 (take (j + 4) r)" by (simp add: suffix_def)
  moreover have "\<not> sublist crlf2 (take (j + 3) r)"
  proof
    assume "sublist crlf2 (take (j + 3) r)"
    then obtain k where "k + 3 < j + 3" "take 4 (drop k (take (j + 3) r)) = crlf2"
      by (auto simp: sublist_crlf2)
    then show False using j(3) by (auto simp: drop_take)
  qed
  ultimately have "head_end r (j + 4)" using j(1) by (simp add: head_end_def add.commute)
  moreover have "find_header_end r (length r) = (SOCKIFY_OK, j + 4)"
    using Some assms by (simp add: find_header_end_def find_end_loop_eq)
  ultimately show thesis using that(1) by simp
qed

section \<open>The accept key and the whole response\<close>

lemma length_guid: "length SOCKIFY_WS_GUID = 36"
  by (simp add: SOCKIFY_WS_GUID_def)

lemma accept_key_run:
  assumes "length garbage = 64" and "0 \<notin> set key" and "key \<noteq> []" and "length key < 220" and "29 \<le> n"
  shows "sockify_ws_accept_key garbage (Some (key @ 0 # junk)) False n =
     (SOCKIFY_OK, base64_groups (sha1_digest (key @ SOCKIFY_WS_GUID)) @ [0])"
proof -
  have "\<forall>c \<in> set key. c \<noteq> 0" using assms(2) by metis
  then have k: "strlen (key @ 0 # junk) = length key" by (simp add: strlen_def takeWhile_append2)
  let ?c = "key @ SOCKIFY_WS_GUID"
  have "sockify_sha1 garbage ?c (length ?c) = sha1_digest ?c"
    using assms(1) by (rule sha1_run)
  moreover have "sockify_base64_encode (Some (sha1_digest ?c)) 20 False n =
      (SOCKIFY_OK, 28, base64_groups (sha1_digest ?c) @ [0])"
    using base64_encode_run [of 20 "sha1_digest ?c" n] assms(5) by (simp add: length_sha1_digest size_lim_def)
  ultimately show ?thesis
    using assms k by (simp add: sockify_ws_accept_key_def length_guid size_lim_def sz_add_def)
qed


lemma length_response_prefix: "length response_prefix = 97"
  by (simp add: response_prefix_def)

lemma base64_no_nul: "0 \<notin> set (base64_groups m)"
proof -
  have "0 \<notin> set base64_chars" by (simp add: base64_chars_def cstr_def)
  then have "sextet k t \<noteq> 0" for k t
    unfolding sextet_def by (metis length_base64_chars mod_less_divisor nth_mem zero_less_numeral)
  moreover have "b64_pad \<noteq> 0" by (simp add: b64_pad_def)
  ultimately show ?thesis
    by (induction m rule: base64_groups.induct) (auto simp: Let_def)
qed

lemma head_end_suffix:
  assumes "head_end r h"
  shows "suffix [CR, LF] (take h r)"
proof -
  have "suffix [CR, LF] crlf2" by (simp add: suffix_def crlf2_def)
  with assms show ?thesis using suffix_order.trans by (auto simp: head_end_def)
qed

lemma request_line_eq:
  assumes "head_end r h"
  defines "l \<equiv> cut_line (take h r)"
  shows "(\<not> line_scan r h 0 < 14 \<and> ci_equal_n r (cstr ''GET '') 4 \<and>
     (memory_contains r (line_scan r h 0) (cstr '' HTTP/1.1'') 9 \<or>
      memory_contains r (line_scan r h 0) (cstr '' HTTP/1.0'') 9)) = request_line_ok l"
    and "line_scan r h 0 = length l" and "length l + 2 \<le> h"
proof -
  have h: "h \<le> length r" "suffix [CR, LF] (take h r)"
    using assms(1) head_end_suffix by (simp_all add: head_end_def)
  show e: "line_scan r h 0 = length l" using line_scan_eq [OF h(1), of 0] h(2) by (simp add: l_def)
  show b: "length l + 2 \<le> h" using cut_line_bound [OF h(2)] h(1) by (simp add: l_def)
  have l: "take (length l) r = l"
    using cut_line_bound [OF h(2)] b by (simp add: l_def min_def)
  have "memory_contains r (length l) s 9 = sublist s l" if "length s = 9" for s
    using memory_contains_eq [of "length l" r s] that b h(1) l by (cases "s = []") simp_all
  moreover have "ci_equal_n r (cstr ''GET '') 4 = ci_eq (take 4 l) (cstr ''GET '')" if "14 \<le> length l"
  proof -
    have "take 4 r = take 4 (take (length l) r)" using that by simp
    then show ?thesis
      using ci_equal_n_eq [of 4 r "cstr ''GET ''"] that b h(1) l by simp
  qed
  ultimately show "(\<not> line_scan r h 0 < 14 \<and> ci_equal_n r (cstr ''GET '') 4 \<and>
     (memory_contains r (line_scan r h 0) (cstr '' HTTP/1.1'') 9 \<or>
      memory_contains r (line_scan r h 0) (cstr '' HTTP/1.0'') 9)) = request_line_ok l"
    by (auto simp: request_line_ok_def e)
qed

lemma accept_request_key:
  assumes "length garbage = 64" and "length key < 128"
  defines "k \<equiv> takeWhile (\<lambda>c. c \<noteq> 0) key"
  shows "sockify_ws_accept_key garbage (Some (key @ [0])) False 29 =
     (if k = [] then (SOCKIFY_ERR_INVALID, [])
      else (SOCKIFY_OK, base64_groups (sha1_digest (k @ SOCKIFY_WS_GUID)) @ [0]))"
proof -
  obtain junk where "key @ [0] = k @ 0 # junk"
  proof (cases "dropWhile (\<lambda>c. c \<noteq> 0) key")
    case Nil
    then have "key = k" unfolding k_def by (metis append_Nil2 takeWhile_dropWhile_id)
    then show thesis using that [of "[]"] by simp
  next
    case (Cons c cs)
    then have "c = 0" using hd_dropWhile [of "\<lambda>c. c \<noteq> 0" key] by auto
    moreover have "key = k @ c # cs"
      using takeWhile_dropWhile_id [of "\<lambda>c. c \<noteq> 0" key] Cons by (simp add: k_def)
    ultimately show thesis using that [of "cs @ [0]"] by simp
  qed
  moreover have "0 \<notin> set k" by (auto simp: k_def dest: set_takeWhileD)
  moreover have "length k < 220" using length_takeWhile_le [of "\<lambda>c. c \<noteq> 0" key] assms(2) by (simp add: k_def)
  ultimately show ?thesis
    using accept_key_run [OF assms(1), of k 29 junk]
    by (auto simp: sockify_ws_accept_key_def strlen_def)
qed


text \<open>The response to a request whose key is \<open>k\<close>, with the GUID of RFC 6455 section 1.3.\<close>

definition accept_text :: "byte list \<Rightarrow> byte list" where
  "accept_text k = base64_groups (sha1_digest (k @ cstr ''258EAFA5-E914-47DA-95CA-C5AB0DC85B11''))"

definition handshake_text :: "byte list \<Rightarrow> byte list" where
  "handshake_text k = response_prefix @ accept_text k @ response_suffix"

lemma length_accept_text: "length (accept_text k) = 28"
  by (simp add: accept_text_def length_base64_groups length_sha1_digest)

lemma accept_text_strlen:
  "strlen (accept_text k @ [0]) = 28" "take 28 (accept_text k @ [0]) = accept_text k"
proof -
  have "\<forall>c \<in> set (accept_text k). c \<noteq> 0" using base64_no_nul unfolding accept_text_def by metis
  then show "strlen (accept_text k @ [0]) = 28"
    by (simp add: strlen_def takeWhile_append2 length_accept_text)
  show "take 28 (accept_text k @ [0]) = accept_text k" by (simp add: length_accept_text)
qed

lemma length_handshake_text: "length (handshake_text k) = 129"
  by (simp add: handshake_text_def length_response_prefix length_accept_text response_suffix_def)

text \<open>What the builder does once the head is complete.\<close>

definition respond ::
  "byte list option \<Rightarrow> size_t \<Rightarrow> size_t \<Rightarrow> sockify_rc \<times> size_t \<times> size_t \<times> byte list" where
  "respond key_opt h n =
     (case key_opt of
        None \<Rightarrow> (SOCKIFY_ERR_PROTOCOL, 0, 0, [])
      | Some key \<Rightarrow>
          let k = takeWhile (\<lambda>c. c \<noteq> 0) key
          in if k = [] then (SOCKIFY_ERR_INVALID, 0, 0, [])
             else if n \<le> length (handshake_text k) then (SOCKIFY_ERR_OVERFLOW, 0, 0, [0])
             else (SOCKIFY_OK, length (handshake_text k), h, handshake_text k @ [0]))"

lemma usable_key_length: "usable_keys fs \<noteq> [] \<Longrightarrow> length (last (usable_keys fs)) < 128"
  using last_in_set [of "usable_keys fs"] by (auto simp: usable_keys_def)

lemma build_response_run:
  assumes "length garbage = 64" and "find_header_end r (length r) = (SOCKIFY_OK, h)" and "head_end r h"
  shows "sockify_ws_build_handshake_response_ex garbage (Some r) (length r) False n =
     respond (upgrade_key (take h r)) h n"
proof -
  let ?l = "cut_line (take h r)"
  let ?build = "sockify_ws_build_handshake_response_ex garbage (Some r) (length r) False n"
  have suf: "suffix [CR, LF] (take h r)" and h: "h \<le> length r"
    using assms(3) head_end_suffix by (simp_all add: head_end_def)
  note line = request_line_eq [OF assms(3)]
  have fields: "case request_fields (take h r) of
       None \<Rightarrow> field_loop r h (length ?l + 2) no_flags = None
     | Some gs \<Rightarrow> \<exists>fl. field_loop r h (length ?l + 2) no_flags = Some fl \<and> flags_of fl gs"
    using field_loop_eq [OF h line(3) suf flags_of_no_flags] unfolding request_fields_def append_Nil .
  show ?thesis
  proof (cases "request_line_ok ?l")
    case False
    then have "?build = (SOCKIFY_ERR_PROTOCOL, 0, 0, [])"
      using line(1) assms(2) by (simp add: sockify_ws_build_handshake_response_ex_def Let_def) argo
    with False show ?thesis by (simp add: respond_def upgrade_key_def split: option.splits)
  next
    case ok: True
    have build: "?build = (case field_loop r h (length ?l + 2) no_flags of
        None \<Rightarrow> (SOCKIFY_ERR_PROTOCOL, 0, 0, []) | Some fl \<Rightarrow> finish_handshake garbage fl h n)"
      using ok line(1) unfolding line(2)
      by (auto simp: sockify_ws_build_handshake_response_ex_def assms(2) line(2) Let_def)
    show ?thesis
    proof (cases "request_fields (take h r)")
      case None
      with fields build show ?thesis by (simp add: respond_def upgrade_key_def)
    next
      case (Some gs)
      then obtain fl where fl: "field_loop r h (length ?l + 2) no_flags = Some fl" "flags_of fl gs"
        using fields by auto
      have seen: "(saw_upgrade fl \<and> saw_connection fl \<and> saw_version fl \<and> saw_key fl) = upgrade_fields gs"
        using fl(2) by (auto simp: flags_of_def upgrade_fields_def)
      show ?thesis
      proof (cases "upgrade_fields gs")
        case True
        let ?key = "last (usable_keys gs)"
        let ?k = "takeWhile (\<lambda>c. c \<noteq> 0) ?key"
        have key: "take (key_len fl) (key_value fl) = ?key" "length ?key < 128"
          using fl(2) True usable_key_length by (auto simp: flags_of_def upgrade_fields_def)
        have "sockify_ws_accept_key garbage (Some (?key @ [0])) False 29 =
            (if ?k = [] then (SOCKIFY_ERR_INVALID, []) else (SOCKIFY_OK, accept_text ?k @ [0]))"
          unfolding accept_text_def SOCKIFY_WS_GUID_def [symmetric] by (rule accept_request_key [OF assms(1) key(2)])
        then have "finish_handshake garbage fl h n = respond (Some ?key) h n"
          using seen True key(1)
          by (auto simp: finish_handshake_def respond_def accept_text_strlen length_response_prefix
              length_accept_text response_suffix_def handshake_text_def Let_def)
        with True ok Some build fl(1) show ?thesis by (simp add: upgrade_key_def)
      next
        case False
        then have "finish_handshake garbage fl h n = (SOCKIFY_ERR_PROTOCOL, 0, 0, [])" using seen by (auto simp: finish_handshake_def)
        with False ok Some build fl(1) show ?thesis by (simp add: upgrade_key_def respond_def)
      qed
    qed
  qed
qed


section \<open>Printed requests\<close>

definition print_lines :: "byte list list \<Rightarrow> byte list" where
  "print_lines ls = concat (map (\<lambda>l. l @ [CR, LF]) ls)"

definition print_field :: "byte list \<times> byte list \<Rightarrow> byte list" where
  "print_field f = fst f @ [COLON, SP] @ snd f"

definition print_request :: "byte list \<Rightarrow> (byte list \<times> byte list) list \<Rightarrow> byte list" where
  "print_request l fs = print_lines (l # map print_field fs) @ [CR, LF]"

definition printable_field :: "byte list \<times> byte list \<Rightarrow> bool" where
  "printable_field f \<longleftrightarrow> COLON \<notin> set (fst f) \<and> CR \<notin> set (fst f) \<and> CR \<notin> set (snd f) \<and> trim (snd f) = snd f"

lemma crlf2_line:
  "CR \<notin> set l \<Longrightarrow> \<not> prefix [CR, LF] ys \<Longrightarrow> sublist crlf2 (l @ CR # LF # ys) = sublist crlf2 ys"
  by (induction l) (auto simp: crlf2_def sublist_Cons_right)

lemma crlf2_print_lines:
  "\<forall>l \<in> set ls. l \<noteq> [] \<and> CR \<notin> set l \<Longrightarrow>
     \<not> sublist crlf2 (print_lines ls @ [CR]) \<and> \<not> prefix [CR, LF] (print_lines ls @ [CR])"
proof (induction ls)
  case Nil
  then show ?case by (auto simp: print_lines_def crlf2_def sublist_Cons_right)
next
  case (Cons l ls)
  then obtain a l' where "l = a # l'" "a \<noteq> CR" by (cases l) auto
  moreover have "sublist crlf2 (l @ CR # LF # print_lines ls @ [CR]) = sublist crlf2 (print_lines ls @ [CR])"
    using Cons by (intro crlf2_line) auto
  ultimately show ?case using Cons by (simp add: print_lines_def)
qed

lemma print_lines_suffix: "ls \<noteq> [] \<Longrightarrow> suffix [CR, LF] (print_lines ls)"
  by (induction ls rule: rev_induct) (simp_all add: print_lines_def suffix_def)

lemma print_head_end:
  assumes "\<forall>l \<in> set (l # ls). l \<noteq> [] \<and> CR \<notin> set l"
  defines "p \<equiv> print_lines (l # ls)"
  shows "head_end (p @ [CR, LF] @ rest) (length p + 2)"
proof -
  have "suffix [CR, LF] p"
    unfolding p_def by (rule print_lines_suffix) simp
  then obtain q where "p = q @ [CR, LF]" by (auto simp: suffix_def)
  then have "suffix crlf2 (take (length p + 2) (p @ [CR, LF] @ rest))" by (simp add: crlf2_def suffix_def)
  moreover have "take (length p + 1) (p @ [CR, LF] @ rest) = p @ [CR]" by simp
  ultimately show ?thesis
    using crlf2_print_lines [OF assms(1)] by (simp add: head_end_def p_def)
qed

lemma head_lines_print:
  "\<forall>l \<in> set ls. l \<noteq> [] \<and> CR \<notin> set l \<Longrightarrow> head_lines (print_lines ls @ [CR, LF]) = ls"
proof (induction ls)
  case Nil
  then show ?case by (simp add: print_lines_def head_lines.simps)
next
  case (Cons l ls)
  let ?xs = "print_lines (l # ls) @ [CR, LF]"
  have xs: "?xs = l @ CR # LF # print_lines ls @ [CR, LF]" by (simp add: print_lines_def)
  have cut: "cut_line ?xs = l" unfolding xs by (rule cut_line_append) (use Cons in simp)
  obtain a l' where "l = a # l'" "a \<noteq> CR" using Cons by (cases l) auto
  then have "\<not> (length ?xs \<le> 1 \<or> take 2 ?xs = [CR, LF])" by (simp add: print_lines_def numeral_2_eq_2)
  then have "head_lines ?xs = cut_line ?xs # head_lines (drop (length (cut_line ?xs) + 2) ?xs)"
    by (subst head_lines.simps) argo
  then show ?case unfolding cut using Cons by (simp add: xs)
qed

lemma trim_Cons_SP: "trim (SP # v) = trim v"
  by (simp add: trim_def is_blank_def)

lemma parse_print_field: "printable_field f \<Longrightarrow> parse_field (print_field f) = Some f"
proof -
  assume f: "printable_field f"
  then have c: "\<forall>c \<in> set (fst f). c \<noteq> COLON" by (auto simp: printable_field_def)
  then show ?thesis
    using f by (simp add: parse_field_def print_field_def takeWhile_append2 dropWhile_append2
        trim_Cons_SP printable_field_def)
qed

lemma request_fields_print:
  assumes "l \<noteq> []" and "CR \<notin> set l" and "\<forall>f \<in> set fs. printable_field f"
  shows "request_fields (print_request l fs) = Some fs"
    and "cut_line (print_request l fs) = l"
    and "head_end (print_request l fs @ rest) (length (print_request l fs))"
proof -
  have ls: "\<forall>l \<in> set (map print_field fs). l \<noteq> [] \<and> CR \<notin> set l"
    using assms(3) by (auto simp: print_field_def printable_field_def)
  have p: "print_request l fs = l @ CR # LF # print_lines (map print_field fs) @ [CR, LF]"
    by (simp add: print_request_def print_lines_def)
  show cut: "cut_line (print_request l fs) = l" unfolding p using assms(2) by (rule cut_line_append)
  have "those (map parse_field (map print_field fs)) = Some fs"
    using assms(3) by (induction fs) (simp_all add: parse_print_field)
  then show "request_fields (print_request l fs) = Some fs"
    unfolding request_fields_def cut using head_lines_print [OF ls] by (simp add: p)
  show "head_end (print_request l fs @ rest) (length (print_request l fs))"
    using print_head_end [of l "map print_field fs" rest] ls assms(1,2)
    by (simp add: print_request_def)
qed

lemma head_end_unique:
  assumes "head_end r h" and "head_end r h'"
  shows "h = h'"
proof -
  have "\<not> a < b" if "head_end r a" "head_end r b" for a b
  proof
    assume "a < b"
    then have "take a r = take a (take (b - 1) r)" by (simp add: min_def)
    then have "sublist (take a r) (take (b - 1) r)" by (metis sublist_take)
    with that show False unfolding head_end_def
      by (meson sublist_order.order.trans suffix_imp_sublist)
  qed
  with assms show ?thesis by (metis linorder_neqE_nat)
qed

text \<open>The head of a printed request is found where the print ends.\<close>

lemma find_printed_head:
  assumes "l \<noteq> []" and "CR \<notin> set l" and "\<forall>f \<in> set fs. printable_field f"
    and "length (print_request l fs @ rest) \<le> SOCKIFY_WS_MAX_HTTP_REQUEST"
  shows "find_header_end (print_request l fs @ rest) (length (print_request l fs @ rest)) =
    (SOCKIFY_OK, length (print_request l fs))"
proof -
  let ?r = "print_request l fs @ rest" and ?h = "length (print_request l fs)"
  note p = request_fields_print [OF assms(1-3)]
  show ?thesis using assms(4)
  proof (cases rule: find_header_end_cases)
    case (1 h)
    with p(3) head_end_unique show ?thesis by metis
  next
    case 2
    have "suffix crlf2 (take ?h ?r)" using p(3) [of rest] by (simp add: head_end_def)
    then have "sublist crlf2 ?r" by (metis suffix_imp_sublist sublist_order.order.trans sublist_take)
    with 2 show ?thesis by simp
  qed
qed

section \<open>Properties of the handshake\<close>

text \<open>
  Property C5. The builder answers every request exactly as the specification over lines and
  fields says: too long, incomplete, not an upgrade, unusable key, response array too small, or
  the 129-byte response whose accept value decodes to the SHA-1 of the key followed by the
  GUID; it then reports exactly the bytes of the request head as consumed.
\<close>

theorem handshake_response_spec:
  assumes "length garbage = 64"
  shows "if SOCKIFY_WS_MAX_HTTP_REQUEST < length r
     then sockify_ws_build_handshake_response_ex garbage (Some r) (length r) False n =
            (SOCKIFY_ERR_OVERFLOW, 0, 0, [])
     else if \<not> sublist crlf2 r
     then sockify_ws_build_handshake_response_ex garbage (Some r) (length r) False n =
            (SOCKIFY_ERR_AGAIN, 0, 0, [])
     else \<exists>h. head_end r h \<and>
            sockify_ws_build_handshake_response_ex garbage (Some r) (length r) False n =
              respond (upgrade_key (take h r)) h n"
proof (cases "SOCKIFY_WS_MAX_HTTP_REQUEST < length r")
  case True
  then show ?thesis by (simp add: sockify_ws_build_handshake_response_ex_def find_header_end_def)
next
  case False
  then have "length r \<le> SOCKIFY_WS_MAX_HTTP_REQUEST" by simp
  then show ?thesis
  proof (cases rule: find_header_end_cases)
    case (1 h)
    then have "sublist crlf2 r"
      by (metis head_end_def suffix_imp_sublist sublist_order.order.trans sublist_take)
    with 1 False build_response_run [OF assms 1(1,2)] show ?thesis by auto
  next
    case 2
    with False show ?thesis by (simp add: sockify_ws_build_handshake_response_ex_def)
  qed
qed

theorem handshake_response_spec_witness:
  "sockify_ws_build_handshake_response_ex (replicate 64 0) (Some (cstr ''GET /'')) 5 False 256 =
     (SOCKIFY_ERR_AGAIN, 0, 0, [])"
proof -
  have n: "length (cstr ''GET /'') = 5" by simp
  have "\<not> sublist crlf2 (cstr ''GET /'')" by (simp add: crlf2_def cstr_def sublist_Cons_right)
  then show ?thesis
    using handshake_response_spec [of "replicate 64 0" "cstr ''GET /''" 256] unfolding n by simp
qed

text \<open>
  Property C6. The request of a conforming client, printed line by line and followed by any
  bytes, is accepted: the response carries the accept value of its key, and exactly the printed
  request is consumed, so that frame bytes sent right behind it are kept.
\<close>

theorem handshake_client_accepted:
  assumes "length garbage = 64" and "request_line_ok l" and "CR \<notin> set l"
    and "\<forall>f \<in> set fs. printable_field f" and "upgrade_fields fs" and "0 \<notin> set (last (usable_keys fs))"
    and "length (print_request l fs @ rest) \<le> SOCKIFY_WS_MAX_HTTP_REQUEST" and "129 < n"
  shows "sockify_ws_build_handshake_response_ex garbage (Some (print_request l fs @ rest))
       (length (print_request l fs @ rest)) False n =
     (SOCKIFY_OK, 129, length (print_request l fs), handshake_text (last (usable_keys fs)) @ [0])"
proof -
  let ?r = "print_request l fs @ rest" and ?h = "length (print_request l fs)"
  let ?key = "last (usable_keys fs)"
  have l: "l \<noteq> []" using assms(2) by (auto simp: request_line_ok_def)
  note p = request_fields_print [OF l assms(3,4)]
  from build_response_run [OF assms(1) find_printed_head [OF l assms(3,4,7)] p(3)]
  have "sockify_ws_build_handshake_response_ex garbage (Some ?r) (length ?r) False n =
      respond (Some ?key) ?h n"
    using assms(2,5) p(1,2) by (simp add: upgrade_key_def)
  moreover have "takeWhile (\<lambda>c. c \<noteq> 0) ?key = ?key" "?key \<noteq> []"
    using assms(6) last_in_set [of "usable_keys fs"] assms(5)
    by (auto simp: takeWhile_eq_all_conv upgrade_fields_def usable_keys_def)
  ultimately show ?thesis using assms(8) by (simp add: respond_def length_handshake_text Let_def)
qed

definition demo_fields :: "(byte list \<times> byte list) list" where
  "demo_fields =
     [(cstr ''Host'', cstr ''server.example.com''), (cstr ''Upgrade'', cstr ''websocket''),
      (cstr ''Connection'', cstr ''keep-alive, Upgrade''),
      (cstr ''Sec-WebSocket-Key'', cstr ''dGhlIHNhbXBsZSBub25jZQ==''),
      (cstr ''Sec-WebSocket-Version'', cstr ''13'')]"

lemma demo_fields_printable: "\<forall>f \<in> set demo_fields. printable_field f"
  by code_simp

lemma demo_fields_upgrade: "upgrade_fields demo_fields"
  by code_simp

lemma demo_fields_key: "usable_keys demo_fields = [cstr ''dGhlIHNhbXBsZSBub25jZQ=='']"
  by code_simp

lemma demo_request_line: "request_line_ok (cstr ''GET /chat HTTP/1.1'')"
  by code_simp

theorem handshake_client_accepted_witness:
  "sockify_ws_build_handshake_response_ex (replicate 64 0)
       (Some (print_request (cstr ''GET /chat HTTP/1.1'') demo_fields @ [0x82, 0x80]))
       (length (print_request (cstr ''GET /chat HTTP/1.1'') demo_fields @ [0x82, 0x80])) False 512 =
     (SOCKIFY_OK, 129, length (print_request (cstr ''GET /chat HTTP/1.1'') demo_fields),
      handshake_text (cstr ''dGhlIHNhbXBsZSBub25jZQ=='') @ [0])"
proof -
  have last: "last (usable_keys demo_fields) = cstr ''dGhlIHNhbXBsZSBub25jZQ==''" by (simp add: demo_fields_key)
  show ?thesis unfolding last [symmetric]
  proof (rule handshake_client_accepted)
    show "CR \<notin> set (cstr ''GET /chat HTTP/1.1'')" by (simp add: cstr_def)
    show "0 \<notin> set (last (usable_keys demo_fields))" unfolding last by (simp add: cstr_def)
    show "length (print_request (cstr ''GET /chat HTTP/1.1'') demo_fields @ [0x82, 0x80]) \<le> 8192"
      by (simp add: print_request_def print_lines_def print_field_def demo_fields_def)
  qed (use demo_fields_printable demo_fields_upgrade demo_request_line in simp_all)
qed

end
