(* ===== verification/Event_Registry.thy ===== *)
theory Event_Registry
  imports Os "HOL-Library.Multiset"
begin

text \<open>
  What the three event-loop backends share: the event masks of \<^verbatim>\<open>include/sockify/event_loop.h\<close>, the
  source structs (equal in the three files), the search for a descriptor and the removal that moves
  the last source into the gap. The contract of a backend towards the proxy is the locale
  \<open>event_registry\<close>: a finite map from descriptors to the registered events, callback and argument.
\<close>

abbreviation SOCKIFY_EVENT_READ :: u32 where "SOCKIFY_EVENT_READ \<equiv> 0x01"
abbreviation SOCKIFY_EVENT_WRITE :: u32 where "SOCKIFY_EVENT_WRITE \<equiv> 0x02"
abbreviation SOCKIFY_EVENT_ERROR :: u32 where "SOCKIFY_EVENT_ERROR \<equiv> 0x04"

text \<open>The two callbacks of the program and their arguments.\<close>

datatype side = SESSION_SIDE_CLIENT | SESSION_SIDE_TARGET

datatype event_callback = listener_cb | session_cb

datatype user_data = Ud_server | Ud_side addr side

record event_source =
  src_self :: addr
  src_fd :: socket
  src_events :: u32
  src_callback :: event_callback
  src_user_data :: user_data

fun source_find :: "event_source list \<Rightarrow> socket \<Rightarrow> nat option" where
  "source_find [] fd = None"
| "source_find (s # ss) fd = (if src_fd s = fd then Some 0 else map_option Suc (source_find ss fd))"

text \<open>\<^verbatim>\<open>if (pos + 1 < count) sources[pos] = sources[count - 1]; count--;\<close>\<close>

definition swap_remove :: "nat \<Rightarrow> 'a list \<Rightarrow> 'a list" where
  "swap_remove pos xs = butlast (if pos + 1 < length xs then xs[pos := last xs] else xs)"

section \<open>Facts on sources\<close>

lemma source_find_Some:
  "source_find ss fd = Some i \<Longrightarrow> i < length ss \<and> src_fd (ss ! i) = fd"
  by (induction ss arbitrary: i) (auto split: if_splits)

lemma source_find_None: "source_find ss fd = None \<longleftrightarrow> fd \<notin> src_fd ` set ss"
  by (induction ss) auto

lemma mset_butlast: "xs \<noteq> [] \<Longrightarrow> add_mset (last xs) (mset (butlast xs)) = mset xs"
  by (induction xs) (auto simp: add_mset_commute)

lemma mset_swap_remove:
  assumes "pos < length xs"
  shows "add_mset (xs ! pos) (mset (swap_remove pos xs)) = mset xs"
proof (cases "pos + 1 < length xs")
  case True
  define ys where "ys = xs[pos := last xs]"
  have "xs \<noteq> []" using True by auto
  then have "ys \<noteq> []" "last ys = last xs" using True by (simp_all add: ys_def last_list_update)
  then have "add_mset (last xs) (mset (butlast ys)) = mset ys" using mset_butlast by metis
  moreover have "mset ys = add_mset (last xs) (mset xs - {#xs ! pos#})"
    using assms by (simp add: ys_def mset_update)
  ultimately have "mset (butlast ys) = mset xs - {#xs ! pos#}" by simp
  then show ?thesis using True assms by (simp add: swap_remove_def ys_def)
next
  case False
  then have "pos = length xs - 1" "xs \<noteq> []" using assms by auto
  then show ?thesis using mset_butlast [of xs] by (simp add: swap_remove_def last_conv_nth)
qed

definition registered :: "event_source list \<Rightarrow> socket \<rightharpoonup> u32 \<times> event_callback \<times> user_data" where
  "registered ss = map_of (map (\<lambda>s. (src_fd s, (src_events s, src_callback s, src_user_data s))) ss)"

definition sources_ok :: "event_source list \<Rightarrow> bool" where
  "sources_ok ss \<longleftrightarrow> distinct (map src_fd ss)"

lemma dom_registered: "dom (registered ss) = src_fd ` set ss"
  by (auto simp: registered_def dom_map_of_conv_image_fst image_iff)

lemma registered_append_new:
  "fd \<notin> src_fd ` set ss \<Longrightarrow> src_fd s = fd \<Longrightarrow>
     registered (ss @ [s]) = (registered ss)(fd \<mapsto> (src_events s, src_callback s, src_user_data s))"
  by (induction ss) (auto simp: registered_def fun_upd_twist)

lemma registered_iff:
  assumes "sources_ok ss"
  shows "registered ss fd = Some v \<longleftrightarrow>
     (\<exists>s \<in> set ss. src_fd s = fd \<and> v = (src_events s, src_callback s, src_user_data s))"
proof -
  have "distinct (map fst (map (\<lambda>s. (src_fd s, (src_events s, src_callback s, src_user_data s))) ss))"
    using assms by (simp add: sources_ok_def o_def)
  then show ?thesis
    unfolding registered_def by (subst map_of_eq_Some_iff) auto
qed

lemma registered_set_eq:
  assumes "sources_ok ss" and "sources_ok ts" and "set ss = set ts"
  shows "registered ss = registered ts"
proof
  fix fd
  have "registered ss fd = Some v \<longleftrightarrow> registered ts fd = Some v" for v
    using assms by (simp add: registered_iff)
  then show "registered ss fd = registered ts fd" by (metis not_Some_eq)
qed

lemma registered_Cons:
  "registered (s # ss) = (registered ss)(src_fd s \<mapsto> (src_events s, src_callback s, src_user_data s))"
  by (simp add: registered_def)

lemma swap_remove_registered:
  assumes "sources_ok ss" and "source_find ss fd = Some i"
  shows "sources_ok (swap_remove i ss)" and "registered (swap_remove i ss) = (registered ss)(fd := None)"
proof -
  let ?r = "swap_remove i ss" and ?s = "ss ! i"
  have i: "i < length ss" "src_fd ?s = fd" using source_find_Some [OF assms(2)] by auto
  then have m: "mset (?s # ?r) = mset ss" using mset_swap_remove [of i ss] by simp
  then have "mset (map src_fd (?s # ?r)) = mset (map src_fd ss)" by (metis mset_map)
  then have ok: "sources_ok (?s # ?r)"
    using assms(1) unfolding sources_ok_def by (metis mset_eq_imp_distinct_iff)
  then show "sources_ok ?r" by (simp add: sources_ok_def)
  have "fd \<notin> dom (registered ?r)" using ok i(2) by (simp add: sources_ok_def dom_registered)
  moreover have "registered ss = registered (?s # ?r)"
    using assms(1) ok m by (metis registered_set_eq mset_eq_setD)
  ultimately show "registered ?r = (registered ss)(fd := None)"
    using i(2) by (simp add: registered_Cons domIff)
qed

lemma update_registered:
  assumes "sources_ok ss" and "source_find ss fd = Some i" and "src_fd s = fd"
  shows "sources_ok (ss[i := s])"
    and "registered (ss[i := s]) = (registered ss)(fd \<mapsto> (src_events s, src_callback s, src_user_data s))"
proof -
  have i: "i < length ss" "src_fd (ss ! i) = fd" using source_find_Some [OF assms(2)] by auto
  have "map src_fd (ss[i := s]) = (map src_fd ss)[i := fd]" using assms(3) by (simp add: map_update)
  also have "\<dots> = map src_fd ss" using i by (metis list_update_id nth_map)
  finally show "sources_ok (ss[i := s])" using assms(1) by (simp add: sources_ok_def)
  show "registered (ss[i := s]) = (registered ss)(fd \<mapsto> (src_events s, src_callback s, src_user_data s))"
    using assms(2,3)
    by (induction ss arbitrary: i) (auto simp: registered_Cons fun_upd_twist split: if_splits)
qed

section \<open>The contract of a backend\<close>

locale event_registry =
  fixes inv :: "'i \<Rightarrow> bool"
    and reg :: "'i \<Rightarrow> socket \<rightharpoonup> u32 \<times> event_callback \<times> user_data"
    and add :: "os \<Rightarrow> 'i \<Rightarrow> socket \<Rightarrow> u32 \<Rightarrow> event_callback \<Rightarrow> user_data \<Rightarrow> trace \<Rightarrow> sockify_rc \<times> 'i \<times> trace"
    and modify :: "os \<Rightarrow> 'i \<Rightarrow> socket \<Rightarrow> u32 \<Rightarrow> trace \<Rightarrow> sockify_rc \<times> 'i \<times> trace"
    and remove :: "os \<Rightarrow> 'i \<Rightarrow> socket \<Rightarrow> trace \<Rightarrow> sockify_rc \<times> 'i \<times> trace"
  assumes add_law: "inv i \<Longrightarrow> add os i fd ev cb ud tr = (rc, i', tr') \<Longrightarrow>
      inv i' \<and> silent tr tr' \<and> (fd \<in> dom (reg i) \<longrightarrow> rc = SOCKIFY_ERR_INVALID) \<and>
      reg i' = (if rc = SOCKIFY_OK then (reg i)(fd \<mapsto> (ev, cb, ud)) else reg i)"
    and modify_law: "inv i \<Longrightarrow> modify os i fd ev tr = (rc, i', tr') \<Longrightarrow>
      inv i' \<and> silent tr tr' \<and>
      (case reg i fd of
         None \<Rightarrow> rc = SOCKIFY_ERR_INVALID \<and> reg i' = reg i
       | Some (old, cb, ud) \<Rightarrow>
           rc \<noteq> SOCKIFY_ERR_INVALID \<and>
           (\<exists>e. reg i' = (reg i)(fd \<mapsto> (e, cb, ud)) \<and> (rc = SOCKIFY_OK \<longrightarrow> e = ev) \<and> e \<in> {old, ev}))"
    and remove_law: "inv i \<Longrightarrow> remove os i fd tr = (rc, i', tr') \<Longrightarrow>
      inv i' \<and> silent tr tr' \<and> reg i' = (reg i)(fd := None) \<and>
      rc = (if fd \<in> dom (reg i) then SOCKIFY_OK else SOCKIFY_ERR_INVALID)"
begin

text \<open>A descriptor added and removed again leaves every other registration as it was.\<close>

lemma add_remove:
  assumes "inv i" and "fd \<notin> dom (reg i)" and "add os i fd ev cb ud tr = (SOCKIFY_OK, i1, tr1)"
    and "remove os' i1 fd tr2 = (rc, i2, tr3)"
  shows "rc = SOCKIFY_OK" and "reg i2 = reg i" and "inv i2"
  using add_law [OF assms(1,3)] remove_law [OF _ assms(4)] assms(2)
  by (auto simp: fun_upd_idem_iff domIff)

text \<open>Only \<open>add\<close> introduces callbacks and arguments; \<open>modify\<close> keeps them.\<close>

lemma modify_keeps_callback:
  assumes "inv i" and "modify os i fd ev tr = (rc, i', tr')"
  shows "map_option snd (reg i' f) = map_option snd (reg i f)" and "dom (reg i') = dom (reg i)"
  using modify_law [OF assms] by (auto split: option.splits if_splits)

end

end
