(* ===== verification/Event_Backends.thy ===== *)
theory Event_Backends
  imports Event_Registry
begin

text \<open>
  The registration operations of the backends \<^verbatim>\<open>src/event/ev_poll.c\<close>, \<^verbatim>\<open>src/event/ev_epoll.c\<close> and
  \<^verbatim>\<open>src/event/ev_kqueue.c\<close>. The array of sources is the list of its first \<^verbatim>\<open>count\<close> elements
  with the allocated \<^verbatim>\<open>capacity\<close>; \<^verbatim>\<open>realloc\<close>, \<^verbatim>\<open>epoll_ctl\<close> and \<^verbatim>\<open>kevent\<close> are calls of the
  environment. Each backend is an interpretation of \<open>event_registry\<close>.
\<close>

section \<open>Growing the array\<close>

definition next_capacity :: "size_t \<Rightarrow> size_t" where
  "next_capacity capacity = (if capacity = 0 then 64 else sz_mul capacity 2)"

text \<open>\<^verbatim>\<open>realloc(p, n)\<close>: the new block, or null with the old block kept.\<close>

definition realloc_ptr :: "os \<Rightarrow> addr ptr \<Rightarrow> size_t \<Rightarrow> trace \<Rightarrow> addr ptr \<times> trace" where
  "realloc_ptr os p n tr =
     (case sys os (Call_mem (Mem_realloc p n)) tr of
        (r, tr1) \<Rightarrow> (if r_ret r = 0 then None else Some (nat (r_ret r)), tr1))"

lemma realloc_silent: "realloc_ptr os p n tr = (q, tr') \<Longrightarrow> silent tr tr'"
  by (auto simp: realloc_ptr_def sys_eq intro!: io_effect_Cons)

section \<open>poll\<close>

record poll_impl =
  pi_array :: "addr ptr"
  pi_sources :: "event_source list"
  pi_pfds :: "addr ptr"
  pi_capacity :: size_t

definition POLLIN :: u16 where "POLLIN = 0x01"
definition POLLOUT :: u16 where "POLLOUT = 0x04"
definition POLLERR :: u16 where "POLLERR = 0x08"
definition POLLHUP :: u16 where "POLLHUP = 0x10"
definition POLLNVAL :: u16 where "POLLNVAL = 0x20"

definition to_poll_events :: "u32 \<Rightarrow> u16" where
  "to_poll_events events =
     (if events AND SOCKIFY_EVENT_READ \<noteq> 0 then POLLIN else 0) OR
     (if events AND SOCKIFY_EVENT_WRITE \<noteq> 0 then POLLOUT else 0)"

definition from_poll_events :: "u16 \<Rightarrow> u32" where
  "from_poll_events events =
     (if events AND (POLLIN OR POLLHUP) \<noteq> 0 then SOCKIFY_EVENT_READ else 0) OR
     (if events AND POLLOUT \<noteq> 0 then SOCKIFY_EVENT_WRITE else 0) OR
     (if events AND (POLLERR OR POLLNVAL) \<noteq> 0 then SOCKIFY_EVENT_ERROR else 0)"

definition poll_find :: "poll_impl \<Rightarrow> socket \<Rightarrow> nat option" where
  "poll_find impl fd = source_find (pi_sources impl) fd"

definition poll_grow :: "os \<Rightarrow> poll_impl \<Rightarrow> trace \<Rightarrow> sockify_rc \<times> poll_impl \<times> trace" where
  "poll_grow os impl tr =
     (if length (pi_sources impl) < pi_capacity impl then (SOCKIFY_OK, impl, tr)
      else
        let cap = next_capacity (pi_capacity impl)
        in (case realloc_ptr os (pi_array impl) (sz_mul cap 24) tr of
              (next_sources, tr1) \<Rightarrow>
                if next_sources = None then (SOCKIFY_ERR_NOMEM, impl, tr1)
                else (case realloc_ptr os (pi_pfds impl) (sz_mul cap 8) tr1 of
                        (next_pfds, tr2) \<Rightarrow>
                          if next_pfds = None then (SOCKIFY_ERR_NOMEM, impl\<lparr>pi_array := next_sources\<rparr>, tr2)
                          else (SOCKIFY_OK, impl\<lparr>pi_array := next_sources, pi_pfds := next_pfds,
                                                pi_capacity := cap\<rparr>, tr2))))"

definition poll_add ::
  "os \<Rightarrow> poll_impl \<Rightarrow> socket \<Rightarrow> u32 \<Rightarrow> event_callback \<Rightarrow> user_data \<Rightarrow> trace \<Rightarrow> sockify_rc \<times> poll_impl \<times> trace" where
  "poll_add os impl fd events callback user_data tr =
     (if poll_find impl fd \<noteq> None then (SOCKIFY_ERR_INVALID, impl, tr)
      else (case poll_grow os impl tr of
              (rc, impl1, tr1) \<Rightarrow>
                if rc \<noteq> SOCKIFY_OK then (rc, impl1, tr1)
                else (SOCKIFY_OK, impl1\<lparr>pi_sources := pi_sources impl1 @
                        [\<lparr>src_self = 0, src_fd = fd, src_events = events, src_callback = callback,
                          src_user_data = user_data\<rparr>]\<rparr>, tr1)))"

definition poll_modify :: "os \<Rightarrow> poll_impl \<Rightarrow> socket \<Rightarrow> u32 \<Rightarrow> trace \<Rightarrow> sockify_rc \<times> poll_impl \<times> trace" where
  "poll_modify os impl fd events tr =
     (case poll_find impl fd of
        None \<Rightarrow> (SOCKIFY_ERR_INVALID, impl, tr)
      | Some i \<Rightarrow>
          (SOCKIFY_OK, impl\<lparr>pi_sources := (pi_sources impl)
             [i := (pi_sources impl ! i)\<lparr>src_events := events\<rparr>]\<rparr>, tr))"

definition poll_remove :: "os \<Rightarrow> poll_impl \<Rightarrow> socket \<Rightarrow> trace \<Rightarrow> sockify_rc \<times> poll_impl \<times> trace" where
  "poll_remove os impl fd tr =
     (case poll_find impl fd of
        None \<Rightarrow> (SOCKIFY_ERR_INVALID, impl, tr)
      | Some i \<Rightarrow> (SOCKIFY_OK, impl\<lparr>pi_sources := swap_remove i (pi_sources impl)\<rparr>, tr))"

section \<open>epoll\<close>

record epoll_impl =
  ei_epfd :: int
  ei_array :: "addr ptr"
  ei_sources :: "event_source list"
  ei_capacity :: size_t

definition EPOLLIN :: u32 where "EPOLLIN = 0x01"
definition EPOLLOUT :: u32 where "EPOLLOUT = 0x04"
definition EPOLLERR :: u32 where "EPOLLERR = 0x08"
definition EPOLLHUP :: u32 where "EPOLLHUP = 0x10"

abbreviation EPOLL_CTL_ADD :: int where "EPOLL_CTL_ADD \<equiv> 1"
abbreviation EPOLL_CTL_DEL :: int where "EPOLL_CTL_DEL \<equiv> 2"
abbreviation EPOLL_CTL_MOD :: int where "EPOLL_CTL_MOD \<equiv> 3"

definition to_epoll_events :: "u32 \<Rightarrow> u32" where
  "to_epoll_events events =
     (if events AND SOCKIFY_EVENT_READ \<noteq> 0 then EPOLLIN else 0) OR
     (if events AND SOCKIFY_EVENT_WRITE \<noteq> 0 then EPOLLOUT else 0)"

definition from_epoll_events :: "u32 \<Rightarrow> u32" where
  "from_epoll_events events =
     (if events AND (EPOLLIN OR EPOLLHUP) \<noteq> 0 then SOCKIFY_EVENT_READ else 0) OR
     (if events AND EPOLLOUT \<noteq> 0 then SOCKIFY_EVENT_WRITE else 0) OR
     (if events AND EPOLLERR \<noteq> 0 then SOCKIFY_EVENT_ERROR else 0)"

definition epoll_find :: "epoll_impl \<Rightarrow> socket \<Rightarrow> nat option" where
  "epoll_find impl fd = source_find (ei_sources impl) fd"

definition epoll_grow :: "os \<Rightarrow> epoll_impl \<Rightarrow> trace \<Rightarrow> sockify_rc \<times> epoll_impl \<times> trace" where
  "epoll_grow os impl tr =
     (if length (ei_sources impl) < ei_capacity impl then (SOCKIFY_OK, impl, tr)
      else
        let cap = next_capacity (ei_capacity impl)
        in (case realloc_ptr os (ei_array impl) (sz_mul cap 8) tr of
              (next_sources, tr1) \<Rightarrow>
                if next_sources = None then (SOCKIFY_ERR_NOMEM, impl, tr1)
                else (SOCKIFY_OK, impl\<lparr>ei_array := next_sources, ei_capacity := cap\<rparr>, tr1)))"

definition epoll_ctl :: "os \<Rightarrow> int \<Rightarrow> int \<Rightarrow> socket \<Rightarrow> u32 \<Rightarrow> addr \<Rightarrow> trace \<Rightarrow> int \<times> trace" where
  "epoll_ctl os epfd op fd events ptr tr =
     (case sys os (Call_event (Ev_epoll_ctl epfd op fd events ptr)) tr of (r, tr1) \<Rightarrow> (r_ret r, tr1))"

definition epoll_add_common ::
  "os \<Rightarrow> epoll_impl \<Rightarrow> socket \<Rightarrow> u32 \<Rightarrow> event_callback \<Rightarrow> user_data \<Rightarrow> trace \<Rightarrow> sockify_rc \<times> epoll_impl \<times> trace" where
  "epoll_add_common os impl fd events callback user_data tr =
     (if epoll_find impl fd \<noteq> None then (SOCKIFY_ERR_INVALID, impl, tr)
      else
        (case epoll_grow os impl tr of
           (rc, impl1, tr1) \<Rightarrow>
             if rc \<noteq> SOCKIFY_OK then (rc, impl1, tr1)
             else
               (case sys os (Call_mem (Mem_calloc 24)) tr1 of
                  (r, tr2) \<Rightarrow>
                    if r_ret r = 0 then (SOCKIFY_ERR_NOMEM, impl1, tr2)
                    else
                      let source = \<lparr>src_self = nat (r_ret r), src_fd = fd, src_events = events,
                                    src_callback = callback, src_user_data = user_data\<rparr>
                      in (case epoll_ctl os (ei_epfd impl1) EPOLL_CTL_ADD fd (to_epoll_events events)
                                 (src_self source) tr2 of
                            (ret, tr3) \<Rightarrow>
                              if ret \<noteq> 0
                              then (SOCKIFY_ERR_SYS, impl1, snd (sys os (Call_mem (Mem_free (src_self source))) tr3))
                              else (SOCKIFY_OK, impl1\<lparr>ei_sources := ei_sources impl1 @ [source]\<rparr>, tr3)))))"

definition epoll_modify_common ::
  "os \<Rightarrow> epoll_impl \<Rightarrow> socket \<Rightarrow> u32 \<Rightarrow> trace \<Rightarrow> sockify_rc \<times> epoll_impl \<times> trace" where
  "epoll_modify_common os impl fd events tr =
     (case epoll_find impl fd of
        None \<Rightarrow> (SOCKIFY_ERR_INVALID, impl, tr)
      | Some i \<Rightarrow>
          let source = (ei_sources impl ! i)\<lparr>src_events := events\<rparr>;
              impl1 = impl\<lparr>ei_sources := (ei_sources impl)[i := source]\<rparr>
          in (case epoll_ctl os (ei_epfd impl) EPOLL_CTL_MOD fd (to_epoll_events events) (src_self source) tr of
                (ret, tr1) \<Rightarrow>
                  if ret \<noteq> 0 then (SOCKIFY_ERR_SYS, impl1, tr1) else (SOCKIFY_OK, impl1, tr1)))"

definition epoll_remove_common :: "os \<Rightarrow> epoll_impl \<Rightarrow> socket \<Rightarrow> trace \<Rightarrow> sockify_rc \<times> epoll_impl \<times> trace" where
  "epoll_remove_common os impl fd tr =
     (case epoll_find impl fd of
        None \<Rightarrow> (SOCKIFY_ERR_INVALID, impl, tr)
      | Some i \<Rightarrow>
          (case epoll_ctl os (ei_epfd impl) EPOLL_CTL_DEL fd 0 0 tr of
             (ret, tr1) \<Rightarrow>
               let tr2 = snd (sys os (Call_mem (Mem_free (src_self (ei_sources impl ! i)))) tr1)
               in (SOCKIFY_OK, impl\<lparr>ei_sources := swap_remove i (ei_sources impl)\<rparr>, tr2)))"

section \<open>kqueue\<close>

record kqueue_impl =
  ki_kq :: int
  ki_array :: "addr ptr"
  ki_sources :: "event_source list"
  ki_capacity :: size_t

abbreviation EVFILT_READ :: int where "EVFILT_READ \<equiv> -1"
abbreviation EVFILT_WRITE :: int where "EVFILT_WRITE \<equiv> -2"
abbreviation EV_ADD_ENABLE :: nat where "EV_ADD_ENABLE \<equiv> 5"
abbreviation EV_DELETE :: nat where "EV_DELETE \<equiv> 2"

definition kqueue_find :: "kqueue_impl \<Rightarrow> socket \<Rightarrow> nat option" where
  "kqueue_find impl fd = source_find (ki_sources impl) fd"

definition kqueue_grow :: "os \<Rightarrow> kqueue_impl \<Rightarrow> trace \<Rightarrow> sockify_rc \<times> kqueue_impl \<times> trace" where
  "kqueue_grow os impl tr =
     (if length (ki_sources impl) < ki_capacity impl then (SOCKIFY_OK, impl, tr)
      else
        let cap = next_capacity (ki_capacity impl)
        in (case realloc_ptr os (ki_array impl) (sz_mul cap 8) tr of
              (next_sources, tr1) \<Rightarrow>
                if next_sources = None then (SOCKIFY_ERR_NOMEM, impl, tr1)
                else (SOCKIFY_OK, impl\<lparr>ki_array := next_sources, ki_capacity := cap\<rparr>, tr1)))"

definition set_kevent :: "event_source \<Rightarrow> int \<Rightarrow> nat \<Rightarrow> socket \<times> int \<times> nat \<times> addr" where
  "set_kevent source filt flags = (src_fd source, filt, flags, src_self source)"

definition kevent_change :: "os \<Rightarrow> int \<Rightarrow> (socket \<times> int \<times> nat \<times> addr) list \<Rightarrow> trace \<Rightarrow> int \<times> trace" where
  "kevent_change os kq changes tr =
     (case sys os (Call_event (Ev_kevent_change kq changes)) tr of (r, tr1) \<Rightarrow> (r_ret r, tr1))"

definition filter_change :: "event_source \<Rightarrow> u32 \<Rightarrow> int \<Rightarrow> u32 \<Rightarrow> u32 \<Rightarrow> (socket \<times> int \<times> nat \<times> addr) list" where
  "filter_change source flag filt old_events new_events =
     (if new_events AND flag \<noteq> 0 \<and> old_events AND flag = 0 then [set_kevent source filt EV_ADD_ENABLE]
      else if new_events AND flag = 0 \<and> old_events AND flag \<noteq> 0 then [set_kevent source filt EV_DELETE]
      else [])"

definition update_filters ::
  "os \<Rightarrow> kqueue_impl \<Rightarrow> event_source \<Rightarrow> u32 \<Rightarrow> u32 \<Rightarrow> trace \<Rightarrow> sockify_rc \<times> trace" where
  "update_filters os impl source old_events new_events tr =
     (let changes = filter_change source SOCKIFY_EVENT_READ EVFILT_READ old_events new_events @
                    filter_change source SOCKIFY_EVENT_WRITE EVFILT_WRITE old_events new_events
      in if changes = [] then (SOCKIFY_OK, tr)
         else (case kevent_change os (ki_kq impl) changes tr of
                 (ret, tr1) \<Rightarrow> if ret < 0 then (SOCKIFY_ERR_SYS, tr1) else (SOCKIFY_OK, tr1)))"

definition kqueue_add_common ::
  "os \<Rightarrow> kqueue_impl \<Rightarrow> socket \<Rightarrow> u32 \<Rightarrow> event_callback \<Rightarrow> user_data \<Rightarrow> trace \<Rightarrow> sockify_rc \<times> kqueue_impl \<times> trace" where
  "kqueue_add_common os impl fd events callback user_data tr =
     (if kqueue_find impl fd \<noteq> None then (SOCKIFY_ERR_INVALID, impl, tr)
      else
        (case kqueue_grow os impl tr of
           (rc, impl1, tr1) \<Rightarrow>
             if rc \<noteq> SOCKIFY_OK then (rc, impl1, tr1)
             else
               (case sys os (Call_mem (Mem_calloc 24)) tr1 of
                  (r, tr2) \<Rightarrow>
                    if r_ret r = 0 then (SOCKIFY_ERR_NOMEM, impl1, tr2)
                    else
                      let source = \<lparr>src_self = nat (r_ret r), src_fd = fd, src_events = events,
                                    src_callback = callback, src_user_data = user_data\<rparr>
                      in (case update_filters os impl1 source 0 events tr2 of
                            (rc2, tr3) \<Rightarrow>
                              if rc2 \<noteq> SOCKIFY_OK
                              then (rc2, impl1, snd (sys os (Call_mem (Mem_free (src_self source))) tr3))
                              else (SOCKIFY_OK, impl1\<lparr>ki_sources := ki_sources impl1 @ [source]\<rparr>, tr3)))))"

definition kqueue_modify_common ::
  "os \<Rightarrow> kqueue_impl \<Rightarrow> socket \<Rightarrow> u32 \<Rightarrow> trace \<Rightarrow> sockify_rc \<times> kqueue_impl \<times> trace" where
  "kqueue_modify_common os impl fd events tr =
     (case kqueue_find impl fd of
        None \<Rightarrow> (SOCKIFY_ERR_INVALID, impl, tr)
      | Some i \<Rightarrow>
          let source = ki_sources impl ! i
          in (case update_filters os impl source (src_events source) events tr of
                (rc, tr1) \<Rightarrow>
                  if rc \<noteq> SOCKIFY_OK then (rc, impl, tr1)
                  else (SOCKIFY_OK, impl\<lparr>ki_sources := (ki_sources impl)
                          [i := source\<lparr>src_events := events\<rparr>]\<rparr>, tr1)))"

definition kqueue_remove_common :: "os \<Rightarrow> kqueue_impl \<Rightarrow> socket \<Rightarrow> trace \<Rightarrow> sockify_rc \<times> kqueue_impl \<times> trace" where
  "kqueue_remove_common os impl fd tr =
     (case kqueue_find impl fd of
        None \<Rightarrow> (SOCKIFY_ERR_INVALID, impl, tr)
      | Some i \<Rightarrow>
          let source = ki_sources impl ! i;
              tr1 = (if src_events source AND SOCKIFY_EVENT_READ \<noteq> 0
                     then snd (kevent_change os (ki_kq impl) [set_kevent source EVFILT_READ EV_DELETE] tr)
                     else tr);
              tr2 = (if src_events source AND SOCKIFY_EVENT_WRITE \<noteq> 0
                     then snd (kevent_change os (ki_kq impl) [set_kevent source EVFILT_WRITE EV_DELETE] tr1)
                     else tr1);
              tr3 = snd (sys os (Call_mem (Mem_free (src_self source))) tr2)
          in (SOCKIFY_OK, impl\<lparr>ki_sources := swap_remove i (ki_sources impl)\<rparr>, tr3))"

section \<open>Each backend is a registry\<close>

lemma mem_call_silent: "silent tr ((Call_mem c, r) # tr)"
  by (rule io_effect_Cons) simp_all

lemma silent_mem: "silent tr tr' \<Longrightarrow> silent tr ((Call_mem c, r) # tr')"
  using silent_trans mem_call_silent by blast

lemma silent_event:
  "silent tr tr' \<Longrightarrow> silent tr ((Call_event (Ev_epoll_ctl a b c d e), r) # tr')"
  "silent tr tr' \<Longrightarrow> silent tr ((Call_event (Ev_kevent_change a cs), r) # tr')"
  by (erule silent_trans, rule io_effect_Cons, simp_all)+

lemmas silent_calls = silent_mem silent_event

lemma poll_grow_run:
  "poll_grow os impl tr = (rc, impl', tr') \<Longrightarrow> silent tr tr' \<and> pi_sources impl' = pi_sources impl"
  by (auto simp: poll_grow_def realloc_ptr_def sys_eq Let_def intro!: silent_calls split: if_splits)

lemma epoll_grow_run:
  "epoll_grow os impl tr = (rc, impl', tr') \<Longrightarrow> silent tr tr' \<and> ei_sources impl' = ei_sources impl"
  by (auto simp: epoll_grow_def realloc_ptr_def sys_eq Let_def intro!: silent_calls split: if_splits)

lemma kqueue_grow_run:
  "kqueue_grow os impl tr = (rc, impl', tr') \<Longrightarrow> silent tr tr' \<and> ki_sources impl' = ki_sources impl"
  by (auto simp: kqueue_grow_def realloc_ptr_def sys_eq Let_def intro!: silent_calls split: if_splits)

lemma update_filters_run:
  "update_filters os impl source old new tr = (rc, tr') \<Longrightarrow> silent tr tr' \<and> rc \<noteq> SOCKIFY_ERR_INVALID"
  by (auto simp: update_filters_def kevent_change_def sys_eq Let_def intro!: silent_calls split: if_splits)


lemma find_dom: "(source_find ss fd = None) = (fd \<notin> dom (registered ss))"
  by (simp add: source_find_None dom_registered)

lemma sources_ok_append: "sources_ok ss \<Longrightarrow> source_find ss (src_fd s) = None \<Longrightarrow> sources_ok (ss @ [s])"
  by (auto simp: sources_ok_def source_find_None)

lemma registered_find:
  assumes "sources_ok ss" and "source_find ss fd = Some i"
  shows "registered ss fd = Some (src_events (ss ! i), src_callback (ss ! i), src_user_data (ss ! i))"
  using source_find_Some [OF assms(2)] registered_iff [OF assms(1)] by (metis nth_mem)

lemma modify_registered:
  assumes "sources_ok ss" and "source_find ss fd = Some i"
  shows "sources_ok (ss[i := (ss ! i)\<lparr>src_events := ev\<rparr>])"
    and "registered (ss[i := (ss ! i)\<lparr>src_events := ev\<rparr>]) =
      (registered ss)(fd \<mapsto> (ev, src_callback (ss ! i), src_user_data (ss ! i)))"
  using update_registered [OF assms, of "(ss ! i)\<lparr>src_events := ev\<rparr>"] source_find_Some [OF assms(2)]
  by simp_all

lemmas registry_simps =
  sources_ok_append registered_append_new source_find_None dom_registered

interpretation poll: event_registry "\<lambda>i. sources_ok (pi_sources i)" "\<lambda>i. registered (pi_sources i)"
  poll_add poll_modify poll_remove
proof (unfold_locales, goal_cases)
  case (1 i os fd ev cb ud tr rc i' tr')
  then show ?case
    by (auto simp: poll_add_def poll_find_def registry_simps split: if_splits prod.splits dest!: poll_grow_run)
next
  case (2 i os fd ev tr rc i' tr')
  then show ?case
    by (auto simp: poll_modify_def poll_find_def find_dom registered_find modify_registered
        split: option.splits)
next
  case (3 i os fd tr rc i' tr')
  then show ?case
    by (auto simp: poll_remove_def poll_find_def find_dom swap_remove_registered registered_find
        split: option.splits)
qed


lemma epoll_add_law:
  assumes ok: "sources_ok (ei_sources i)" and r: "epoll_add_common os i fd ev cb ud tr = (rc, i', tr')"
  shows "sources_ok (ei_sources i') \<and> silent tr tr' \<and>
      (fd \<in> dom (registered (ei_sources i)) \<longrightarrow> rc = SOCKIFY_ERR_INVALID) \<and>
      registered (ei_sources i') =
        (if rc = SOCKIFY_OK then (registered (ei_sources i))(fd \<mapsto> (ev, cb, ud)) else registered (ei_sources i))"
proof (cases "source_find (ei_sources i) fd")
  case None
  obtain rc1 i1 tr1 where g: "epoll_grow os i tr = (rc1, i1, tr1)" by (metis prod_cases3)
  have src: "silent tr tr1" "ei_sources i1 = ei_sources i" using epoll_grow_run [OF g] by auto
  have fd: "fd \<notin> src_fd ` set (ei_sources i)" using None by (simp add: source_find_None)
  show ?thesis
    using r None g src ok fd
    by (auto simp: epoll_add_common_def epoll_find_def epoll_ctl_def sys_eq registry_simps Let_def
        intro!: silent_calls split: if_splits)
next
  case (Some k)
  with r ok show ?thesis
    by (auto simp: epoll_add_common_def epoll_find_def)
qed

interpretation epoll: event_registry "\<lambda>i. sources_ok (ei_sources i)" "\<lambda>i. registered (ei_sources i)"
  epoll_add_common epoll_modify_common epoll_remove_common
proof (unfold_locales, goal_cases)
  case (1 i os fd ev cb ud tr rc i' tr')
  then show ?case by (rule epoll_add_law)
next
  case (2 i os fd ev tr rc i' tr')
  then show ?case
    by (auto simp: epoll_modify_common_def epoll_find_def epoll_ctl_def sys_eq find_dom registered_find
        modify_registered Let_def intro!: silent_calls split: option.splits if_splits)
next
  case (3 i os fd tr rc i' tr')
  then show ?case
    by (auto simp: epoll_remove_common_def epoll_find_def epoll_ctl_def sys_eq find_dom
        swap_remove_registered registered_find Let_def intro!: silent_calls split: option.splits)
qed

lemma kqueue_add_law:
  assumes ok: "sources_ok (ki_sources i)" and r: "kqueue_add_common os i fd ev cb ud tr = (rc, i', tr')"
  shows "sources_ok (ki_sources i') \<and> silent tr tr' \<and>
      (fd \<in> dom (registered (ki_sources i)) \<longrightarrow> rc = SOCKIFY_ERR_INVALID) \<and>
      registered (ki_sources i') =
        (if rc = SOCKIFY_OK then (registered (ki_sources i))(fd \<mapsto> (ev, cb, ud)) else registered (ki_sources i))"
proof (cases "source_find (ki_sources i) fd")
  case None
  obtain rc1 i1 tr1 where g: "kqueue_grow os i tr = (rc1, i1, tr1)" by (metis prod_cases3)
  have src: "silent tr tr1" "ki_sources i1 = ki_sources i" using kqueue_grow_run [OF g] by auto
  let ?r = "os tr1 (Call_mem (Mem_calloc 24))"
  let ?s = "\<lparr>src_self = nat (r_ret ?r), src_fd = fd, src_events = ev, src_callback = cb, src_user_data = ud\<rparr>"
  let ?tr2 = "(Call_mem (Mem_calloc 24), ?r) # tr1"
  obtain rc2 tr3 where u: "update_filters os i1 ?s 0 ev ?tr2 = (rc2, tr3)" by (metis surj_pair)
  have "silent tr tr3" using update_filters_run [OF u] src silent_mem silent_trans by blast
  moreover have fd: "fd \<notin> src_fd ` set (ki_sources i)" using None by (simp add: source_find_None)
  ultimately show ?thesis
    using r None g src ok u
    by (auto simp: kqueue_add_common_def kqueue_find_def sys_eq registry_simps Let_def
        intro!: silent_calls split: if_splits)
next
  case (Some k)
  with r ok show ?thesis
    by (auto simp: kqueue_add_common_def kqueue_find_def)
qed

interpretation kqueue: event_registry "\<lambda>i. sources_ok (ki_sources i)" "\<lambda>i. registered (ki_sources i)"
  kqueue_add_common kqueue_modify_common kqueue_remove_common
proof (unfold_locales, goal_cases)
  case (1 i os fd ev cb ud tr rc i' tr')
  then show ?case by (rule kqueue_add_law)
next
  case (2 i os fd ev tr rc i' tr')
  show ?case
  proof (cases "source_find (ki_sources i) fd")
    case None
    with 2 show ?thesis
      by (auto simp: kqueue_modify_common_def kqueue_find_def find_dom split: option.splits)
  next
    case (Some k)
    obtain rc1 tr1 where u: "update_filters os i (ki_sources i ! k) (src_events (ki_sources i ! k)) ev tr = (rc1, tr1)"
      by (metis surj_pair)
    with 2 Some update_filters_run [OF u] show ?thesis
      by (auto simp: kqueue_modify_common_def kqueue_find_def registered_find modify_registered Let_def
          fun_upd_idem_iff split: if_splits intro!: exI [of _ "src_events (ki_sources i ! k)"])
  qed
next
  case (3 i os fd tr rc i' tr')
  then show ?case
    by (auto simp: kqueue_remove_common_def kqueue_find_def kevent_change_def sys_eq find_dom
        swap_remove_registered registered_find Let_def intro!: silent_calls split: option.splits)
qed

end
