(* ===== verification/Event_Loop.thy ===== *)
theory Event_Loop
  imports Event_Backends
begin

text \<open>
  The loop object of \<^verbatim>\<open>src/event/event_internal.h\<close> and its dispatch in \<^verbatim>\<open>src/event/event_loop.c\<close>. The
  pair of the operations table and the implementation pointer is the constructor of \<open>loop_impl\<close>;
  the choice of the backend at compile time is the parameter of type \<open>platform\<close>. The \<^verbatim>\<open>run\<close> operations
  call back into the proxy and are modelled with it. Callbacks are values, so the test for a null
  callback has no counterpart.
\<close>

datatype loop_impl = Loop_poll poll_impl | Loop_epoll epoll_impl | Loop_kqueue kqueue_impl

record sockify_event_loop =
  l_self :: addr
  l_impl_self :: addr
  l_impl :: loop_impl
  l_stopped :: bool
  l_tick :: bool

definition new_loop :: "addr \<Rightarrow> addr \<Rightarrow> loop_impl \<Rightarrow> sockify_event_loop" where
  "new_loop a b impl = \<lparr>l_self = a, l_impl_self = b, l_impl = impl, l_stopped = False, l_tick = False\<rparr>"

text \<open>The two allocations every backend starts with: the loop (40 bytes) and its implementation.\<close>

definition loop_alloc :: "os \<Rightarrow> nat \<Rightarrow> trace \<Rightarrow> (addr \<times> addr) option \<times> trace" where
  "loop_alloc os impl_size tr =
     (case sys os (Call_mem (Mem_calloc 40)) tr of
        (r, tr1) \<Rightarrow>
          if r_ret r = 0 then (None, tr1)
          else
            (case sys os (Call_mem (Mem_calloc impl_size)) tr1 of
               (r2, tr2) \<Rightarrow>
                 if r_ret r2 = 0 then (None, snd (sys os (Call_mem (Mem_free (nat (r_ret r)))) tr2))
                 else (Some (nat (r_ret r), nat (r_ret r2)), tr2)))"

definition sockify_ev_poll_create :: "os \<Rightarrow> trace \<Rightarrow> sockify_event_loop ptr \<times> trace" where
  "sockify_ev_poll_create os tr =
     (case loop_alloc os 32 tr of
        (None, tr1) \<Rightarrow> (None, tr1)
      | (Some (a, b), tr1) \<Rightarrow> (Some (new_loop a b (Loop_poll \<lparr>pi_array = None, pi_sources = [], pi_pfds = None, pi_capacity = 0\<rparr>)), tr1))"

text \<open>\<^verbatim>\<open>epoll_create1\<close> and \<^verbatim>\<open>kqueue\<close> failing: the implementation and the loop are freed.\<close>

definition loop_unalloc :: "os \<Rightarrow> addr \<Rightarrow> addr \<Rightarrow> trace \<Rightarrow> trace" where
  "loop_unalloc os a b tr =
     snd (sys os (Call_mem (Mem_free a)) (snd (sys os (Call_mem (Mem_free b)) tr)))"

definition sockify_ev_epoll_create :: "os \<Rightarrow> trace \<Rightarrow> sockify_event_loop ptr \<times> trace" where
  "sockify_ev_epoll_create os tr =
     (case loop_alloc os 32 tr of
        (None, tr1) \<Rightarrow> (None, tr1)
      | (Some (a, b), tr1) \<Rightarrow>
          (case sys os (Call_event Ev_epoll_create) tr1 of
             (r, tr2) \<Rightarrow>
               if r_ret r < 0 then (None, loop_unalloc os a b tr2)
               else (Some (new_loop a b (Loop_epoll \<lparr>ei_epfd = r_ret r, ei_array = None, ei_sources = [], ei_capacity = 0\<rparr>)), tr2)))"

definition sockify_ev_kqueue_create :: "os \<Rightarrow> trace \<Rightarrow> sockify_event_loop ptr \<times> trace" where
  "sockify_ev_kqueue_create os tr =
     (case loop_alloc os 32 tr of
        (None, tr1) \<Rightarrow> (None, tr1)
      | (Some (a, b), tr1) \<Rightarrow>
          (case sys os (Call_event Ev_kqueue) tr1 of
             (r, tr2) \<Rightarrow>
               if r_ret r < 0 then (None, loop_unalloc os a b tr2)
               else (Some (new_loop a b (Loop_kqueue \<lparr>ki_kq = r_ret r, ki_array = None, ki_sources = [], ki_capacity = 0\<rparr>)), tr2)))"

definition sockify_event_loop_create :: "platform \<Rightarrow> os \<Rightarrow> trace \<Rightarrow> sockify_event_loop ptr \<times> trace" where
  "sockify_event_loop_create pf os tr =
     (case pf of
        Platform_linux \<Rightarrow> sockify_ev_epoll_create os tr
      | Platform_bsd \<Rightarrow> sockify_ev_kqueue_create os tr
      | Platform_other \<Rightarrow> sockify_ev_poll_create os tr)"

section \<open>Destruction\<close>

fun free_sources :: "os \<Rightarrow> event_source list \<Rightarrow> trace \<Rightarrow> trace" where
  "free_sources os [] tr = tr"
| "free_sources os (s # ss) tr = free_sources os ss (snd (sys os (Call_mem (Mem_free (src_self s))) tr))"

text \<open>\<^verbatim>\<open>free(p)\<close>, which does nothing on a null pointer.\<close>

definition free_opt :: "os \<Rightarrow> addr ptr \<Rightarrow> trace \<Rightarrow> trace" where
  "free_opt os p tr = (case p of None \<Rightarrow> tr | Some a \<Rightarrow> snd (sys os (Call_mem (Mem_free a)) tr))"

definition poll_destroy :: "os \<Rightarrow> sockify_event_loop \<Rightarrow> poll_impl \<Rightarrow> trace \<Rightarrow> trace" where
  "poll_destroy os loop impl tr =
     loop_unalloc os (l_self loop) (l_impl_self loop)
       (free_opt os (pi_pfds impl) (free_opt os (pi_array impl) tr))"

definition epoll_destroy :: "os \<Rightarrow> sockify_event_loop \<Rightarrow> epoll_impl \<Rightarrow> trace \<Rightarrow> trace" where
  "epoll_destroy os loop impl tr =
     (let tr1 = free_opt os (ei_array impl) (free_sources os (ei_sources impl) tr);
          tr2 = (if ei_epfd impl \<ge> 0 then snd (sys os (Call_close (ei_epfd impl)) tr1) else tr1)
      in loop_unalloc os (l_self loop) (l_impl_self loop) tr2)"

definition kqueue_destroy :: "os \<Rightarrow> sockify_event_loop \<Rightarrow> kqueue_impl \<Rightarrow> trace \<Rightarrow> trace" where
  "kqueue_destroy os loop impl tr =
     (let tr1 = free_opt os (ki_array impl) (free_sources os (ki_sources impl) tr);
          tr2 = (if ki_kq impl \<ge> 0 then snd (sys os (Call_close (ki_kq impl)) tr1) else tr1)
      in loop_unalloc os (l_self loop) (l_impl_self loop) tr2)"

definition sockify_event_loop_destroy :: "os \<Rightarrow> sockify_event_loop ptr \<Rightarrow> trace \<Rightarrow> trace" where
  "sockify_event_loop_destroy os loop_ptr tr =
     (case loop_ptr of
        None \<Rightarrow> tr
      | Some loop \<Rightarrow>
          (case l_impl loop of
             Loop_poll impl \<Rightarrow> poll_destroy os loop impl tr
           | Loop_epoll impl \<Rightarrow> epoll_destroy os loop impl tr
           | Loop_kqueue impl \<Rightarrow> kqueue_destroy os loop impl tr))"

section \<open>Registration\<close>

definition sockify_event_loop_add ::
  "os \<Rightarrow> sockify_event_loop ptr \<Rightarrow> socket \<Rightarrow> u32 \<Rightarrow> event_callback \<Rightarrow> user_data \<Rightarrow> trace
     \<Rightarrow> sockify_rc \<times> sockify_event_loop ptr \<times> trace" where
  "sockify_event_loop_add os loop_ptr fd events callback user_data tr =
     (case loop_ptr of
        None \<Rightarrow> (SOCKIFY_ERR_INVALID, None, tr)
      | Some loop \<Rightarrow>
          (case l_impl loop of
             Loop_poll impl \<Rightarrow>
               (case poll_add os impl fd events callback user_data tr of
                  (rc, impl', tr1) \<Rightarrow> (rc, Some (loop\<lparr>l_impl := Loop_poll impl'\<rparr>), tr1))
           | Loop_epoll impl \<Rightarrow>
               (case epoll_add_common os impl fd events callback user_data tr of
                  (rc, impl', tr1) \<Rightarrow> (rc, Some (loop\<lparr>l_impl := Loop_epoll impl'\<rparr>), tr1))
           | Loop_kqueue impl \<Rightarrow>
               (case kqueue_add_common os impl fd events callback user_data tr of
                  (rc, impl', tr1) \<Rightarrow> (rc, Some (loop\<lparr>l_impl := Loop_kqueue impl'\<rparr>), tr1))))"

definition sockify_event_loop_modify ::
  "os \<Rightarrow> sockify_event_loop ptr \<Rightarrow> socket \<Rightarrow> u32 \<Rightarrow> trace \<Rightarrow> sockify_rc \<times> sockify_event_loop ptr \<times> trace" where
  "sockify_event_loop_modify os loop_ptr fd events tr =
     (case loop_ptr of
        None \<Rightarrow> (SOCKIFY_ERR_INVALID, None, tr)
      | Some loop \<Rightarrow>
          (case l_impl loop of
             Loop_poll impl \<Rightarrow>
               (case poll_modify os impl fd events tr of
                  (rc, impl', tr1) \<Rightarrow> (rc, Some (loop\<lparr>l_impl := Loop_poll impl'\<rparr>), tr1))
           | Loop_epoll impl \<Rightarrow>
               (case epoll_modify_common os impl fd events tr of
                  (rc, impl', tr1) \<Rightarrow> (rc, Some (loop\<lparr>l_impl := Loop_epoll impl'\<rparr>), tr1))
           | Loop_kqueue impl \<Rightarrow>
               (case kqueue_modify_common os impl fd events tr of
                  (rc, impl', tr1) \<Rightarrow> (rc, Some (loop\<lparr>l_impl := Loop_kqueue impl'\<rparr>), tr1))))"

definition sockify_event_loop_remove ::
  "os \<Rightarrow> sockify_event_loop ptr \<Rightarrow> socket \<Rightarrow> trace \<Rightarrow> sockify_rc \<times> sockify_event_loop ptr \<times> trace" where
  "sockify_event_loop_remove os loop_ptr fd tr =
     (case loop_ptr of
        None \<Rightarrow> (SOCKIFY_ERR_INVALID, None, tr)
      | Some loop \<Rightarrow>
          (case l_impl loop of
             Loop_poll impl \<Rightarrow>
               (case poll_remove os impl fd tr of
                  (rc, impl', tr1) \<Rightarrow> (rc, Some (loop\<lparr>l_impl := Loop_poll impl'\<rparr>), tr1))
           | Loop_epoll impl \<Rightarrow>
               (case epoll_remove_common os impl fd tr of
                  (rc, impl', tr1) \<Rightarrow> (rc, Some (loop\<lparr>l_impl := Loop_epoll impl'\<rparr>), tr1))
           | Loop_kqueue impl \<Rightarrow>
               (case kqueue_remove_common os impl fd tr of
                  (rc, impl', tr1) \<Rightarrow> (rc, Some (loop\<lparr>l_impl := Loop_kqueue impl'\<rparr>), tr1))))"

definition sockify_event_loop_stop :: "sockify_event_loop ptr \<Rightarrow> sockify_event_loop ptr" where
  "sockify_event_loop_stop loop_ptr = map_option (\<lambda>loop. loop\<lparr>l_stopped := True\<rparr>) loop_ptr"

definition sockify_event_loop_set_tick :: "sockify_event_loop ptr \<Rightarrow> sockify_event_loop ptr" where
  "sockify_event_loop_set_tick loop_ptr = map_option (\<lambda>loop. loop\<lparr>l_tick := True\<rparr>) loop_ptr"

section \<open>The loop is a registry\<close>

definition impl_sources :: "loop_impl \<Rightarrow> event_source list" where
  "impl_sources impl =
     (case impl of Loop_poll i \<Rightarrow> pi_sources i | Loop_epoll i \<Rightarrow> ei_sources i | Loop_kqueue i \<Rightarrow> ki_sources i)"

definition loop_ok :: "sockify_event_loop ptr \<Rightarrow> bool" where
  "loop_ok l \<longleftrightarrow> (case l of None \<Rightarrow> False | Some loop \<Rightarrow> sources_ok (impl_sources (l_impl loop)))"

definition loop_reg :: "sockify_event_loop ptr \<Rightarrow> socket \<rightharpoonup> u32 \<times> event_callback \<times> user_data" where
  "loop_reg l = (case l of None \<Rightarrow> Map.empty | Some loop \<Rightarrow> registered (impl_sources (l_impl loop)))"

interpretation loop: event_registry loop_ok loop_reg
  sockify_event_loop_add sockify_event_loop_modify sockify_event_loop_remove
proof (unfold_locales, goal_cases)
  case (1 l os fd ev cb ud tr rc l' tr')
  then obtain loop where l: "l = Some loop" by (auto simp: loop_ok_def split: option.splits)
  show ?case
  proof (cases "l_impl loop")
    case (Loop_poll i)
    obtain rc1 i1 tr1 where m: "poll_add os i fd ev cb ud tr = (rc1, i1, tr1)" by (metis prod_cases3)
    from 1 l Loop_poll poll.add_law [OF _ m] m show ?thesis
      by (clarsimp simp: sockify_event_loop_add_def loop_ok_def loop_reg_def impl_sources_def)
  next
    case (Loop_epoll i)
    obtain rc1 i1 tr1 where m: "epoll_add_common os i fd ev cb ud tr = (rc1, i1, tr1)" by (metis prod_cases3)
    from 1 l Loop_epoll epoll.add_law [OF _ m] m show ?thesis
      by (clarsimp simp: sockify_event_loop_add_def loop_ok_def loop_reg_def impl_sources_def)
  next
    case (Loop_kqueue i)
    obtain rc1 i1 tr1 where m: "kqueue_add_common os i fd ev cb ud tr = (rc1, i1, tr1)" by (metis prod_cases3)
    from 1 l Loop_kqueue kqueue.add_law [OF _ m] m show ?thesis
      by (clarsimp simp: sockify_event_loop_add_def loop_ok_def loop_reg_def impl_sources_def)
  qed
next
  case (2 l os fd ev tr rc l' tr')
  then obtain loop where l: "l = Some loop" by (auto simp: loop_ok_def split: option.splits)
  show ?case
  proof (cases "l_impl loop")
    case (Loop_poll i)
    obtain rc1 i1 tr1 where m: "poll_modify os i fd ev tr = (rc1, i1, tr1)" by (metis prod_cases3)
    from 2 l Loop_poll poll.modify_law [OF _ m] m show ?thesis
      by (clarsimp simp: sockify_event_loop_modify_def loop_ok_def loop_reg_def impl_sources_def
          cong: option.case_cong)
  next
    case (Loop_epoll i)
    obtain rc1 i1 tr1 where m: "epoll_modify_common os i fd ev tr = (rc1, i1, tr1)" by (metis prod_cases3)
    from 2 l Loop_epoll epoll.modify_law [OF _ m] m show ?thesis
      by (clarsimp simp: sockify_event_loop_modify_def loop_ok_def loop_reg_def impl_sources_def
          cong: option.case_cong)
  next
    case (Loop_kqueue i)
    obtain rc1 i1 tr1 where m: "kqueue_modify_common os i fd ev tr = (rc1, i1, tr1)" by (metis prod_cases3)
    from 2 l Loop_kqueue kqueue.modify_law [OF _ m] m show ?thesis
      by (clarsimp simp: sockify_event_loop_modify_def loop_ok_def loop_reg_def impl_sources_def
          cong: option.case_cong)
  qed
next
  case (3 l os fd tr rc l' tr')
  then obtain loop where l: "l = Some loop" by (auto simp: loop_ok_def split: option.splits)
  show ?case
  proof (cases "l_impl loop")
    case (Loop_poll i)
    obtain rc1 i1 tr1 where m: "poll_remove os i fd tr = (rc1, i1, tr1)" by (metis prod_cases3)
    from 3 l Loop_poll poll.remove_law [OF _ m] m show ?thesis
      by (clarsimp simp: sockify_event_loop_remove_def loop_ok_def loop_reg_def impl_sources_def)
  next
    case (Loop_epoll i)
    obtain rc1 i1 tr1 where m: "epoll_remove_common os i fd tr = (rc1, i1, tr1)" by (metis prod_cases3)
    from 3 l Loop_epoll epoll.remove_law [OF _ m] m show ?thesis
      by (clarsimp simp: sockify_event_loop_remove_def loop_ok_def loop_reg_def impl_sources_def)
  next
    case (Loop_kqueue i)
    obtain rc1 i1 tr1 where m: "kqueue_remove_common os i fd tr = (rc1, i1, tr1)" by (metis prod_cases3)
    from 3 l Loop_kqueue kqueue.remove_law [OF _ m] m show ?thesis
      by (clarsimp simp: sockify_event_loop_remove_def loop_ok_def loop_reg_def impl_sources_def)
  qed
qed

section \<open>Property of the loop\<close>

text \<open>
  Property C23. On every backend, whatever the kernel answers, the event loop is a finite map from
  descriptors to events, callback and argument. Adding a descriptor enters it, and fails without a change
  if it is registered already; modifying changes nothing but the events of a registered descriptor, and
  sets them if it succeeds; removing takes exactly that descriptor out and succeeds if it was registered.
\<close>

theorem event_loop_registry:
  assumes "loop_ok l"
  shows "(case sockify_event_loop_add os l fd ev cb ud tr of
      (rc, l', tr') \<Rightarrow> loop_ok l' \<and> (fd \<in> dom (loop_reg l) \<longrightarrow> rc = SOCKIFY_ERR_INVALID) \<and>
        loop_reg l' = (if rc = SOCKIFY_OK then (loop_reg l)(fd \<mapsto> (ev, cb, ud)) else loop_reg l)) \<and>
    (case sockify_event_loop_modify os l fd ev tr of
      (rc, l', tr') \<Rightarrow> loop_ok l' \<and> (rc = SOCKIFY_ERR_INVALID) = (fd \<notin> dom (loop_reg l)) \<and>
        dom (loop_reg l') = dom (loop_reg l) \<and> (\<forall>f. map_option snd (loop_reg l' f) = map_option snd (loop_reg l f)) \<and>
        (\<forall>f. f \<noteq> fd \<longrightarrow> loop_reg l' f = loop_reg l f) \<and>
        (rc = SOCKIFY_OK \<longrightarrow> map_option fst (loop_reg l' fd) = Some ev)) \<and>
    (case sockify_event_loop_remove os l fd tr of
      (rc, l', tr') \<Rightarrow> loop_ok l' \<and> loop_reg l' = (loop_reg l)(fd := None) \<and>
        rc = (if fd \<in> dom (loop_reg l) then SOCKIFY_OK else SOCKIFY_ERR_INVALID))"
proof -
  obtain rc1 l1 tr1 where a: "sockify_event_loop_add os l fd ev cb ud tr = (rc1, l1, tr1)" by (metis prod_cases3)
  obtain rc2 l2 tr2 where m: "sockify_event_loop_modify os l fd ev tr = (rc2, l2, tr2)" by (metis prod_cases3)
  obtain rc3 l3 tr3 where r: "sockify_event_loop_remove os l fd tr = (rc3, l3, tr3)" by (metis prod_cases3)
  note laws = loop.add_law [OF assms a] loop.modify_law [OF assms m] loop.remove_law [OF assms r]
  have "dom (loop_reg l2) = dom (loop_reg l)" "\<forall>f. map_option snd (loop_reg l2 f) = map_option snd (loop_reg l f)"
    using loop.modify_keeps_callback [OF assms m] by simp_all
  moreover have "(rc2 = SOCKIFY_ERR_INVALID) = (fd \<notin> dom (loop_reg l))"
    "f \<noteq> fd \<Longrightarrow> loop_reg l2 f = loop_reg l f" "rc2 = SOCKIFY_OK \<Longrightarrow> map_option fst (loop_reg l2 fd) = Some ev" for f
    using laws(2) by (cases "loop_reg l fd"; auto)+
  ultimately show ?thesis using laws a m r by simp
qed

text \<open>A loop on \<^verbatim>\<open>poll\<close> with one descriptor.\<close>

definition demo_poll :: sockify_event_loop where
  "demo_poll = new_loop 1 2 (Loop_poll \<lparr>pi_array = Some 3, pi_sources = [\<lparr>src_self = 0, src_fd = 5, src_events = SOCKIFY_EVENT_READ,
     src_callback = listener_cb, src_user_data = Ud_server\<rparr>], pi_pfds = Some 4, pi_capacity = 64\<rparr>)"

theorem event_loop_registry_witness:
  "\<forall>os. \<exists>l' tr'. sockify_event_loop_remove os (Some demo_poll) 5 [] = (SOCKIFY_OK, l', tr') \<and> loop_reg l' = Map.empty"
proof
  fix os
  have reg: "loop_reg (Some demo_poll) = [5 \<mapsto> (SOCKIFY_EVENT_READ, listener_cb, Ud_server)]"
    and ok: "loop_ok (Some demo_poll)"
    by (simp_all add: demo_poll_def new_loop_def loop_reg_def loop_ok_def impl_sources_def registered_def sources_ok_def)
  obtain rc l' tr' where r: "sockify_event_loop_remove os (Some demo_poll) 5 [] = (rc, l', tr')" by (metis prod_cases3)
  have "loop_reg l' = (loop_reg (Some demo_poll))(5 := None) \<and> rc = SOCKIFY_OK"
    using event_loop_registry [OF ok, where os = os and fd = 5 and ev = 0 and cb = listener_cb and ud = Ud_server and tr = "[]"]
    by (simp add: r reg)
  then show "\<exists>l' tr'. sockify_event_loop_remove os (Some demo_poll) 5 [] = (SOCKIFY_OK, l', tr') \<and> loop_reg l' = Map.empty"
    using r by (auto simp: reg)
qed

end
