(* ===== verification/Session_State.thy ===== *)
theory Session_State
  imports Ring_Buffer Ws_Stream Ws_Handshake Transport Event_Loop
begin

text \<open>
  The state of the proxy of \<^verbatim>\<open>src/proxy/proxy.c\<close>: the session and server structs and the access to them.

  The state \<open>proxy\<close> holds the server struct, the memory of sessions by address (\<^verbatim>\<open>next\<close> and
  \<^verbatim>\<open>prev\<close> are addresses), which of them are allocated, and the trace of system calls. A session
  that has been freed keeps its last contents with \<open>px_live\<close> false: the code reads
  \<^verbatim>\<open>session->closing\<close> after a callee may have freed the session, and the model gives that
  read the value stored last. The environment \<open>env\<close> bundles the operating system, the TLS backend,
  the platform, the contents of the uninitialised hash block of \<^verbatim>\<open>sockify_sha1\<close> and what the
  array of \<^verbatim>\<open>poll\<close> holds past the entries the last call filled. Log output is not part of the state.
\<close>

record env =
  env_os :: os
  env_tls :: tls_backend
  env_garbage :: "byte list"
  env_platform :: platform
  env_stale :: "trace \<Rightarrow> nat \<Rightarrow> u16"

record sockify_proxy_session =
  s_next :: "addr ptr"
  s_prev :: "addr ptr"
  s_client_fd :: socket
  s_target_fd :: socket
  s_client_transport :: sockify_transport
  s_target_transport :: sockify_transport
  s_client_registered :: bool
  s_target_registered :: bool
  s_target_connecting :: bool
  s_client_tls_ready :: bool
  s_target_tls_ready :: bool
  s_handshake_done :: bool
  s_closing :: nat
  s_pending_close :: bool
  s_pending_close_payload :: "byte list"
  s_pending_close_payload_len :: size_t
  s_handshake :: "byte list"
  s_handshake_len :: size_t
  s_ws_parser :: sockify_ws_parser
  s_client_to_target :: sockify_buffer
  s_target_to_client :: sockify_buffer
  s_client_to_target_storage :: "addr ptr"
  s_target_to_client_storage :: "addr ptr"
  s_client_out_ptr :: "addr ptr"
  s_client_out :: "byte list"
  s_client_out_len :: size_t
  s_client_out_pos :: size_t
  s_client_out_capacity :: size_t
  s_created_at :: int
  s_connect_started_at :: int
  s_last_activity_at :: int

record sockify_proxy_server =
  sv_config :: sockify_proxy_config
  sv_loop :: "sockify_event_loop ptr"
  sv_listener_fd :: socket
  sv_client_tls_context :: "sockify_tls_context ptr"
  sv_target_tls_context :: "sockify_tls_context ptr"
  sv_active_connections :: size_t
  sv_sessions :: "addr ptr"

record proxy =
  px_server :: sockify_proxy_server
  px_mem :: "addr \<Rightarrow> sockify_proxy_session"
  px_live :: "addr \<Rightarrow> bool"
  px_trace :: trace

section \<open>Access to the state\<close>

definition upd :: "addr \<Rightarrow> (sockify_proxy_session \<Rightarrow> sockify_proxy_session) \<Rightarrow> proxy \<Rightarrow> proxy" where
  "upd a f st = st\<lparr>px_mem := (px_mem st)(a := f (px_mem st a))\<rparr>"

abbreviation px_config :: "proxy \<Rightarrow> sockify_proxy_config" where
  "px_config st \<equiv> sv_config (px_server st)"

definition px_time :: "env \<Rightarrow> proxy \<Rightarrow> int \<times> proxy" where
  "px_time E st = (case sys (env_os E) Call_time (px_trace st) of (r, tr) \<Rightarrow> (r_ret r, st\<lparr>px_trace := tr\<rparr>))"

definition px_loop_add :: "env \<Rightarrow> socket \<Rightarrow> u32 \<Rightarrow> event_callback \<Rightarrow> user_data \<Rightarrow> proxy \<Rightarrow> sockify_rc \<times> proxy" where
  "px_loop_add E fd events cb ud st =
     (case sockify_event_loop_add (env_os E) (sv_loop (px_server st)) fd events cb ud (px_trace st) of
        (rc, l, tr) \<Rightarrow> (rc, st\<lparr>px_server := (px_server st)\<lparr>sv_loop := l\<rparr>, px_trace := tr\<rparr>))"

definition px_loop_modify :: "env \<Rightarrow> socket \<Rightarrow> u32 \<Rightarrow> proxy \<Rightarrow> proxy" where
  "px_loop_modify E fd events st =
     (case sockify_event_loop_modify (env_os E) (sv_loop (px_server st)) fd events (px_trace st) of
        (rc, l, tr) \<Rightarrow> st\<lparr>px_server := (px_server st)\<lparr>sv_loop := l\<rparr>, px_trace := tr\<rparr>)"

definition px_loop_remove :: "env \<Rightarrow> socket \<Rightarrow> proxy \<Rightarrow> proxy" where
  "px_loop_remove E fd st =
     (case sockify_event_loop_remove (env_os E) (sv_loop (px_server st)) fd (px_trace st) of
        (rc, l, tr) \<Rightarrow> st\<lparr>px_server := (px_server st)\<lparr>sv_loop := l\<rparr>, px_trace := tr\<rparr>)"

definition px_net_close :: "env \<Rightarrow> socket \<Rightarrow> proxy \<Rightarrow> proxy" where
  "px_net_close E fd st = st\<lparr>px_trace := sockify_net_close (env_os E) fd (px_trace st)\<rparr>"

text \<open>\<^verbatim>\<open>free(p)\<close>; freeing a null pointer does nothing.\<close>

definition px_free :: "env \<Rightarrow> addr ptr \<Rightarrow> proxy \<Rightarrow> proxy" where
  "px_free E p st = (case p of None \<Rightarrow> st | Some a \<Rightarrow> st\<lparr>px_trace := free_ptr (env_os E) a (px_trace st)\<rparr>)"

lemma upd_mem [simp]: "px_mem (upd a f st) b = (if b = a then f (px_mem st a) else px_mem st b)"
  by (simp add: upd_def)

lemma upd_same [simp]:
  "px_server (upd a f st) = px_server st" "px_trace (upd a f st) = px_trace st"
  "px_live (upd a f st) = px_live st"
  by (simp_all add: upd_def)

lemma px_primitives_mem [simp]:
  "px_mem (px_net_close E fd st) = px_mem st" "px_mem (px_loop_remove E fd st) = px_mem st"
  "px_mem (px_loop_modify E fd ev st) = px_mem st" "px_mem (px_free E p st) = px_mem st"
  by (simp_all add: px_net_close_def px_loop_remove_def px_loop_modify_def px_free_def
      split: prod.splits option.splits)

end
