(* ===== verification/Session_Ops.thy ===== *)
theory Session_Ops
  imports Session_State
begin

text \<open>
  The operations on one session of \<^verbatim>\<open>src/proxy/proxy.c\<close> up to the reaction to one decoded message: closing,
  the output to the client, the connection to the target and its TLS handshakes.
\<close>

section \<open>Unlinking, touching, closing\<close>

definition transport_tls_event_mask :: "tls_backend \<Rightarrow> sockify_transport \<Rightarrow> u32" where
  "transport_tls_event_mask be transport =
     (let events = (if sockify_transport_wants_read be transport then SOCKIFY_EVENT_READ else 0) OR
                   (if sockify_transport_wants_write be transport then SOCKIFY_EVENT_WRITE else 0)
      in if events = 0 then SOCKIFY_EVENT_READ OR SOCKIFY_EVENT_WRITE else events)"

text \<open>The part of \<^verbatim>\<open>server_unlink_session\<close> after the predecessor or the head has been changed.\<close>

definition unlink_rest :: "addr \<Rightarrow> proxy \<Rightarrow> proxy" where
  "unlink_rest a st =
     (let s = px_mem st a;
          st1 = (case s_next s of None \<Rightarrow> st | Some n \<Rightarrow> upd n (\<lambda>x. x\<lparr>s_prev := s_prev s\<rparr>) st);
          st2 = upd a (\<lambda>x. x\<lparr>s_prev := None, s_next := None\<rparr>) st1;
          sv = px_server st2
      in if sv_active_connections sv \<noteq> 0
         then st2\<lparr>px_server := sv\<lparr>sv_active_connections := sv_active_connections sv - 1\<rparr>\<rparr>
         else st2)"

definition server_unlink_session :: "addr \<Rightarrow> proxy \<Rightarrow> proxy" where
  "server_unlink_session a st =
     (let s = px_mem st a; sv = px_server st
      in (case s_prev s of
            Some p \<Rightarrow> unlink_rest a (upd p (\<lambda>x. x\<lparr>s_next := s_next s\<rparr>) st)
          | None \<Rightarrow>
              if sv_sessions sv = Some a
              then unlink_rest a (st\<lparr>px_server := sv\<lparr>sv_sessions := s_next s\<rparr>\<rparr>)
              else st))"

definition session_touch :: "env \<Rightarrow> addr \<Rightarrow> proxy \<Rightarrow> proxy" where
  "session_touch E a st = (case px_time E st of (t, st1) \<Rightarrow> upd a (\<lambda>s. s\<lparr>s_last_activity_at := t\<rparr>) st1)"

definition close_client_transport :: "env \<Rightarrow> addr \<Rightarrow> proxy \<Rightarrow> proxy" where
  "close_client_transport E a st =
     (let s = px_mem st a
      in if s_client_fd s \<noteq> sockify_net_invalid_socket then
           (case sockify_transport_destroy (env_tls E) (env_os E) (s_client_transport s) (px_trace st) of
              (t, tr) \<Rightarrow>
                px_net_close E (s_client_fd s) (upd a (\<lambda>x. x\<lparr>s_client_transport := t\<rparr>) (st\<lparr>px_trace := tr\<rparr>)))
         else st)"

definition close_target_transport :: "env \<Rightarrow> addr \<Rightarrow> proxy \<Rightarrow> proxy" where
  "close_target_transport E a st =
     (let s = px_mem st a
      in if s_target_fd s \<noteq> sockify_net_invalid_socket then
           (case sockify_transport_destroy (env_tls E) (env_os E) (s_target_transport s) (px_trace st) of
              (t, tr) \<Rightarrow>
                px_net_close E (s_target_fd s) (upd a (\<lambda>x. x\<lparr>s_target_transport := t\<rparr>) (st\<lparr>px_trace := tr\<rparr>)))
         else st)"

definition close_unregister :: "env \<Rightarrow> addr \<Rightarrow> proxy \<Rightarrow> proxy" where
  "close_unregister E a st =
     (let st1 = (if s_client_registered (px_mem st a)
                 then upd a (\<lambda>x. x\<lparr>s_client_registered := False\<rparr>)
                        (px_loop_remove E (s_client_fd (px_mem st a)) st)
                 else st)
      in if s_target_registered (px_mem st1 a)
         then upd a (\<lambda>x. x\<lparr>s_target_registered := False\<rparr>)
                (px_loop_remove E (s_target_fd (px_mem st1 a)) st1)
         else st1)"

definition close_free :: "env \<Rightarrow> addr \<Rightarrow> proxy \<Rightarrow> proxy" where
  "close_free E a st =
     (let s = px_mem st a;
          st1 = px_free E (s_client_to_target_storage s) st;
          st2 = px_free E (s_target_to_client_storage s) st1;
          st3 = px_free E (s_client_out_ptr s) st2
      in (px_free E (Some a) st3)\<lparr>px_live := (px_live st3)(a := False)\<rparr>)"

definition session_close :: "env \<Rightarrow> addr \<Rightarrow> proxy \<Rightarrow> proxy" where
  "session_close E a st =
     (if s_closing (px_mem st a) = 2 then st
      else
        let st1 = upd a (\<lambda>s. s\<lparr>s_closing := 2\<rparr>) st;
            st2 = close_unregister E a st1;
            st3 = close_client_transport E a st2;
            st4 = close_target_transport E a st3
        in close_free E a (server_unlink_session a st4))"

section \<open>Output to the client\<close>

definition session_set_client_out :: "addr \<Rightarrow> byte list \<Rightarrow> size_t \<Rightarrow> proxy \<Rightarrow> sockify_rc \<times> proxy" where
  "session_set_client_out a data data_len st =
     (let s = px_mem st a
      in if data_len > s_client_out_capacity s then (SOCKIFY_ERR_OVERFLOW, st)
         else if s_client_out_len s \<noteq> s_client_out_pos s then (SOCKIFY_ERR_AGAIN, st)
         else (SOCKIFY_OK,
               upd a (\<lambda>x. x\<lparr>s_client_out := (if data_len \<noteq> 0 then take data_len data else s_client_out x),
                            s_client_out_len := data_len, s_client_out_pos := 0\<rparr>) st))"

definition session_make_ws_frame ::
  "addr \<Rightarrow> u32 \<Rightarrow> byte list ptr \<Rightarrow> size_t \<Rightarrow> proxy \<Rightarrow> sockify_rc \<times> proxy" where
  "session_make_ws_frame a opcode payload payload_len st =
     (let s = px_mem st a
      in if s_client_out_len s \<noteq> s_client_out_pos s then (SOCKIFY_ERR_AGAIN, st)
         else
           (case sockify_ws_write_frame opcode payload payload_len False (s_client_out_capacity s) of
              (rc, written, out) \<Rightarrow>
                if rc \<noteq> SOCKIFY_OK then (rc, st)
                else (SOCKIFY_OK,
                      upd a (\<lambda>x. x\<lparr>s_client_out := out, s_client_out_len := written,
                                   s_client_out_pos := 0\<rparr>) st)))"

section \<open>The connection to the target\<close>

definition session_register_target :: "env \<Rightarrow> addr \<Rightarrow> proxy \<Rightarrow> sockify_rc \<times> proxy" where
  "session_register_target E a st =
     (let s = px_mem st a
      in if s_target_registered s then (SOCKIFY_OK, st)
         else
           (case px_loop_add E (s_target_fd s) SOCKIFY_EVENT_WRITE session_cb (Ud_side a SESSION_SIDE_TARGET) st of
              (rc, st1) \<Rightarrow>
                if rc \<noteq> SOCKIFY_OK then (rc, st1)
                else (SOCKIFY_OK, upd a (\<lambda>x. x\<lparr>s_target_registered := True\<rparr>) st1)))"

definition session_start_target :: "env \<Rightarrow> addr \<Rightarrow> proxy \<Rightarrow> sockify_rc \<times> proxy" where
  "session_start_target E a st =
     (if s_target_fd (px_mem st a) \<noteq> sockify_net_invalid_socket then (SOCKIFY_OK, st)
      else
        (case sockify_net_connect (env_os E) (target_endpoint (px_config st)) (px_trace st) of
           (rc, fd, in_progress, tr) \<Rightarrow>
             let st1 = upd a (\<lambda>x. x\<lparr>s_target_fd := fd\<rparr>) (st\<lparr>px_trace := tr\<rparr>)
             in if rc \<noteq> SOCKIFY_OK then (rc, st1)
                else
                  (case px_time E (upd a (\<lambda>x. x\<lparr>s_target_connecting := in_progress\<rparr>) st1) of
                     (t, st2) \<Rightarrow>
                       (case sockify_transport_init_plain (Some (s_target_transport (px_mem st2 a))) fd of
                          (rc2, tp) \<Rightarrow>
                            let st3 = upd a (\<lambda>x. x\<lparr>s_connect_started_at := t, s_target_transport := the tp\<rparr>) st2
                            in if rc2 \<noteq> SOCKIFY_OK then (rc2, st3)
                               else session_register_target E a st3))))"

definition session_complete_target_connect :: "env \<Rightarrow> addr \<Rightarrow> proxy \<Rightarrow> sockify_rc \<times> proxy" where
  "session_complete_target_connect E a st =
     (let s = px_mem st a
      in if \<not> s_target_connecting s then (SOCKIFY_OK, st)
         else
           (case sockify_net_socket_error (env_os E) (s_target_fd s) (px_trace st) of
              (rc, err, tr) \<Rightarrow>
                let st0 = st\<lparr>px_trace := tr\<rparr>
                in if rc \<noteq> SOCKIFY_OK \<or> err \<noteq> 0 then (SOCKIFY_ERR_SYS, st0)
                   else
                     (case px_time E (upd a (\<lambda>x. x\<lparr>s_target_connecting := False, s_connect_started_at := 0\<rparr>) st0) of
                        (t, st1) \<Rightarrow>
                          let st2 = upd a (\<lambda>x. x\<lparr>s_last_activity_at := t\<rparr>) st1
                          in if target_tls_enabled (px_config st2) then
                               (case sockify_transport_destroy (env_tls E) (env_os E)
                                       (s_target_transport (px_mem st2 a)) (px_trace st2) of
                                  (tp, tr1) \<Rightarrow>
                                    let name = (if target_tls_server_name (px_config st2) = []
                                                then e_host (target_endpoint (px_config st2))
                                                else target_tls_server_name (px_config st2))
                                    in (case sockify_transport_init_tls (env_tls E) (env_os E) (Some tp)
                                               (s_target_fd (px_mem st2 a)) (sv_target_tls_context (px_server st2))
                                               False (Some name) tr1 of
                                          (rc2, tp2, tr2) \<Rightarrow>
                                            let st3 = upd a (\<lambda>x. x\<lparr>s_target_transport := the tp2\<rparr>)
                                                        (st2\<lparr>px_trace := tr2\<rparr>)
                                            in if rc2 \<noteq> SOCKIFY_OK then (rc2, st3)
                                               else (SOCKIFY_OK, upd a (\<lambda>x. x\<lparr>s_target_tls_ready := False\<rparr>) st3)))
                             else (SOCKIFY_OK, upd a (\<lambda>x. x\<lparr>s_target_tls_ready := True\<rparr>) st2))))"

definition session_drive_client_tls :: "env \<Rightarrow> addr \<Rightarrow> proxy \<Rightarrow> sockify_rc \<times> proxy" where
  "session_drive_client_tls E a st =
     (if s_client_tls_ready (px_mem st a) then (SOCKIFY_OK, st)
      else
        (case sockify_transport_handshake (env_tls E) (env_os E) (s_client_transport (px_mem st a)) (px_trace st) of
           (rc, tp, tr) \<Rightarrow>
             let st1 = upd a (\<lambda>x. x\<lparr>s_client_transport := tp\<rparr>) (st\<lparr>px_trace := tr\<rparr>)
             in if rc = SOCKIFY_OK then (SOCKIFY_OK, upd a (\<lambda>x. x\<lparr>s_client_tls_ready := True\<rparr>) st1)
                else (rc, st1)))"

definition session_drive_target_tls :: "env \<Rightarrow> addr \<Rightarrow> proxy \<Rightarrow> sockify_rc \<times> proxy" where
  "session_drive_target_tls E a st =
     (if s_target_tls_ready (px_mem st a) then (SOCKIFY_OK, st)
      else
        (case sockify_transport_handshake (env_tls E) (env_os E) (s_target_transport (px_mem st a)) (px_trace st) of
           (rc, tp, tr) \<Rightarrow>
             let st1 = upd a (\<lambda>x. x\<lparr>s_target_transport := tp\<rparr>) (st\<lparr>px_trace := tr\<rparr>)
             in if rc = SOCKIFY_OK then (SOCKIFY_OK, upd a (\<lambda>x. x\<lparr>s_target_tls_ready := True\<rparr>) st1)
                else (rc, st1)))"

section \<open>Bytes from the client\<close>

definition session_handle_ws_message :: "env \<Rightarrow> addr \<Rightarrow> sockify_ws_message \<Rightarrow> proxy \<Rightarrow> proxy" where
  "session_handle_ws_message E a msg st =
     (if m_opcode msg = SOCKIFY_WS_OPCODE_BINARY \<or> m_opcode msg = SOCKIFY_WS_OPCODE_TEXT \<or>
         m_opcode msg = SOCKIFY_WS_OPCODE_CONTINUATION then
        (case sockify_buffer_write (Some (s_client_to_target (px_mem st a))) (m_payload msg) (m_payload_len msg) of
           (rc, written, buf) \<Rightarrow>
             let st1 = upd a (\<lambda>x. x\<lparr>s_client_to_target := the buf\<rparr>) st
             in if rc \<noteq> SOCKIFY_OK \<or> written \<noteq> m_payload_len msg then session_close E a st1 else st1)
      else if m_opcode msg = SOCKIFY_WS_OPCODE_PING then
        (case session_make_ws_frame a SOCKIFY_WS_OPCODE_PONG (m_payload msg) (m_payload_len msg) st of
           (rc, st1) \<Rightarrow> if rc \<noteq> SOCKIFY_OK then session_close E a st1 else st1)
      else if m_opcode msg = SOCKIFY_WS_OPCODE_CLOSE then
        let close_len = (if m_payload_len msg > 125 then 125 else m_payload_len msg);
            st1 = upd a (\<lambda>x. x\<lparr>s_closing := 1,
                               s_pending_close_payload :=
                                 (if close_len \<noteq> 0 then take close_len (the (m_payload msg))
                                  else s_pending_close_payload x),
                               s_pending_close_payload_len := close_len, s_pending_close := True\<rparr>) st;
            s = px_mem st1 a
        in if s_client_out_len s = s_client_out_pos s then
             (case session_make_ws_frame a SOCKIFY_WS_OPCODE_CLOSE (Some (s_pending_close_payload s))
                     (s_pending_close_payload_len s) st1 of
                (rc, st2) \<Rightarrow>
                  if rc = SOCKIFY_OK then upd a (\<lambda>x. x\<lparr>s_pending_close := False\<rparr>) st2 else st2)
           else st1
      else st)"

text \<open>Closing changes neither the parser nor the data of any session.\<close>

lemma unlink_rest_parser [simp]: "s_ws_parser (px_mem (unlink_rest a st) b) = s_ws_parser (px_mem st b)"
  by (simp add: unlink_rest_def Let_def split: option.splits)

lemma unlink_parser [simp]: "s_ws_parser (px_mem (server_unlink_session a st) b) = s_ws_parser (px_mem st b)"
  by (simp add: server_unlink_session_def Let_def split: option.splits)

lemma close_parts_parser [simp]:
  "s_ws_parser (px_mem (close_unregister E a st) b) = s_ws_parser (px_mem st b)"
  "s_ws_parser (px_mem (close_client_transport E a st) b) = s_ws_parser (px_mem st b)"
  "s_ws_parser (px_mem (close_target_transport E a st) b) = s_ws_parser (px_mem st b)"
  "s_ws_parser (px_mem (close_free E a st) b) = s_ws_parser (px_mem st b)"
  by (simp_all add: close_unregister_def close_client_transport_def close_target_transport_def
      close_free_def Let_def split: prod.splits)

lemma session_close_parser [simp]:
  "s_ws_parser (px_mem (session_close E a st) b) = s_ws_parser (px_mem st b)"
  by (simp add: session_close_def Let_def)

lemma make_ws_frame_parser:
  "session_make_ws_frame a opc d n st = (rc, st1) \<Longrightarrow> s_ws_parser (px_mem st1 b) = s_ws_parser (px_mem st b)"
  by (auto simp: session_make_ws_frame_def Let_def split: if_splits prod.splits)

lemma handle_ws_message_parser [simp]:
  "s_ws_parser (px_mem (session_handle_ws_message E a msg st) b) = s_ws_parser (px_mem st b)"
proof -
  have fr: "s_ws_parser (px_mem (snd (session_make_ws_frame a opc d n st')) c) = s_ws_parser (px_mem st' c)"
    for opc d n st' c by (metis make_ws_frame_parser prod.collapse)
  show ?thesis
    unfolding session_handle_ws_message_def Let_def case_prod_beta
    by (simp add: fr if_distrib [of "\<lambda>x. s_ws_parser (px_mem x b)"])
qed

end
