(* ===== verification/Session.thy ===== *)
theory Session
  imports Session_Ops
begin

text \<open>
  The data path of a session of \<^verbatim>\<open>src/proxy/proxy.c\<close>: the bytes from the client, the bytes to and from the
  target, the event mask and the event handlers.
\<close>

section \<open>Bytes from the client\<close>

text \<open>A successful call that consumes nothing leaves the payload state, so the loop below makes
  progress even then.\<close>

lemma feed_payload_progress:
  assumes "feed_payload p data available pos cap = (SOCKIFY_OK, pos, p', msg)" and "0 < available"
  shows "p_state p' = WS_STATE_HEADER_1"
  using assms
  by (auto simp: feed_payload_def reset_frame_def clear_frame_def Let_def unsigned_eq_0_iff
      split: if_splits prod.splits)

lemma feed_loop_used: "feed_loop data n cap pos p = (rc, used, p', msg) \<Longrightarrow> pos \<le> used"
proof (induction data n cap pos p rule: feed_loop.induct)
  case (1 data n cap pos p)
  show ?case
    using "1.prems" "1.IH"
    by (subst (asm) feed_loop.simps)
      (auto simp: feed_payload_def Let_def split: if_splits sum.splits prod.splits dest: less_imp_le)
qed

lemma feed_loop_progress:
  assumes "feed_loop data n cap 0 p = (SOCKIFY_OK, 0, p', msg)" and "0 < n"
  shows "p_state p = WS_STATE_PAYLOAD \<and> p_state p' = WS_STATE_HEADER_1"
proof (cases "p_state p = WS_STATE_PAYLOAD")
  case True
  then have "feed_payload p data n 0 cap = (SOCKIFY_OK, 0, p', msg)"
    using assms by (simp add: feed_loop.simps [of data] Let_def sz_sub_def split: if_splits)
  then show ?thesis using True feed_payload_progress assms(2) by blast
next
  case False
  then show ?thesis
    using assms
    by (auto simp: feed_loop.simps [of data _ _ 0] Let_def split: if_splits sum.splits dest!: feed_loop_used)
qed

lemma feed_progress:
  assumes "sockify_ws_parser_feed (Some p) (Some data) n False cap = (SOCKIFY_OK, 0, Some p', msg)" and "0 < n"
  shows "p_state p = WS_STATE_PAYLOAD \<and> p_state p' \<noteq> WS_STATE_PAYLOAD"
  using assms feed_loop_progress [of data n cap p p' msg]
  by (auto simp: sockify_ws_parser_feed_def split: prod.splits)

definition ws_bytes_measure :: "addr \<Rightarrow> size_t \<Rightarrow> size_t \<Rightarrow> proxy \<Rightarrow> nat" where
  "ws_bytes_measure a data_len pos st =
     2 * (data_len - pos) + (if p_state (s_ws_parser (px_mem st a)) = WS_STATE_PAYLOAD then 1 else 0)"

text \<open>The loop of \<^verbatim>\<open>session_process_ws_bytes\<close>; \<open>Inl\<close> is a return from inside the loop. It ends because a
  successful call that consumes no byte leaves the payload state.\<close>

function process_ws_loop ::
  "env \<Rightarrow> addr \<Rightarrow> byte list \<Rightarrow> size_t \<Rightarrow> size_t \<Rightarrow> proxy \<Rightarrow> sockify_rc ptr \<times> proxy" where
  "process_ws_loop E a data data_len pos st =
     (if pos < data_len \<and> s_closing (px_mem st a) = 0 then
        let payload_capacity = min_size SOCKIFY_PROXY_IO_CHUNK
              (sockify_buffer_writable (s_client_to_target (px_mem st a)))
        in if payload_capacity = 0 then (Some SOCKIFY_ERR_AGAIN, st)
           else
             (case sockify_ws_parser_feed (Some (s_ws_parser (px_mem st a))) (Some (drop pos data))
                     (data_len - pos) False payload_capacity of
                (rc, used, parser, msg) \<Rightarrow>
                  let st1 = upd a (\<lambda>s. s\<lparr>s_ws_parser := the parser\<rparr>) st
                  in if rc = SOCKIFY_OK then
                       process_ws_loop E a data data_len (pos + used) (session_handle_ws_message E a msg st1)
                     else if rc = SOCKIFY_ERR_AGAIN then
                       if used = 0 then (None, st1)
                       else process_ws_loop E a data data_len (pos + used) st1
                     else (Some rc, st1))
      else (None, st))"
  by pat_completeness auto
termination
proof (relation "measure (\<lambda>(E, a, data, data_len, pos, st). ws_bytes_measure a data_len pos st)", goal_cases)
  case 1
  then show ?case by simp
next
  case (2 E a data data_len pos st cap rc y used ya parser msg st1)
  then have feed: "sockify_ws_parser_feed (Some (s_ws_parser (px_mem st a))) (Some (drop pos data))
      (data_len - pos) False cap = (SOCKIFY_OK, used, parser, msg)" by simp
  then obtain p' where p': "parser = Some p'"
    by (auto simp: sockify_ws_parser_feed_def split: if_splits prod.splits)
  show ?case
    using 2 p' feed_progress [of "s_ws_parser (px_mem st a)" "drop pos data" "data_len - pos" cap p' msg] feed
    by (cases "used = 0") (auto simp: ws_bytes_measure_def)
next
  case (3 E a data data_len pos st cap rc y used ya parser msg st1)
  then show ?case by (auto simp: ws_bytes_measure_def)
qed

declare process_ws_loop.simps [simp del]

definition session_process_ws_bytes ::
  "env \<Rightarrow> addr \<Rightarrow> byte list \<Rightarrow> size_t \<Rightarrow> proxy \<Rightarrow> sockify_rc \<times> proxy" where
  "session_process_ws_bytes E a data data_len st =
     (case process_ws_loop E a data data_len 0 st of
        (Some rc, st1) \<Rightarrow> (rc, st1)
      | (None, st1) \<Rightarrow>
          if s_closing (px_mem st1 a) = 2 then (SOCKIFY_ERR_CLOSED, st1) else (SOCKIFY_OK, st1))"

text \<open>The bytes of the request live in the array \<^verbatim>\<open>handshake\<close>; the model keeps its first
  \<^verbatim>\<open>handshake_len\<close> bytes, the only ones that are read.\<close>

definition session_handle_handshake_bytes :: "env \<Rightarrow> addr \<Rightarrow> byte list \<Rightarrow> size_t \<Rightarrow> proxy \<Rightarrow> proxy" where
  "session_handle_handshake_bytes E a data data_len st =
     (let s = px_mem st a; available = sz_sub SOCKIFY_WS_MAX_HTTP_REQUEST (s_handshake_len s)
      in if data_len > available then session_close E a st
         else
           let request = take (s_handshake_len s) (s_handshake s) @ take data_len data;
               len = s_handshake_len s + data_len;
               st1 = upd a (\<lambda>x. x\<lparr>s_handshake := request, s_handshake_len := len\<rparr>) st
           in (case sockify_ws_build_handshake_response_ex (env_garbage E) (Some request) len False 256 of
                 (rc, response_len, consumed, response) \<Rightarrow>
                   if rc = SOCKIFY_ERR_AGAIN then st1
                   else if rc \<noteq> SOCKIFY_OK then session_close E a st1
                   else
                     (case session_set_client_out a response response_len st1 of
                        (rc1, st2) \<Rightarrow>
                          if rc1 \<noteq> SOCKIFY_OK then session_close E a st2
                          else
                            (case session_start_target E a (upd a (\<lambda>x. x\<lparr>s_handshake_done := True\<rparr>) st2) of
                               (rc2, st3) \<Rightarrow>
                                 if rc2 \<noteq> SOCKIFY_OK then session_close E a st3
                                 else if consumed < len then
                                   (case session_process_ws_bytes E a (drop consumed request) (len - consumed) st3 of
                                      (rc3, st4) \<Rightarrow>
                                        if rc3 \<noteq> SOCKIFY_OK \<and> rc3 \<noteq> SOCKIFY_ERR_AGAIN then session_close E a st4
                                        else upd a (\<lambda>x. x\<lparr>s_handshake_len := 0\<rparr>) st4)
                                 else upd a (\<lambda>x. x\<lparr>s_handshake_len := 0\<rparr>) st3))))"

text \<open>The loop of \<^verbatim>\<open>session_read_client\<close>; \<open>n\<close> is the rest of the read budget.\<close>

fun read_client_loop :: "nat \<Rightarrow> env \<Rightarrow> addr \<Rightarrow> proxy \<Rightarrow> proxy" where
  "read_client_loop 0 E a st = st"
| "read_client_loop (Suc n) E a st =
     (let s = px_mem st a
      in if s_closing s \<noteq> 0 then st
         else
           let read_limit = (if s_handshake_done s
                             then min_size SOCKIFY_PROXY_IO_CHUNK (sockify_buffer_writable (s_client_to_target s))
                             else SOCKIFY_PROXY_IO_CHUNK)
           in if read_limit = 0 then st
              else
                (case sockify_transport_read (env_tls E) (env_os E) (s_client_transport s) read_limit (px_trace st) of
                   (rc, bytes, tp, tr) \<Rightarrow>
                     let st1 = upd a (\<lambda>x. x\<lparr>s_client_transport := tp\<rparr>) (st\<lparr>px_trace := tr\<rparr>)
                     in if rc = SOCKIFY_ERR_AGAIN then st1
                        else if rc \<noteq> SOCKIFY_OK then session_close E a st1
                        else
                          let st2 = session_touch E a st1
                          in if \<not> s_handshake_done (px_mem st2 a) then
                               let st3 = session_handle_handshake_bytes E a bytes (length bytes) st2
                               in if \<not> s_handshake_done (px_mem st3 a) \<or> s_closing (px_mem st3 a) = 2 then st3
                                  else if sockify_buffer_is_high (s_client_to_target (px_mem st3 a)) then st3
                                  else read_client_loop n E a st3
                             else
                               (case session_process_ws_bytes E a bytes (length bytes) st2 of
                                  (rc2, st3) \<Rightarrow>
                                    if rc2 \<noteq> SOCKIFY_OK \<and> rc2 \<noteq> SOCKIFY_ERR_AGAIN then session_close E a st3
                                    else if sockify_buffer_is_high (s_client_to_target (px_mem st3 a)) then st3
                                    else read_client_loop n E a st3)))"

definition session_read_client :: "env \<Rightarrow> addr \<Rightarrow> proxy \<Rightarrow> proxy" where
  "session_read_client E a st = read_client_loop (read_budget (px_config st)) E a st"

section \<open>Bytes to the client\<close>

text \<open>The loop of \<^verbatim>\<open>session_write_client\<close>; the Boolean says that the function returned from it.\<close>

fun write_client_loop :: "nat \<Rightarrow> env \<Rightarrow> addr \<Rightarrow> proxy \<Rightarrow> bool \<times> proxy" where
  "write_client_loop 0 E a st = (False, st)"
| "write_client_loop (Suc n) E a st =
     (let s = px_mem st a
      in if s_client_out_pos s < s_client_out_len s then
           (case sockify_transport_write (env_tls E) (env_os E) (s_client_transport s)
                   (take (s_client_out_len s - s_client_out_pos s) (drop (s_client_out_pos s) (s_client_out s)))
                   (px_trace st) of
              (rc, sent, tp, tr) \<Rightarrow>
                let st1 = upd a (\<lambda>x. x\<lparr>s_client_transport := tp\<rparr>) (st\<lparr>px_trace := tr\<rparr>)
                in if rc = SOCKIFY_ERR_AGAIN then (True, st1)
                   else if rc \<noteq> SOCKIFY_OK then (True, session_close E a st1)
                   else
                     let st2 = upd a (\<lambda>x. x\<lparr>s_client_out_pos := s_client_out_pos x + sent\<rparr>) st1;
                         st3 = (if sent \<noteq> 0 then session_touch E a st2 else st2)
                     in write_client_loop n E a st3)
         else (False, st))"

text \<open>The rest of \<^verbatim>\<open>session_write_client\<close>, once everything pending has been sent.\<close>

definition write_client_next :: "env \<Rightarrow> addr \<Rightarrow> proxy \<Rightarrow> proxy" where
  "write_client_next E a st =
     (let st1 = upd a (\<lambda>x. x\<lparr>s_client_out_len := 0, s_client_out_pos := 0\<rparr>) st;
          s = px_mem st1 a
      in if s_pending_close s then
           (case session_make_ws_frame a SOCKIFY_WS_OPCODE_CLOSE (Some (s_pending_close_payload s))
                   (s_pending_close_payload_len s) st1 of
              (rc, st2) \<Rightarrow>
                if rc = SOCKIFY_OK then upd a (\<lambda>x. x\<lparr>s_pending_close := False\<rparr>) st2 else st2)
         else if s_closing s \<noteq> 0 then session_close E a st1
         else if s_handshake_done s \<and> sockify_buffer_readable (s_target_to_client s) \<noteq> 0 then
           (case sockify_buffer_read (Some (s_target_to_client s)) False
                   (min_size SOCKIFY_PROXY_IO_CHUNK (sockify_buffer_readable (s_target_to_client s))) of
              (rc, payload_len, payload, buf) \<Rightarrow>
                let st2 = upd a (\<lambda>x. x\<lparr>s_target_to_client := the buf\<rparr>) st1
                in if rc \<noteq> SOCKIFY_OK then session_close E a st2
                   else
                     (case session_make_ws_frame a SOCKIFY_WS_OPCODE_BINARY (Some payload) payload_len st2 of
                        (rc2, st3) \<Rightarrow> if rc2 \<noteq> SOCKIFY_OK then session_close E a st3 else st3))
         else st1)"

definition session_write_client :: "env \<Rightarrow> addr \<Rightarrow> proxy \<Rightarrow> proxy" where
  "session_write_client E a st =
     (case write_client_loop (write_budget (px_config st)) E a st of
        (returned, st1) \<Rightarrow>
          if returned \<or> s_client_out_pos (px_mem st1 a) < s_client_out_len (px_mem st1 a) then st1
          else write_client_next E a st1)"

section \<open>Bytes from and to the target\<close>

fun read_target_loop :: "nat \<Rightarrow> env \<Rightarrow> addr \<Rightarrow> proxy \<Rightarrow> proxy" where
  "read_target_loop 0 E a st = st"
| "read_target_loop (Suc n) E a st =
     (let s = px_mem st a
      in if sockify_buffer_is_high (s_target_to_client s) then st
         else
           (case sockify_transport_read (env_tls E) (env_os E) (s_target_transport s) SOCKIFY_PROXY_IO_CHUNK
                   (px_trace st) of
              (rc, bytes, tp, tr) \<Rightarrow>
                let st1 = upd a (\<lambda>x. x\<lparr>s_target_transport := tp\<rparr>) (st\<lparr>px_trace := tr\<rparr>)
                in if rc = SOCKIFY_ERR_AGAIN then st1
                   else if rc \<noteq> SOCKIFY_OK then session_close E a st1
                   else
                     let st2 = session_touch E a st1
                     in (case sockify_buffer_write (Some (s_target_to_client (px_mem st2 a))) (Some bytes)
                                (length bytes) of
                           (rc2, written, buf) \<Rightarrow>
                             let st3 = upd a (\<lambda>x. x\<lparr>s_target_to_client := the buf\<rparr>) st2
                             in if rc2 \<noteq> SOCKIFY_OK \<or> written \<noteq> length bytes then session_close E a st3
                                else read_target_loop n E a st3)))"

definition session_read_target :: "env \<Rightarrow> addr \<Rightarrow> proxy \<Rightarrow> proxy" where
  "session_read_target E a st = read_target_loop (read_budget (px_config st)) E a st"

fun write_target_loop :: "nat \<Rightarrow> env \<Rightarrow> addr \<Rightarrow> proxy \<Rightarrow> proxy" where
  "write_target_loop 0 E a st = st"
| "write_target_loop (Suc n) E a st =
     (let s = px_mem st a
      in if sockify_buffer_readable (s_client_to_target s) = 0 then st
         else
           (case sockify_buffer_peek (Some (s_client_to_target s)) False
                   (min_size SOCKIFY_PROXY_IO_CHUNK (sockify_buffer_readable (s_client_to_target s))) of
              (rc, cnt, out) \<Rightarrow>
                if rc \<noteq> SOCKIFY_OK then session_close E a st
                else
                  (case sockify_transport_write (env_tls E) (env_os E) (s_target_transport s) (take cnt out)
                          (px_trace st) of
                     (rc2, sent, tp, tr) \<Rightarrow>
                       let st1 = upd a (\<lambda>x. x\<lparr>s_target_transport := tp\<rparr>) (st\<lparr>px_trace := tr\<rparr>)
                       in if rc2 = SOCKIFY_ERR_AGAIN then st1
                          else if rc2 \<noteq> SOCKIFY_OK then session_close E a st1
                          else
                            let st2 = (if sent \<noteq> 0 then session_touch E a st1 else st1)
                            in (case sockify_buffer_consume (Some (s_client_to_target (px_mem st2 a))) sent of
                                  (rc3, k, buf) \<Rightarrow>
                                    let st3 = upd a (\<lambda>x. x\<lparr>s_client_to_target := the buf\<rparr>) st2
                                    in if rc3 \<noteq> SOCKIFY_OK then session_close E a st3
                                       else write_target_loop n E a st3))))"

definition session_write_target :: "env \<Rightarrow> addr \<Rightarrow> proxy \<Rightarrow> proxy" where
  "session_write_target E a st = write_target_loop (write_budget (px_config st)) E a st"

section \<open>Events\<close>

definition client_event_mask :: "env \<Rightarrow> sockify_proxy_session \<Rightarrow> u32" where
  "client_event_mask E s =
     (if \<not> s_client_tls_ready s then transport_tls_event_mask (env_tls E) (s_client_transport s)
      else if s_closing s = 0 \<and>
              (\<not> s_handshake_done s \<or> \<not> sockify_buffer_is_high (s_client_to_target s))
      then SOCKIFY_EVENT_READ
      else 0) OR
     (if s_client_out_pos s < s_client_out_len s \<or> sockify_buffer_readable (s_target_to_client s) \<noteq> 0
      then SOCKIFY_EVENT_WRITE else 0)"

definition target_event_mask :: "env \<Rightarrow> sockify_proxy_session \<Rightarrow> u32" where
  "target_event_mask E s =
     (if s_target_connecting s then SOCKIFY_EVENT_WRITE
      else if \<not> s_target_tls_ready s then transport_tls_event_mask (env_tls E) (s_target_transport s)
      else if \<not> s_target_connecting s \<and> \<not> sockify_buffer_is_high (s_target_to_client s)
      then SOCKIFY_EVENT_READ
      else 0) OR
     (if s_target_tls_ready s \<and> sockify_buffer_readable (s_client_to_target s) \<noteq> 0
      then SOCKIFY_EVENT_WRITE else 0)"

definition session_update_events :: "env \<Rightarrow> addr \<Rightarrow> proxy \<Rightarrow> proxy" where
  "session_update_events E a st =
     (let s = px_mem st a
      in if s_closing s = 2 then st
         else
           let st1 = (if s_client_registered s
                      then px_loop_modify E (s_client_fd s) (client_event_mask E s) st else st)
           in if s_target_registered s
              then px_loop_modify E (s_target_fd s) (target_event_mask E s) st1 else st1)"

text \<open>The data part of the two event handlers, after the TLS handshakes.\<close>

definition client_event_io :: "env \<Rightarrow> addr \<Rightarrow> u32 \<Rightarrow> proxy \<Rightarrow> proxy" where
  "client_event_io E a events st =
     (let st1 = (if events AND SOCKIFY_EVENT_READ \<noteq> 0 then session_read_client E a st else st)
      in if events AND SOCKIFY_EVENT_READ \<noteq> 0 \<and> s_closing (px_mem st1 a) = 2 then st1
         else
           let st2 = (if events AND SOCKIFY_EVENT_WRITE \<noteq> 0 then session_write_client E a st1 else st1)
           in if events AND SOCKIFY_EVENT_WRITE \<noteq> 0 \<and> s_closing (px_mem st2 a) = 2 then st2
              else session_update_events E a st2)"

definition session_handle_client_event :: "env \<Rightarrow> addr \<Rightarrow> u32 \<Rightarrow> proxy \<Rightarrow> proxy" where
  "session_handle_client_event E a events st =
     (if events AND SOCKIFY_EVENT_ERROR \<noteq> 0 then session_close E a st
      else if \<not> s_client_tls_ready (px_mem st a) then
        (case session_drive_client_tls E a st of
           (rc, st1) \<Rightarrow>
             if rc = SOCKIFY_ERR_AGAIN then session_update_events E a st1
             else if \<not> s_client_tls_ready (px_mem st1 a) then session_close E a st1
             else client_event_io E a events st1)
      else client_event_io E a events st)"

definition target_event_io :: "env \<Rightarrow> addr \<Rightarrow> u32 \<Rightarrow> proxy \<Rightarrow> proxy" where
  "target_event_io E a events st =
     (let st1 = (if events AND SOCKIFY_EVENT_READ \<noteq> 0 then session_read_target E a st else st)
      in if events AND SOCKIFY_EVENT_READ \<noteq> 0 \<and> s_closing (px_mem st1 a) = 2 then st1
         else
           let st2 = (if events AND SOCKIFY_EVENT_WRITE \<noteq> 0 then session_write_target E a st1 else st1)
           in if events AND SOCKIFY_EVENT_WRITE \<noteq> 0 \<and> s_closing (px_mem st2 a) = 2 then st2
              else session_update_events E a st2)"

definition target_event_tls :: "env \<Rightarrow> addr \<Rightarrow> u32 \<Rightarrow> proxy \<Rightarrow> proxy" where
  "target_event_tls E a events st =
     (if \<not> s_target_connecting (px_mem st a) \<and> \<not> s_target_tls_ready (px_mem st a) then
        (case session_drive_target_tls E a st of
           (rc, st1) \<Rightarrow>
             if rc = SOCKIFY_ERR_AGAIN then session_update_events E a st1
             else if \<not> s_target_tls_ready (px_mem st1 a) then session_close E a st1
             else target_event_io E a events st1)
      else target_event_io E a events st)"

definition session_handle_target_event :: "env \<Rightarrow> addr \<Rightarrow> u32 \<Rightarrow> proxy \<Rightarrow> proxy" where
  "session_handle_target_event E a events st =
     (if events AND SOCKIFY_EVENT_ERROR \<noteq> 0 then session_close E a st
      else if s_target_connecting (px_mem st a) \<and> events AND SOCKIFY_EVENT_WRITE \<noteq> 0 then
        (case session_complete_target_connect E a st of
           (rc, st1) \<Rightarrow>
             if rc \<noteq> SOCKIFY_OK then session_close E a st1 else target_event_tls E a events st1)
      else target_event_tls E a events st)"

text \<open>The argument of the callback is a session and a side; the server's own callback has another
  argument and never reaches this function.\<close>

definition session_event_callback :: "env \<Rightarrow> u32 \<Rightarrow> user_data \<Rightarrow> proxy \<Rightarrow> proxy" where
  "session_event_callback E events ud st =
     (case ud of
        Ud_side a SESSION_SIDE_CLIENT \<Rightarrow> session_handle_client_event E a events st
      | Ud_side a SESSION_SIDE_TARGET \<Rightarrow> session_handle_target_event E a events st
      | Ud_server \<Rightarrow> st)"

end
