(* ===== verification/Server.thy ===== *)
theory Server
  imports Session
begin

text \<open>
  The server of \<^verbatim>\<open>src/proxy/proxy.c\<close>: creating sessions, accepting, expiring, the TLS contexts and
  \<^verbatim>\<open>sockify_proxy_run\<close>, together with the run loops of the event backends, whose callbacks are the
  proxy's. Loops that may run forever are partial functions into \<open>option\<close>: not returning is \<open>None\<close>.

  A source is dereferenced through the address the kernel hands back. If it was freed earlier in
  the same batch, the model reads what the address holds then: a source allocated there since, or
  else the contents it had when the batch was fetched.
\<close>

section \<open>Creating a session\<close>

text \<open>\<^verbatim>\<open>sizeof(struct sockify_proxy_session)\<close> on a 64-bit platform.\<close>

abbreviation sizeof_session :: nat where "sizeof_session \<equiv> 8744"

definition zero_transport :: sockify_transport where
  "zero_transport = \<lparr>t_type = 0, t_fd = 0, t_tls = None\<rparr>"

definition zero_buffer :: sockify_buffer where
  "zero_buffer = \<lparr>b_data = [], b_capacity = 0, b_read_pos = 0, b_write_pos = 0, b_length = 0,
     b_high_water = 0, b_low_water = 0\<rparr>"

definition zero_session :: sockify_proxy_session where
  "zero_session =
     \<lparr>s_next = None, s_prev = None, s_client_fd = 0, s_target_fd = 0,
      s_client_transport = zero_transport, s_target_transport = zero_transport,
      s_client_registered = False, s_target_registered = False, s_target_connecting = False,
      s_client_tls_ready = False, s_target_tls_ready = False, s_handshake_done = False, s_closing = 0,
      s_pending_close = False, s_pending_close_payload = [], s_pending_close_payload_len = 0,
      s_handshake = [], s_handshake_len = 0, s_ws_parser = zero_parser,
      s_client_to_target = zero_buffer, s_target_to_client = zero_buffer,
      s_client_to_target_storage = None, s_target_to_client_storage = None, s_client_out_ptr = None,
      s_client_out = [], s_client_out_len = 0, s_client_out_pos = 0, s_client_out_capacity = 0,
      s_created_at = 0, s_connect_started_at = 0, s_last_activity_at = 0\<rparr>"

text \<open>\<^verbatim>\<open>malloc(n)\<close>: the block, with the bytes that happen to be in it.\<close>

definition px_malloc :: "env \<Rightarrow> nat \<Rightarrow> proxy \<Rightarrow> addr ptr \<times> byte list \<times> proxy" where
  "px_malloc E n st =
     (case sys (env_os E) (Call_mem (Mem_malloc n)) (px_trace st) of
        (r, tr) \<Rightarrow> (if r_ret r = 0 then None else Some (nat (r_ret r)),
                    take n (r_bytes r @ replicate n 0), st\<lparr>px_trace := tr\<rparr>))"

definition session_buffer_size :: "sockify_proxy_config \<Rightarrow> size_t" where
  "session_buffer_size config =
     (if buffer_size config = 0 \<or> buffer_size config > SOCKIFY_WS_MAX_FRAME_PAYLOAD
      then SOCKIFY_WS_MAX_FRAME_PAYLOAD else buffer_size config)"

definition init_ring :: "sockify_buffer \<Rightarrow> byte list \<Rightarrow> size_t \<Rightarrow> sockify_buffer" where
  "init_ring b storage bsize =
     the (snd (sockify_buffer_init (Some b) (Some storage) bsize (sz_mul bsize 3 div 4) (bsize div 4)))"

text \<open>The end of \<^verbatim>\<open>session_create\<close>: registering the client and linking the session in.\<close>

definition session_link :: "env \<Rightarrow> addr \<Rightarrow> proxy \<Rightarrow> proxy" where
  "session_link E a st =
     (let head = sv_sessions (px_server st);
          st1 = upd a (\<lambda>s. s\<lparr>s_client_registered := True, s_next := head, s_prev := None\<rparr>) st;
          st2 = (case head of None \<Rightarrow> st1 | Some h \<Rightarrow> upd h (\<lambda>s. s\<lparr>s_prev := Some a\<rparr>) st1);
          sv = px_server st2;
          st3 = st2\<lparr>px_server := sv\<lparr>sv_sessions := Some a,
                                    sv_active_connections := sz_add (sv_active_connections sv) 1\<rparr>\<rparr>
      in (case px_time E st3 of
            (t, st4) \<Rightarrow>
              upd a (\<lambda>s. s\<lparr>s_created_at := t, s_last_activity_at := t, s_connect_started_at := 0\<rparr>) st4))"

definition session_register :: "env \<Rightarrow> addr \<Rightarrow> socket \<Rightarrow> proxy \<Rightarrow> addr ptr \<times> proxy" where
  "session_register E a client_fd st =
     (case px_loop_add E client_fd
             (if client_tls_enabled (px_config st) then SOCKIFY_EVENT_READ OR SOCKIFY_EVENT_WRITE
              else SOCKIFY_EVENT_READ) session_cb (Ud_side a SESSION_SIDE_CLIENT) st of
        (rc, st1) \<Rightarrow>
          if rc \<noteq> SOCKIFY_OK then (None, session_close E a st1)
          else (Some a, session_link E a st1))"

text \<open>The middle of \<^verbatim>\<open>session_create\<close>: the storage of the two rings and of the output.\<close>

definition session_alloc :: "env \<Rightarrow> addr \<Rightarrow> socket \<Rightarrow> size_t \<Rightarrow> proxy \<Rightarrow> addr ptr \<times> proxy" where
  "session_alloc E a client_fd bsize st =
     (let cap = SOCKIFY_PROXY_IO_CHUNK + 14
      in (case px_malloc E bsize st of
            (p1, c1, st1) \<Rightarrow>
              (case px_malloc E bsize st1 of
                 (p2, c2, st2) \<Rightarrow>
                   (case px_malloc E cap st2 of
                      (p3, c3, st3) \<Rightarrow>
                        let st4 = upd a (\<lambda>s. s\<lparr>s_client_out_capacity := cap, s_client_to_target_storage := p1,
                                      s_target_to_client_storage := p2, s_client_out_ptr := p3\<rparr>) st3
                        in if p1 = None \<or> p2 = None \<or> p3 = None then (None, session_close E a st4)
                           else
                             session_register E a client_fd
                               (upd a (\<lambda>s. s\<lparr>s_client_out := c3,
                                   s_client_to_target := init_ring (s_client_to_target s) c1 bsize,
                                   s_target_to_client := init_ring (s_target_to_client s) c2 bsize,
                                   s_ws_parser := the (sockify_ws_parser_init (Some (s_ws_parser s)))\<rparr>) st4)))))"

definition session_create :: "env \<Rightarrow> socket \<Rightarrow> proxy \<Rightarrow> addr ptr \<times> proxy" where
  "session_create E client_fd st =
     (let bsize = session_buffer_size (px_config st)
      in (case sys (env_os E) (Call_mem (Mem_calloc sizeof_session)) (px_trace st) of
            (r, tr) \<Rightarrow>
              if r_ret r = 0 then (None, st\<lparr>px_trace := tr\<rparr>)
              else
                let a = nat (r_ret r);
                    st1 = st\<lparr>px_mem := (px_mem st)(a := zero_session\<lparr>s_client_fd := client_fd,
                                 s_target_fd := sockify_net_invalid_socket\<rparr>),
                             px_live := (px_live st)(a := True), px_trace := tr\<rparr>;
                    plain = \<lambda>fd. the (snd (sockify_transport_init_plain (Some zero_transport) fd));
                    rest = \<lambda>st2. session_alloc E a client_fd bsize
                      (upd a (\<lambda>s. s\<lparr>s_target_transport := plain sockify_net_invalid_socket,
                          s_target_tls_ready := \<not> target_tls_enabled (px_config st2)\<rparr>) st2)
                in if client_tls_enabled (px_config st1) then
                     (case sockify_transport_init_tls (env_tls E) (env_os E)
                             (Some (s_client_transport (px_mem st1 a))) client_fd
                             (sv_client_tls_context (px_server st1)) True None (px_trace st1) of
                        (rc, tp, tr1) \<Rightarrow>
                          let st2 = upd a (\<lambda>s. s\<lparr>s_client_transport := the tp\<rparr>) (st1\<lparr>px_trace := tr1\<rparr>)
                          in if rc \<noteq> SOCKIFY_OK then (None, session_close E a st2)
                             else rest (upd a (\<lambda>s. s\<lparr>s_client_tls_ready := False\<rparr>) st2))
                   else rest (upd a (\<lambda>s. s\<lparr>s_client_transport := plain client_fd,
                                          s_client_tls_ready := True\<rparr>) st1)))"

section \<open>Accepting\<close>

text \<open>The loop of \<^verbatim>\<open>listener_callback\<close>; \<open>n\<close> is the rest of the accept budget.\<close>

fun accept_loop :: "nat \<Rightarrow> env \<Rightarrow> socket \<Rightarrow> proxy \<Rightarrow> proxy" where
  "accept_loop 0 E fd st = st"
| "accept_loop (Suc n) E fd st =
     (case sockify_net_accept (env_platform E) (env_os E) fd (px_trace st) of
        (rc, client_fd, tr) \<Rightarrow>
          let st1 = st\<lparr>px_trace := tr\<rparr>
          in if rc = SOCKIFY_ERR_AGAIN then st1
             else if rc \<noteq> SOCKIFY_OK then st1
             else if sv_active_connections (px_server st1) \<ge> max_connections (px_config st1)
             then accept_loop n E fd (px_net_close E client_fd st1)
             else (case session_create E client_fd st1 of
                     (None, st2) \<Rightarrow> st2
                   | (Some a, st2) \<Rightarrow> accept_loop n E fd st2))"

definition listener_callback :: "env \<Rightarrow> socket \<Rightarrow> u32 \<Rightarrow> proxy \<Rightarrow> proxy" where
  "listener_callback E fd events st =
     (if events AND SOCKIFY_EVENT_READ = 0 then st
      else accept_loop (accept_budget (px_config st)) E fd st)"

section \<open>Timeouts\<close>

text \<open>The elapsed time is a product of doubles in the code; it is exact, and so an integer here, as
  long as the difference of the times in milliseconds stays below \<open>2 ^ 53\<close>.\<close>

definition elapsed_reaches :: "int \<Rightarrow> int \<Rightarrow> u32 \<Rightarrow> bool" where
  "elapsed_reaches now since timeout_ms \<longleftrightarrow> (now - since) * 1000 \<ge> uint timeout_ms"

definition session_is_expired :: "sockify_proxy_session \<Rightarrow> sockify_proxy_config \<Rightarrow> int \<Rightarrow> bool" where
  "session_is_expired s config now =
     (if s_target_connecting s \<and> connect_timeout_ms config \<noteq> 0 \<and> s_connect_started_at s \<noteq> 0 \<and>
         elapsed_reaches now (s_connect_started_at s) (connect_timeout_ms config) then True
      else if \<not> s_handshake_done s \<and> handshake_timeout_ms config \<noteq> 0 \<and>
              elapsed_reaches now (s_created_at s) (handshake_timeout_ms config) then True
      else if s_handshake_done s \<and> idle_timeout_ms config \<noteq> 0 \<and>
              elapsed_reaches now (s_last_activity_at s) (idle_timeout_ms config) then True
      else False)"

partial_function (option) tick_loop :: "env \<Rightarrow> int \<Rightarrow> addr ptr \<Rightarrow> proxy \<Rightarrow> proxy option" where
  "tick_loop E now cur st =
     (case cur of
        None \<Rightarrow> Some st
      | Some a \<Rightarrow>
          tick_loop E now (s_next (px_mem st a))
            (if session_is_expired (px_mem st a) (px_config st) now then session_close E a st else st))"

definition proxy_tick :: "env \<Rightarrow> proxy \<Rightarrow> proxy option" where
  "proxy_tick E st =
     (if sv_sessions (px_server st) = None then Some st
      else if handshake_timeout_ms (px_config st) = 0 \<and> idle_timeout_ms (px_config st) = 0 \<and>
              connect_timeout_ms (px_config st) = 0 then Some st
      else (case px_time E st of (now, st1) \<Rightarrow> tick_loop E now (sv_sessions (px_server st1)) st1))"

section \<open>The run loops\<close>

definition event_dispatch :: "env \<Rightarrow> event_source \<Rightarrow> u32 \<Rightarrow> proxy \<Rightarrow> proxy" where
  "event_dispatch E source events st =
     (case src_callback source of
        listener_cb \<Rightarrow> listener_callback E (src_fd source) events st
      | session_cb \<Rightarrow> session_event_callback E events (src_user_data source) st)"

definition loop_stopped :: "proxy \<Rightarrow> bool" where
  "loop_stopped st = (case sv_loop (px_server st) of None \<Rightarrow> True | Some l \<Rightarrow> l_stopped l)"

definition loop_sources :: "proxy \<Rightarrow> event_source list" where
  "loop_sources st = (case sv_loop (px_server st) of None \<Rightarrow> [] | Some l \<Rightarrow> impl_sources (l_impl l))"

definition deref_source :: "event_source list \<Rightarrow> proxy \<Rightarrow> addr \<Rightarrow> event_source option" where
  "deref_source snapshot st p =
     (case find (\<lambda>s. src_self s = p) (loop_sources st) of
        Some s \<Rightarrow> Some s
      | None \<Rightarrow> find (\<lambda>s. src_self s = p) snapshot)"

text \<open>The dispatch of one batch; \<open>mask_of\<close> turns the reported filter and bits into an event mask. A
  pointer that was never handed to the kernel is not reported; kqueue skips the null pointer.\<close>

fun batch_dispatch ::
  "env \<Rightarrow> (int \<Rightarrow> u32 \<Rightarrow> u32) \<Rightarrow> event_source list \<Rightarrow> (addr \<times> int \<times> u32) list \<Rightarrow> proxy \<Rightarrow> proxy" where
  "batch_dispatch E mask_of snapshot [] st = st"
| "batch_dispatch E mask_of snapshot ((p, filt, bits) # es) st =
     (case deref_source snapshot st p of
        None \<Rightarrow> batch_dispatch E mask_of snapshot es st
      | Some source \<Rightarrow>
          let st1 = event_dispatch E source (mask_of filt bits) st
          in if loop_stopped st1 then st1 else batch_dispatch E mask_of snapshot es st1)"

abbreviation EV_ERROR :: u32 where "EV_ERROR \<equiv> 0x4000"

definition kevent_mask :: "int \<Rightarrow> u32 \<Rightarrow> u32" where
  "kevent_mask filt flags =
     (if filt = EVFILT_READ then SOCKIFY_EVENT_READ else 0) OR
     (if filt = EVFILT_WRITE then SOCKIFY_EVENT_WRITE else 0) OR
     (if flags AND EV_ERROR \<noteq> 0 then SOCKIFY_EVENT_ERROR else 0)"

text \<open>The end of every round of a run loop.\<close>

definition run_tick :: "env \<Rightarrow> proxy \<Rightarrow> proxy option" where
  "run_tick E st =
     (case sv_loop (px_server st) of
        None \<Rightarrow> Some st
      | Some l \<Rightarrow> if l_tick l then proxy_tick E st else Some st)"

text \<open>One round of \<^verbatim>\<open>epoll_run_common\<close> and of \<^verbatim>\<open>kqueue_run_common\<close>; \<open>Inl\<close> is a return from the loop.\<close>

definition epoll_round :: "env \<Rightarrow> epoll_impl \<Rightarrow> proxy \<Rightarrow> (sockify_rc \<times> proxy + proxy) option" where
  "epoll_round E impl st =
     (case sys (env_os E) (Call_event (Ev_epoll_wait (ei_epfd impl))) (px_trace st) of
        (r, tr) \<Rightarrow>
          let st1 = st\<lparr>px_trace := tr\<rparr>
          in if r_ret r < 0 then Some (Inl (SOCKIFY_ERR_SYS, st1))
             else map_option Inr (run_tick E
                    (batch_dispatch E (\<lambda>_. from_epoll_events) (loop_sources st1)
                       (take (nat (r_ret r)) (r_ready r)) st1)))"

definition kqueue_round :: "env \<Rightarrow> kqueue_impl \<Rightarrow> proxy \<Rightarrow> (sockify_rc \<times> proxy + proxy) option" where
  "kqueue_round E impl st =
     (case sys (env_os E) (Call_event (Ev_kevent_wait (ki_kq impl))) (px_trace st) of
        (r, tr) \<Rightarrow>
          let st1 = st\<lparr>px_trace := tr\<rparr>
          in if r_ret r < 0 then Some (Inl (SOCKIFY_ERR_SYS, st1))
             else map_option Inr (run_tick E
                    (batch_dispatch E kevent_mask (loop_sources st1)
                       (filter (\<lambda>(p, filt, flags). p \<noteq> 0) (take (nat (r_ret r)) (r_ready r))) st1)))"

text \<open>The dispatch loop of \<^verbatim>\<open>poll_run\<close> walks by index over the sources as they are then, with the
  \<^verbatim>\<open>revents\<close> of the call; entries past those hold whatever the array held.\<close>

partial_function (option) poll_dispatch :: "env \<Rightarrow> u16 list \<Rightarrow> nat \<Rightarrow> proxy \<Rightarrow> proxy option" where
  "poll_dispatch E revents i st =
     (if i < length (loop_sources st) then
        let ev = (if i < length revents then revents ! i else env_stale E (px_trace st) i)
        in if ev \<noteq> 0 then
             let st1 = event_dispatch E (loop_sources st ! i) (from_poll_events ev) st
             in if loop_stopped st1 then Some st1 else poll_dispatch E revents (i + 1) st1
           else poll_dispatch E revents (i + 1) st
      else Some st)"

definition poll_round :: "env \<Rightarrow> poll_impl \<Rightarrow> proxy \<Rightarrow> (sockify_rc \<times> proxy + proxy) option" where
  "poll_round E impl st =
     (if pi_sources impl = [] then Some (Inl (SOCKIFY_OK, st))
      else
        let pfds = map (\<lambda>s. (src_fd s, to_poll_events (src_events s))) (pi_sources impl)
        in (case sys (env_os E) (Call_event (Ev_poll pfds)) (px_trace st) of
              (r, tr) \<Rightarrow>
                let st1 = st\<lparr>px_trace := tr\<rparr>;
                    revents = map (\<lambda>(p, f, bits). ucast bits)
                      (take (length pfds) (r_ready r @ replicate (length pfds) (0, 0, 0)))
                in if r_ret r < 0 then Some (Inl (SOCKIFY_ERR_SYS, st1))
                   else if r_ret r > 0 then
                     Option.bind (poll_dispatch E revents 0 st1) (\<lambda>st2. map_option Inr (run_tick E st2))
                   else map_option Inr (run_tick E st1)))"

definition run_round :: "env \<Rightarrow> proxy \<Rightarrow> (sockify_rc \<times> proxy + proxy) option" where
  "run_round E st =
     (case sv_loop (px_server st) of
        None \<Rightarrow> Some (Inl (SOCKIFY_ERR_INVALID, st))
      | Some l \<Rightarrow>
          (case l_impl l of
             Loop_poll impl \<Rightarrow> poll_round E impl st
           | Loop_epoll impl \<Rightarrow> epoll_round E impl st
           | Loop_kqueue impl \<Rightarrow> kqueue_round E impl st))"

partial_function (option) run_loop :: "env \<Rightarrow> proxy \<Rightarrow> (sockify_rc \<times> proxy) option" where
  "run_loop E st =
     (if loop_stopped st then Some (SOCKIFY_OK, st)
      else Option.bind (run_round E st)
             (\<lambda>r. case r of Inl res \<Rightarrow> Some res | Inr st1 \<Rightarrow> run_loop E st1))"

definition sockify_event_loop_run :: "env \<Rightarrow> proxy \<Rightarrow> (sockify_rc \<times> proxy) option" where
  "sockify_event_loop_run E st =
     (case sv_loop (px_server st) of
        None \<Rightarrow> Some (SOCKIFY_ERR_INVALID, st)
      | Some l \<Rightarrow>
          run_loop E (st\<lparr>px_server := (px_server st)\<lparr>sv_loop := Some (l\<lparr>l_stopped := False\<rparr>)\<rparr>\<rparr>))"

section \<open>The TLS contexts\<close>

definition proxy_destroy_tls :: "env \<Rightarrow> proxy \<Rightarrow> proxy" where
  "proxy_destroy_tls E st =
     (let destroy = \<lambda>ctx st'. st'\<lparr>px_trace := sockify_tls_context_destroy (env_tls E) (env_os E) ctx (px_trace st')\<rparr>;
          ctx1 = sv_client_tls_context (px_server st);
          st1 = (if ctx1 \<noteq> None
                 then (destroy ctx1 st)\<lparr>px_server := (px_server st)\<lparr>sv_client_tls_context := None\<rparr>\<rparr> else st);
          ctx2 = sv_target_tls_context (px_server st1);
          st2 = (if ctx2 \<noteq> None
                 then (destroy ctx2 st1)\<lparr>px_server := (px_server st1)\<lparr>sv_target_tls_context := None\<rparr>\<rparr> else st1)
      in if tls_enabled (px_config st2)
         then st2\<lparr>px_trace := sockify_tls_global_cleanup (env_tls E) (px_trace st2)\<rparr> else st2)"

text \<open>One of the two contexts of \<^verbatim>\<open>proxy_init_tls\<close>; on failure everything is destroyed.\<close>

definition proxy_init_context :: "env \<Rightarrow> bool \<Rightarrow> proxy \<Rightarrow> sockify_rc \<times> proxy" where
  "proxy_init_context E server_side st =
     (case sockify_tls_context_create (env_tls E) (env_os E) (Some (px_config st)) server_side (px_trace st) of
        (rc, ctx, tr) \<Rightarrow>
          let sv = px_server st;
              st1 = st\<lparr>px_trace := tr,
                       px_server := (if server_side then sv\<lparr>sv_client_tls_context := ctx\<rparr>
                                     else sv\<lparr>sv_target_tls_context := ctx\<rparr>)\<rparr>
          in if rc \<noteq> SOCKIFY_OK then (rc, proxy_destroy_tls E st1) else (SOCKIFY_OK, st1))"

definition proxy_init_tls :: "env \<Rightarrow> proxy \<Rightarrow> sockify_rc \<times> proxy" where
  "proxy_init_tls E st =
     (if \<not> tls_enabled (px_config st) then (SOCKIFY_OK, st)
      else
        (case sockify_tls_global_init (env_tls E) (env_os E) (px_trace st) of
           (rc, tr) \<Rightarrow>
             let st1 = st\<lparr>px_trace := tr\<rparr>
             in if rc \<noteq> SOCKIFY_OK then (rc, st1)
                else if \<not> sockify_tls_is_available (env_tls E)
                then (SOCKIFY_ERR_UNSUPPORTED, proxy_destroy_tls E st1)
                else
                  (case (if client_tls_enabled (px_config st1) then proxy_init_context E True st1
                         else (SOCKIFY_OK, st1)) of
                     (rc1, st2) \<Rightarrow>
                       if rc1 \<noteq> SOCKIFY_OK then (rc1, st2)
                       else if target_tls_enabled (px_config st2) then proxy_init_context E False st2
                       else (SOCKIFY_OK, st2))))"

section \<open>Running the proxy\<close>

partial_function (option) close_all :: "env \<Rightarrow> proxy \<Rightarrow> proxy option" where
  "close_all E st =
     (case sv_sessions (px_server st) of
        None \<Rightarrow> Some st
      | Some a \<Rightarrow> close_all E (session_close E a st))"

text \<open>The memory of sessions is arbitrary before the first allocation.\<close>

definition initial_proxy :: "sockify_proxy_config \<Rightarrow> (addr \<Rightarrow> sockify_proxy_session) \<Rightarrow> trace \<Rightarrow> proxy" where
  "initial_proxy config mem tr =
     \<lparr>px_server = \<lparr>sv_config = config, sv_loop = None, sv_listener_fd = sockify_net_invalid_socket,
        sv_client_tls_context = None, sv_target_tls_context = None, sv_active_connections = 0,
        sv_sessions = None\<rparr>,
      px_mem = mem, px_live = (\<lambda>_. False), px_trace = tr\<rparr>"

text \<open>The end of \<^verbatim>\<open>sockify_proxy_run\<close>, from the moment the event loop exists.\<close>

definition proxy_shutdown :: "env \<Rightarrow> proxy \<Rightarrow> proxy option" where
  "proxy_shutdown E st =
     map_option
       (\<lambda>st1. let tr1 = sockify_event_loop_destroy (env_os E) (sv_loop (px_server st1)) (px_trace st1);
                  tr2 = sockify_net_close (env_os E) (sv_listener_fd (px_server st1)) tr1;
                  st2 = proxy_destroy_tls E (st1\<lparr>px_trace := tr2\<rparr>)
              in st2\<lparr>px_trace := sockify_net_cleanup (px_trace st2)\<rparr>)
       (close_all E st)"

definition proxy_serve :: "env \<Rightarrow> proxy \<Rightarrow> (sockify_rc \<times> proxy) option" where
  "proxy_serve E st =
     (case px_loop_add E (sv_listener_fd (px_server st)) SOCKIFY_EVENT_READ listener_cb Ud_server st of
        (rc, st1) \<Rightarrow>
          Option.bind
            (if rc = SOCKIFY_OK then
               sockify_event_loop_run E
                 (st1\<lparr>px_server := (px_server st1)\<lparr>sv_loop := sockify_event_loop_set_tick (sv_loop (px_server st1))\<rparr>\<rparr>)
             else Some (rc, st1))
            (\<lambda>(rc1, st2). map_option (Pair rc1) (proxy_shutdown E st2)))"

definition proxy_start :: "env \<Rightarrow> proxy \<Rightarrow> (sockify_rc \<times> proxy) option" where
  "proxy_start E st =
     (case sockify_net_listen (env_os E) (listen_endpoint (px_config st)) (backlog (px_config st)) (px_trace st) of
        (rc, fd, tr) \<Rightarrow>
          let st1 = st\<lparr>px_trace := tr, px_server := (px_server st)\<lparr>sv_listener_fd := fd\<rparr>\<rparr>
          in if rc \<noteq> SOCKIFY_OK then
               let st2 = proxy_destroy_tls E st1
               in Some (rc, st2\<lparr>px_trace := sockify_net_cleanup (px_trace st2)\<rparr>)
             else
               (case sockify_event_loop_create (env_platform E) (env_os E) (px_trace st1) of
                  (l, tr1) \<Rightarrow>
                    let st2 = st1\<lparr>px_trace := tr1, px_server := (px_server st1)\<lparr>sv_loop := l\<rparr>\<rparr>
                    in if l = None then
                         let st3 = proxy_destroy_tls E (px_net_close E fd st2)
                         in Some (SOCKIFY_ERR_NOMEM, st3\<lparr>px_trace := sockify_net_cleanup (px_trace st3)\<rparr>)
                       else proxy_serve E st2))"

definition sockify_proxy_run ::
  "env \<Rightarrow> (addr \<Rightarrow> sockify_proxy_session) \<Rightarrow> sockify_proxy_config ptr \<Rightarrow> trace \<Rightarrow> (sockify_rc \<times> trace) option" where
  "sockify_proxy_run E mem config tr =
     (if proxy_validate_config config \<noteq> SOCKIFY_OK then Some (proxy_validate_config config, tr)
      else
        (case sockify_net_init (env_os E) tr of
           (rc, tr1) \<Rightarrow>
             if rc \<noteq> SOCKIFY_OK then Some (rc, tr1)
             else
               (case proxy_init_tls E (initial_proxy (the config) mem tr1) of
                  (rc1, st) \<Rightarrow>
                    if rc1 \<noteq> SOCKIFY_OK then Some (rc1, sockify_net_cleanup (px_trace st))
                    else map_option (apsnd px_trace) (proxy_start E st))))"

end
