(* ===== verification/Cli.thy ===== *)
theory Cli
  imports Proxy_Config
begin

text \<open>
  The command line of \<^verbatim>\<open>src/core/cli.c\<close>. The arguments are C strings without terminator; the result of
  \<open>sockify_cli_parse_args\<close> is the return value, the configuration and the bytes printed to
  \<^verbatim>\<open>output\<close>. The return value 1 (help and version) is \<open>Cli_exit\<close>.
\<close>

section \<open>Numbers\<close>

text \<open>\<^verbatim>\<open>strtoul\<close> with base 10, from the C standard: white space, a sign, digits; the value is clipped
  to \<^verbatim>\<open>ULONG_MAX\<close> and negated modulo \<open>2 ^ 64\<close> after a minus sign. The second component is the offset of
  \<^verbatim>\<open>end\<close>, 0 when there are no digits.\<close>

definition is_space :: "byte \<Rightarrow> bool" where
  "is_space c \<longleftrightarrow> c = 32 \<or> 9 \<le> c \<and> c \<le> 13"

definition is_digit :: "byte \<Rightarrow> bool" where
  "is_digit c \<longleftrightarrow> 48 \<le> c \<and> c \<le> 57"

definition digits_value :: "byte list \<Rightarrow> nat" where
  "digits_value ds = foldl (\<lambda>v c. 10 * v + (unat c - 48)) 0 ds"

definition strtoul :: "byte list \<Rightarrow> nat \<times> nat" where
  "strtoul text =
     (let blanks = takeWhile is_space text;
          rest = dropWhile is_space text;
          negative = (case rest of [] \<Rightarrow> False | c # cs \<Rightarrow> c = 45);
          signed = (case rest of [] \<Rightarrow> False | c # cs \<Rightarrow> c = 45 \<or> c = 43);
          ds = takeWhile is_digit (if signed then tl rest else rest);
          v = digits_value ds
      in if ds = [] then (0, 0)
         else (if v \<ge> size_lim then size_lim - 1
               else if negative then (size_lim - v) mod size_lim else v,
               length blanks + (if signed then 1 else 0) + length ds))"

definition copy_str :: "byte list \<Rightarrow> size_t \<Rightarrow> byte list \<Rightarrow> sockify_rc \<times> byte list" where
  "copy_str dest dest_size src =
     (if length src + 1 > dest_size then (SOCKIFY_ERR_OVERFLOW, dest) else (SOCKIFY_OK, src))"

definition parse_size :: "byte list \<Rightarrow> size_t \<Rightarrow> sockify_rc \<times> size_t" where
  "parse_size text out =
     (case strtoul text of
        (v, k) \<Rightarrow> if k = 0 \<or> k \<noteq> length text then (SOCKIFY_ERR_INVALID, out) else (SOCKIFY_OK, v))"

definition parse_uint :: "byte list \<Rightarrow> u32 \<Rightarrow> sockify_rc \<times> u32" where
  "parse_uint text out =
     (case strtoul text of
        (v, k) \<Rightarrow>
          if k = 0 \<or> k \<noteq> length text then (SOCKIFY_ERR_INVALID, out) else (SOCKIFY_OK, word_of_nat v))"

section \<open>Validation\<close>

definition validate_tls :: "sockify_proxy_config \<Rightarrow> sockify_rc" where
  "validate_tls config =
     (if target_tls_insecure config \<and> \<not> target_tls_enabled config then SOCKIFY_ERR_INVALID
      else if client_tls_enabled config then
        let has_pem = client_tls_cert_file config \<noteq> [] \<or> client_tls_key_file config \<noteq> [];
            has_pfx = client_tls_pfx_file config \<noteq> [];
            has_store = client_tls_cert_store config \<noteq> [] \<or> client_tls_cert_thumbprint config \<noteq> [];
            sources = (if has_pem then 1 else 0) + (if has_pfx then 1 else 0) + (if has_store then 1 else (0 :: nat))
        in if has_pem \<and> (client_tls_cert_file config = [] \<or> client_tls_key_file config = [])
           then SOCKIFY_ERR_INVALID
           else if sources \<noteq> 1 then SOCKIFY_ERR_INVALID
           else SOCKIFY_OK
      else SOCKIFY_OK)"

section \<open>The arguments\<close>

datatype cli_result = Cli_exit | Cli_rc sockify_rc

definition usage_lines :: "string list" where
  "usage_lines =
     [''Usage: sockify [options] LISTEN TARGET'', [],
      ''  LISTEN   host:port to accept WebSocket clients on'',
      ''  TARGET   host:port of the plain TCP service to forward to'', [],
      ''Options:'', ''  --help'', ''  --version'', ''  --max-connections N'', ''  --buffer-size N'',
      ''  --handshake-timeout MS'', ''  --idle-timeout MS'', ''  --connect-timeout MS'',
      ''  --log-level error|warn|info|debug'', ''  --client-tls'', ''  --client-tls-cert FILE'',
      ''  --client-tls-key FILE'', ''  --client-tls-pfx FILE'', ''  --client-tls-pfx-password PASS'',
      ''  --client-tls-cert-store STORE'', ''  --client-tls-cert-thumbprint HEX'', ''  --target-tls'',
      ''  --target-tls-server-name NAME'', ''  --target-tls-ca-file FILE'', ''  --target-tls-insecure'']"

definition sockify_cli_print_usage :: "bool \<Rightarrow> byte list" where
  "sockify_cli_print_usage out_null =
     (if out_null then [] else concat (map (\<lambda>l. cstr l @ [10]) usage_lines))"

text \<open>The options that take a string: the size of the array, the array before, and the new contents
  stored into it.\<close>

type_synonym string_field =
  "size_t \<times> (sockify_proxy_config \<Rightarrow> byte list) \<times> (byte list \<Rightarrow> sockify_proxy_config \<Rightarrow> sockify_proxy_config)"

definition string_option :: "byte list \<Rightarrow> string_field option" where
  "string_option arg =
     (if arg = cstr ''--client-tls-cert''
      then Some (512, client_tls_cert_file, \<lambda>v c. c\<lparr>client_tls_cert_file := v\<rparr>)
      else if arg = cstr ''--client-tls-key''
      then Some (512, client_tls_key_file, \<lambda>v c. c\<lparr>client_tls_key_file := v\<rparr>)
      else if arg = cstr ''--client-tls-pfx''
      then Some (512, client_tls_pfx_file, \<lambda>v c. c\<lparr>client_tls_pfx_file := v\<rparr>)
      else if arg = cstr ''--client-tls-pfx-password''
      then Some (256, client_tls_pfx_password, \<lambda>v c. c\<lparr>client_tls_pfx_password := v\<rparr>)
      else if arg = cstr ''--client-tls-cert-store''
      then Some (128, client_tls_cert_store, \<lambda>v c. c\<lparr>client_tls_cert_store := v\<rparr>)
      else if arg = cstr ''--client-tls-cert-thumbprint''
      then Some (128, client_tls_cert_thumbprint, \<lambda>v c. c\<lparr>client_tls_cert_thumbprint := v\<rparr>)
      else if arg = cstr ''--target-tls-server-name''
      then Some (256, target_tls_server_name, \<lambda>v c. c\<lparr>target_tls_server_name := v\<rparr>)
      else if arg = cstr ''--target-tls-ca-file''
      then Some (512, target_tls_ca_file, \<lambda>v c. c\<lparr>target_tls_ca_file := v\<rparr>)
      else None)"

text \<open>Every failure of a helper makes the parser return \<^verbatim>\<open>SOCKIFY_ERR_INVALID\<close>. What the helper left in
  its destination is in the configuration in either case.\<close>

definition usage_rc :: "sockify_rc \<Rightarrow> sockify_rc" where
  "usage_rc rc = (if rc \<noteq> SOCKIFY_OK then SOCKIFY_ERR_INVALID else SOCKIFY_OK)"

text \<open>The chain of comparisons on an option with a value.\<close>

definition value_option ::
  "byte list \<Rightarrow> byte list \<Rightarrow> sockify_proxy_config \<Rightarrow> sockify_rc \<times> sockify_proxy_config" where
  "value_option arg val config =
     (if arg = cstr ''--max-connections'' then
        (case parse_size val (max_connections config) of
           (rc, n) \<Rightarrow> (usage_rc rc, config\<lparr>max_connections := n\<rparr>))
      else if arg = cstr ''--buffer-size'' then
        (case parse_size val (buffer_size config) of
           (rc, n) \<Rightarrow> (usage_rc rc, config\<lparr>buffer_size := n\<rparr>))
      else if arg = cstr ''--handshake-timeout'' then
        (case parse_uint val (handshake_timeout_ms config) of
           (rc, n) \<Rightarrow> (usage_rc rc, config\<lparr>handshake_timeout_ms := n\<rparr>))
      else if arg = cstr ''--idle-timeout'' then
        (case parse_uint val (idle_timeout_ms config) of
           (rc, n) \<Rightarrow> (usage_rc rc, config\<lparr>idle_timeout_ms := n\<rparr>))
      else if arg = cstr ''--connect-timeout'' then
        (case parse_uint val (connect_timeout_ms config) of
           (rc, n) \<Rightarrow> (usage_rc rc, config\<lparr>connect_timeout_ms := n\<rparr>))
      else if arg = cstr ''--log-level'' then
        (SOCKIFY_OK, config\<lparr>log_level := sockify_log_level_from_string (Some val)\<rparr>)
      else
        (case string_option arg of
           None \<Rightarrow> (SOCKIFY_ERR_INVALID, config)
         | Some (dest_size, dest, store) \<Rightarrow>
             (case copy_str (dest config) dest_size val of
                (rc, v) \<Rightarrow> (usage_rc rc, store v config))))"

definition set_endpoint ::
  "nat \<Rightarrow> byte list \<Rightarrow> sockify_proxy_config \<Rightarrow> sockify_rc \<times> sockify_proxy_config" where
  "set_endpoint positional arg config =
     (if positional = 0 then
        (case sockify_net_parse_endpoint (Some arg) (Some (listen_endpoint config)) of
           (rc, ep) \<Rightarrow> (usage_rc rc, config\<lparr>listen_endpoint := the ep\<rparr>))
      else if positional = 1 then
        (case sockify_net_parse_endpoint (Some arg) (Some (target_endpoint config)) of
           (rc, ep) \<Rightarrow> (usage_rc rc, config\<lparr>target_endpoint := the ep\<rparr>))
      else (SOCKIFY_ERR_INVALID, config))"

text \<open>The loop over the arguments from \<^verbatim>\<open>argv[1]\<close> on. The last component is what is printed.\<close>

fun args_loop ::
  "bool \<Rightarrow> nat \<Rightarrow> sockify_proxy_config \<Rightarrow> byte list list \<Rightarrow> cli_result \<times> sockify_proxy_config \<times> byte list" where
  "args_loop out_null positional config [] =
     (if positional \<noteq> 2 then (Cli_rc SOCKIFY_ERR_INVALID, config, [])
      else (Cli_rc (validate_tls config), config, []))"
| "args_loop out_null positional config (arg # rest) =
     (if arg = cstr ''--help'' then (Cli_exit, config, sockify_cli_print_usage out_null)
      else if arg = cstr ''--version'' then
        (Cli_exit, config, if out_null then [] else cstr ''sockify 0.1.0'' @ [10])
      else if arg = cstr ''--client-tls'' then
        args_loop out_null positional (config\<lparr>client_tls_enabled := True\<rparr>) rest
      else if arg = cstr ''--target-tls'' then
        args_loop out_null positional (config\<lparr>target_tls_enabled := True\<rparr>) rest
      else if arg = cstr ''--target-tls-insecure'' then
        args_loop out_null positional (config\<lparr>target_tls_insecure := True\<rparr>) rest
      else if take 2 arg = cstr ''--'' then
        (case rest of
           [] \<Rightarrow> (Cli_rc SOCKIFY_ERR_INVALID, config, [])
         | val # rest' \<Rightarrow>
             (case value_option arg val config of
                (rc, config') \<Rightarrow>
                  if rc \<noteq> SOCKIFY_OK then (Cli_rc SOCKIFY_ERR_INVALID, config', [])
                  else args_loop out_null positional config' rest'))
      else
        (case set_endpoint positional arg config of
           (rc, config') \<Rightarrow>
             if rc \<noteq> SOCKIFY_OK then (Cli_rc SOCKIFY_ERR_INVALID, config', [])
             else args_loop out_null (positional + 1) config' rest))"

definition sockify_cli_parse_args ::
  "byte list list ptr \<Rightarrow> sockify_proxy_config ptr \<Rightarrow> bool \<Rightarrow> cli_result \<times> sockify_proxy_config ptr \<times> byte list" where
  "sockify_cli_parse_args argv config out_null =
     (case (argv, config) of
        (Some args, Some c) \<Rightarrow>
          (case args_loop out_null 0 c (tl args) of (r, c', out) \<Rightarrow> (r, Some c', out))
      | _ \<Rightarrow> (Cli_rc SOCKIFY_ERR_INVALID, config, []))"

section \<open>Printing and reading back\<close>

text \<open>Decimal numerals.\<close>

fun decimal :: "nat \<Rightarrow> byte list" where
  "decimal n = (if n < 10 then [word_of_nat (48 + n)] else decimal (n div 10) @ [word_of_nat (48 + n mod 10)])"

declare decimal.simps [simp del]

lemma digit_byte:
  assumes "d < 10"
  shows "is_digit (word_of_nat (48 + d))" and "unat (word_of_nat (48 + d) :: byte) - 48 = d"
    and "\<not> is_space (word_of_nat (48 + d))" and "(word_of_nat (48 + d) :: byte) \<noteq> 45"
    and "(word_of_nat (48 + d) :: byte) \<noteq> 43"
proof -
  have d: "d \<in> {0, 1, 2, 3, 4, 5, 6, 7, 8, 9}" using assms by auto
  show "is_digit (word_of_nat (48 + d))" "\<not> is_space (word_of_nat (48 + d))"
    using d by (auto simp: is_digit_def is_space_def)
  show "unat (word_of_nat (48 + d) :: byte) - 48 = d"
    "(word_of_nat (48 + d) :: byte) \<noteq> 45" "(word_of_nat (48 + d) :: byte) \<noteq> 43"
    using d by auto
qed

lemma decimal_digits:
  "decimal n \<noteq> [] \<and> (\<forall>c \<in> set (decimal n). is_digit c \<and> \<not> is_space c \<and> c \<noteq> 45 \<and> c \<noteq> 43) \<and>
   digits_value (decimal n) = n"
proof (induction n rule: decimal.induct)
  case (1 n)
  show ?case
  proof (cases "n < 10")
    case True
    then show ?thesis using digit_byte [OF True] by (simp add: decimal.simps [of n] digits_value_def)
  next
    case False
    have m: "n mod 10 < 10" by simp
    from False show ?thesis
      using 1 digit_byte [OF m]
      by (simp add: decimal.simps [of n] digits_value_def ball_Un del: of_nat_add)
  qed
qed

lemma strtoul_decimal:
  assumes "n < size_lim"
  shows "strtoul (decimal n) = (n, length (decimal n))"
proof -
  obtain c cs where cs: "decimal n = c # cs" using decimal_digits [of n] by (cases "decimal n") auto
  have "takeWhile is_digit (c # cs) = c # cs" "\<not> is_space c" "c \<noteq> 45" "c \<noteq> 43" "digits_value (c # cs) = n"
    using decimal_digits [of n] unfolding cs by (simp_all add: takeWhile_eq_all_conv)
  then show ?thesis using assms unfolding cs by (simp add: strtoul_def Let_def)
qed

text \<open>A configuration as a command line.\<close>

definition flag_arg :: "string \<Rightarrow> bool \<Rightarrow> byte list list" where
  "flag_arg name b = (if b then [cstr name] else [])"

definition string_arg :: "string \<Rightarrow> byte list \<Rightarrow> byte list list" where
  "string_arg name v = (if v = [] then [] else [cstr name, v])"

text \<open>An endpoint is written in brackets, which allow any host without a closing bracket, and plainly
  if there is one.\<close>

definition endpoint_arg :: "sockify_endpoint \<Rightarrow> byte list" where
  "endpoint_arg ep =
     (if of_char CHR '']'' \<notin> set (e_host ep) then bracket_endpoint_text (e_host ep) (e_port ep)
      else plain_endpoint_text (e_host ep) (e_port ep))"

definition config_args :: "sockify_proxy_config \<Rightarrow> byte list list" where
  "config_args c =
     flag_arg ''--client-tls'' (client_tls_enabled c) @
     flag_arg ''--target-tls'' (target_tls_enabled c) @
     flag_arg ''--target-tls-insecure'' (target_tls_insecure c) @
     [cstr ''--max-connections'', decimal (max_connections c), cstr ''--buffer-size'', decimal (buffer_size c),
      cstr ''--handshake-timeout'', decimal (unat (handshake_timeout_ms c)),
      cstr ''--idle-timeout'', decimal (unat (idle_timeout_ms c)),
      cstr ''--connect-timeout'', decimal (unat (connect_timeout_ms c)),
      cstr ''--log-level'', level_name (log_level c)] @
     string_arg ''--client-tls-cert'' (client_tls_cert_file c) @
     string_arg ''--client-tls-key'' (client_tls_key_file c) @
     string_arg ''--client-tls-pfx'' (client_tls_pfx_file c) @
     string_arg ''--client-tls-pfx-password'' (client_tls_pfx_password c) @
     string_arg ''--client-tls-cert-store'' (client_tls_cert_store c) @
     string_arg ''--client-tls-cert-thumbprint'' (client_tls_cert_thumbprint c) @
     string_arg ''--target-tls-server-name'' (target_tls_server_name c) @
     string_arg ''--target-tls-ca-file'' (target_tls_ca_file c) @
     [endpoint_arg (listen_endpoint c), endpoint_arg (target_endpoint c)]"

text \<open>The bounds of the arrays and integers of the struct. An endpoint has a textual form if its host
  can stand in brackets, or is not taken for a bracketed one or an option and is followed by a
  non-empty port without colon.\<close>

definition endpoint_fits :: "sockify_endpoint \<Rightarrow> bool" where
  "endpoint_fits ep \<longleftrightarrow> length (e_host ep) < 256 \<and> length (e_port ep) < 16"

definition endpoint_writable :: "sockify_endpoint \<Rightarrow> bool" where
  "endpoint_writable ep \<longleftrightarrow>
     of_char CHR '']'' \<notin> set (e_host ep) \<or>
     hd (e_host ep) \<noteq> of_char CHR ''['' \<and> take 2 (e_host ep) \<noteq> cstr ''--'' \<and>
     e_port ep \<noteq> [] \<and> 0 \<notin> set (e_port ep) \<and> of_char CHR '':'' \<notin> set (e_port ep)"

definition config_fits :: "sockify_proxy_config \<Rightarrow> bool" where
  "config_fits c \<longleftrightarrow>
     endpoint_fits (listen_endpoint c) \<and> endpoint_fits (target_endpoint c) \<and>
     max_connections c < size_lim \<and> buffer_size c < size_lim \<and>
     length (client_tls_cert_file c) < 512 \<and> length (client_tls_key_file c) < 512 \<and>
     length (client_tls_pfx_file c) < 512 \<and> length (client_tls_pfx_password c) < 256 \<and>
     length (client_tls_cert_store c) < 128 \<and> length (client_tls_cert_thumbprint c) < 128 \<and>
     length (target_tls_server_name c) < 256 \<and> length (target_tls_ca_file c) < 512"

lemma args_loop_flag:
  "\<not> client_tls_enabled c \<Longrightarrow> args_loop on k c (flag_arg ''--client-tls'' b @ rest) =
     args_loop on k (c\<lparr>client_tls_enabled := b\<rparr>) rest"
  "\<not> target_tls_enabled c \<Longrightarrow> args_loop on k c (flag_arg ''--target-tls'' b @ rest) =
     args_loop on k (c\<lparr>target_tls_enabled := b\<rparr>) rest"
  "\<not> target_tls_insecure c \<Longrightarrow> args_loop on k c (flag_arg ''--target-tls-insecure'' b @ rest) =
     args_loop on k (c\<lparr>target_tls_insecure := b\<rparr>) rest"
  by (cases c; simp add: flag_arg_def)+

lemma args_loop_option:
  assumes "value_option (cstr name) val c = (SOCKIFY_OK, c')" and "take 2 name = ''--''"
    and "name \<notin> {''--help'', ''--version'', ''--client-tls'', ''--target-tls'', ''--target-tls-insecure''}"
  shows "args_loop on k c (cstr name # val # rest) = args_loop on k c' rest"
proof -
  have "take 2 (cstr name) = cstr ''--''" using assms(2) by (simp add: cstr_def take_map)
  then show ?thesis using assms(1,3) by simp
qed

lemma parse_decimal:
  "n < size_lim \<Longrightarrow> parse_size (decimal n) out = (SOCKIFY_OK, n)"
  "parse_uint (decimal (unat w)) out' = (SOCKIFY_OK, w)"
proof -
  have d: "decimal n \<noteq> []" for n using decimal_digits by blast
  then show "n < size_lim \<Longrightarrow> parse_size (decimal n) out = (SOCKIFY_OK, n)"
    by (simp add: parse_size_def strtoul_decimal)
  have "unat w < 2 ^ 32" using unsigned_less [of w] by simp
  then have "unat w < size_lim" by (simp add: size_lim_def)
  with d show "parse_uint (decimal (unat w)) out' = (SOCKIFY_OK, w)"
    by (simp add: parse_uint_def strtoul_decimal)
qed

lemma args_loop_numbers:
  assumes "m < size_lim" and "b < size_lim"
  shows "args_loop on k c ([cstr ''--max-connections'', decimal m, cstr ''--buffer-size'', decimal b,
      cstr ''--handshake-timeout'', decimal (unat h), cstr ''--idle-timeout'', decimal (unat i),
      cstr ''--connect-timeout'', decimal (unat t), cstr ''--log-level'', level_name l] @ rest) =
    args_loop on k (c\<lparr>max_connections := m, buffer_size := b, handshake_timeout_ms := h, idle_timeout_ms := i,
      connect_timeout_ms := t, log_level := l\<rparr>) rest"
  using assms by (simp add: args_loop_option value_option_def usage_rc_def parse_decimal del: args_loop.simps(2))

lemma args_loop_string:
  assumes "string_option (cstr name) = Some (n, field, store)" and "length v < n" and "v = [] \<longrightarrow> store v c = c"
    and "name \<notin> {''--help'', ''--version'', ''--client-tls'', ''--target-tls'', ''--target-tls-insecure'',
      ''--max-connections'', ''--buffer-size'', ''--handshake-timeout'', ''--idle-timeout'',
      ''--connect-timeout'', ''--log-level''}" and "take 2 name = ''--''"
  shows "args_loop on k c (string_arg name v @ rest) = args_loop on k (store v c) rest"
proof (cases "v = []")
  case False
  have "value_option (cstr name) v c = (SOCKIFY_OK, store v c)"
    using assms by (simp add: value_option_def copy_str_def usage_rc_def)
  from args_loop_option [OF this assms(5)] assms(4) False show ?thesis
    by (simp add: string_arg_def del: args_loop.simps(2))
qed (use assms(3) in \<open>simp add: string_arg_def\<close>)

lemma parse_endpoint_arg:
  assumes "endpoint_fits ep" and "endpoint_writable ep"
  shows "sockify_net_parse_endpoint (Some (endpoint_arg ep)) (Some ep') = (SOCKIFY_OK, Some ep)"
proof (cases "of_char CHR '']'' \<in> set (e_host ep)")
  case True
  then have "e_host ep \<noteq> []" by auto
  with True show ?thesis
    using assms parse_plain_endpoint [of "e_host ep" "e_port ep" ep']
    by (simp add: endpoint_arg_def endpoint_fits_def endpoint_writable_def)
next
  case False
  then show ?thesis
    using assms parse_bracket_endpoint [of "e_host ep" "e_port ep" ep']
    by (simp add: endpoint_arg_def endpoint_fits_def)
qed

text \<open>The text of an endpoint is not taken for an option.\<close>

lemma endpoint_arg_no_option:
  assumes "endpoint_writable ep"
  shows "take 2 (endpoint_arg ep) \<noteq> cstr ''--''"
proof (cases "of_char CHR '']'' \<in> set (e_host ep)")
  case True
  then obtain x xs where h: "e_host ep = x # xs" by (cases "e_host ep") auto
  with True assms show ?thesis
    by (cases xs) (auto simp: endpoint_arg_def plain_endpoint_text_def endpoint_writable_def cstr_def)
qed (simp add: endpoint_arg_def bracket_endpoint_text_def cstr_def)

lemma args_loop_endpoints:
  assumes "endpoint_fits l" and "endpoint_fits t" and "endpoint_writable l" and "endpoint_writable t"
  shows "args_loop on 0 c [endpoint_arg l, endpoint_arg t] =
    (let c' = c\<lparr>listen_endpoint := l, target_endpoint := t\<rparr> in (Cli_rc (validate_tls c'), c', []))"
proof -
  have ne: "take 2 (endpoint_arg ep) \<noteq> cstr ''--''" "endpoint_arg ep \<noteq> cstr (CHR ''-'' # CHR ''-'' # s)"
    if "endpoint_writable ep" for ep s
    using endpoint_arg_no_option [OF that] by (auto simp: cstr_def)
  show ?thesis using assms by (simp add: ne parse_endpoint_arg set_endpoint_def usage_rc_def Let_def)
qed

lemma string_options:
  "string_option (cstr ''--client-tls-cert'') =
     Some (512, client_tls_cert_file, \<lambda>v c. c\<lparr>client_tls_cert_file := v\<rparr>)"
  "string_option (cstr ''--client-tls-key'') =
     Some (512, client_tls_key_file, \<lambda>v c. c\<lparr>client_tls_key_file := v\<rparr>)"
  "string_option (cstr ''--client-tls-pfx'') =
     Some (512, client_tls_pfx_file, \<lambda>v c. c\<lparr>client_tls_pfx_file := v\<rparr>)"
  "string_option (cstr ''--client-tls-pfx-password'') =
     Some (256, client_tls_pfx_password, \<lambda>v c. c\<lparr>client_tls_pfx_password := v\<rparr>)"
  "string_option (cstr ''--client-tls-cert-store'') =
     Some (128, client_tls_cert_store, \<lambda>v c. c\<lparr>client_tls_cert_store := v\<rparr>)"
  "string_option (cstr ''--client-tls-cert-thumbprint'') =
     Some (128, client_tls_cert_thumbprint, \<lambda>v c. c\<lparr>client_tls_cert_thumbprint := v\<rparr>)"
  "string_option (cstr ''--target-tls-server-name'') =
     Some (256, target_tls_server_name, \<lambda>v c. c\<lparr>target_tls_server_name := v\<rparr>)"
  "string_option (cstr ''--target-tls-ca-file'') =
     Some (512, target_tls_ca_file, \<lambda>v c. c\<lparr>target_tls_ca_file := v\<rparr>)"
  by (simp_all add: string_option_def)

lemmas args_loop_strings = string_options [THEN args_loop_string]

text \<open>
  Property C18. The command line can express a configuration up to the four fields without an option:
  if the strings and sizes of a configuration respect the bounds of the struct and its two endpoints
  have a textual form, reading back its printed form yields all its fields, the accept, read and write
  budgets and the backlog at their defaults, and the answer is the one of the TLS validation.
\<close>

theorem cli_roundtrip:
  assumes "config_fits c" and "endpoint_writable (listen_endpoint c)" and "endpoint_writable (target_endpoint c)"
  shows "sockify_cli_parse_args (Some (prog # config_args c)) (sockify_proxy_config_init (Some g)) False =
    (Cli_rc (validate_tls c),
     Some (c\<lparr>accept_budget := 64, read_budget := 16, write_budget := 16, backlog := 512\<rparr>), [])"
proof -
  let ?c = "c\<lparr>accept_budget := 64, read_budget := 16, write_budget := 16, backlog := 512\<rparr>"
  obtain c0 where init: "sockify_proxy_config_init (Some g) = Some c0"
    by (simp add: sockify_proxy_config_init_def)
  then have c0: "\<not> client_tls_enabled c0" "\<not> target_tls_enabled c0" "\<not> target_tls_insecure c0"
    "client_tls_cert_file c0 = []" "client_tls_key_file c0 = []" "client_tls_pfx_file c0 = []"
    "client_tls_pfx_password c0 = []" "client_tls_cert_store c0 = []" "client_tls_cert_thumbprint c0 = []"
    "target_tls_server_name c0 = []" "target_tls_ca_file c0 = []"
    "accept_budget c0 = 64" "read_budget c0 = 16" "write_budget c0 = 16" "backlog c0 = 512"
    by (auto simp: sockify_proxy_config_init_def)
  define d where "d = c0\<lparr>client_tls_enabled := client_tls_enabled c, target_tls_enabled := target_tls_enabled c,
    target_tls_insecure := target_tls_insecure c, max_connections := max_connections c,
    buffer_size := buffer_size c, handshake_timeout_ms := handshake_timeout_ms c,
    idle_timeout_ms := idle_timeout_ms c, connect_timeout_ms := connect_timeout_ms c, log_level := log_level c,
    client_tls_cert_file := client_tls_cert_file c, client_tls_key_file := client_tls_key_file c,
    client_tls_pfx_file := client_tls_pfx_file c, client_tls_pfx_password := client_tls_pfx_password c,
    client_tls_cert_store := client_tls_cert_store c, client_tls_cert_thumbprint := client_tls_cert_thumbprint c,
    target_tls_server_name := target_tls_server_name c, target_tls_ca_file := target_tls_ca_file c\<rparr>"
  have "args_loop False 0 c0 (config_args c) =
      args_loop False 0 d [endpoint_arg (listen_endpoint c), endpoint_arg (target_endpoint c)]"
    using assms c0 unfolding config_args_def config_fits_def d_def
    by (simp add: args_loop_flag args_loop_numbers args_loop_strings del: args_loop.simps append.simps)
  moreover have "d\<lparr>listen_endpoint := listen_endpoint c, target_endpoint := target_endpoint c\<rparr> = ?c"
    using c0 by (cases c; cases c0) (simp add: d_def)
  moreover have "validate_tls ?c = validate_tls c" by (simp add: validate_tls_def)
  ultimately have "args_loop False 0 c0 (config_args c) = (Cli_rc (validate_tls c), ?c, [])"
    using assms args_loop_endpoints [of "listen_endpoint c" "target_endpoint c" False d]
    by (simp add: config_fits_def Let_def)
  then show ?thesis by (simp add: init sockify_cli_parse_args_def)
qed

theorem cli_roundtrip_witness:
  "\<exists>c. sockify_cli_parse_args (Some (cstr ''sockify'' # config_args c)) (sockify_proxy_config_init (Some c)) False =
       (Cli_rc SOCKIFY_OK, Some (c\<lparr>read_budget := 16\<rparr>), []) \<and>
     read_budget c = 32 \<and> target_tls_enabled c \<and> e_host (listen_endpoint c) = cstr ''a]b'' \<and>
     e_host (target_endpoint c) = cstr ''::1'' \<and> max_connections c = 250"
proof -
  define c where "c = (the (sockify_proxy_config_init (Some undefined)))
    \<lparr>listen_endpoint := \<lparr>e_host = cstr ''a]b'', e_port = cstr ''8080''\<rparr>,
     target_endpoint := \<lparr>e_host = cstr ''::1'', e_port = cstr ''22''\<rparr>, max_connections := 250,
     read_budget := 32, target_tls_enabled := True\<rparr>"
  have "config_fits c" "endpoint_writable (listen_endpoint c)" "endpoint_writable (target_endpoint c)"
    "validate_tls c = SOCKIFY_OK"
    "c\<lparr>accept_budget := 64, read_budget := 16, write_budget := 16, backlog := 512\<rparr> = c\<lparr>read_budget := 16\<rparr>"
    "read_budget c = 32" "target_tls_enabled c" "e_host (listen_endpoint c) = cstr ''a]b''"
    "e_host (target_endpoint c) = cstr ''::1''" "max_connections c = 250"
    by (simp_all add: c_def config_fits_def endpoint_fits_def endpoint_writable_def sockify_proxy_config_init_def
        size_lim_def validate_tls_def cstr_def)
  then show ?thesis using cli_roundtrip [of c "cstr ''sockify''" c] by metis
qed

section \<open>Bounds\<close>

text \<open>Every string fits its array with the terminator.\<close>

definition endpoint_bounded :: "sockify_endpoint \<Rightarrow> bool" where
  "endpoint_bounded ep \<longleftrightarrow> length (e_host ep) < 256 \<and> length (e_port ep) < 16"

definition config_bounded :: "sockify_proxy_config \<Rightarrow> bool" where
  "config_bounded c \<longleftrightarrow>
     endpoint_bounded (listen_endpoint c) \<and> endpoint_bounded (target_endpoint c) \<and>
     length (client_tls_cert_file c) < SOCKIFY_PATH_MAX \<and> length (client_tls_key_file c) < SOCKIFY_PATH_MAX \<and>
     length (client_tls_pfx_file c) < SOCKIFY_PATH_MAX \<and> length (client_tls_pfx_password c) < 256 \<and>
     length (client_tls_cert_store c) < 128 \<and> length (client_tls_cert_thumbprint c) < 128 \<and>
     length (target_tls_server_name c) < 256 \<and> length (target_tls_ca_file c) < SOCKIFY_PATH_MAX"

lemma parse_endpoint_bounded:
  assumes "sockify_net_parse_endpoint (Some t) (Some ep) = (rc, ep')" and "endpoint_bounded ep"
  shows "endpoint_bounded (the ep')"
  using assms
  by (auto simp: sockify_net_parse_endpoint_def copy_part_def endpoint_bounded_def Let_def
      split: if_splits option.splits)

lemma value_option_bounded:
  assumes "value_option arg v c = (rc, c')" and "config_bounded c"
  shows "config_bounded c'"
proof -
  have str: "config_bounded (store w c)"
    if "string_option arg = Some (n, field, store)" "copy_str (field c) n v = (rc', w)" for n field store w rc'
    using that assms(2)
    by (auto simp: string_option_def copy_str_def config_bounded_def split: if_splits)
  have num: "config_bounded (c\<lparr>max_connections := m\<rparr>)" "config_bounded (c\<lparr>buffer_size := m\<rparr>)"
    "config_bounded (c\<lparr>handshake_timeout_ms := t\<rparr>)" "config_bounded (c\<lparr>idle_timeout_ms := t\<rparr>)"
    "config_bounded (c\<lparr>connect_timeout_ms := t\<rparr>)" "config_bounded (c\<lparr>log_level := l\<rparr>)" for m t l
    using assms(2) by (simp_all add: config_bounded_def)
  from assms show ?thesis
    unfolding value_option_def
    by (auto simp: num split: if_splits prod.splits option.splits intro: str)
qed

lemma set_endpoint_bounded:
  "set_endpoint k arg c = (rc, c') \<Longrightarrow> config_bounded c \<Longrightarrow> config_bounded c'"
  using parse_endpoint_bounded
  by (fastforce simp: set_endpoint_def config_bounded_def split: if_splits prod.splits)

lemma args_loop_bounded:
  "config_bounded c \<Longrightarrow> config_bounded (fst (snd (args_loop on k c args)))"
proof (induction on k c args rule: args_loop.induct)
  case (2 on k c arg rest)
  have flags: "config_bounded (c\<lparr>client_tls_enabled := True\<rparr>)" "config_bounded (c\<lparr>target_tls_enabled := True\<rparr>)"
    "config_bounded (c\<lparr>target_tls_insecure := True\<rparr>)"
    using "2.prems" by (simp_all add: config_bounded_def)
  note v = value_option_bounded [OF _ "2.prems"] and e = set_endpoint_bounded [OF _ "2.prems"]
  consider (info) "arg \<in> {cstr ''--help'', cstr ''--version''}"
    | (flag) "arg \<in> {cstr ''--client-tls'', cstr ''--target-tls'', cstr ''--target-tls-insecure''}"
    | (other) "arg \<notin> {cstr ''--help'', cstr ''--version'', cstr ''--client-tls'', cstr ''--target-tls'',
        cstr ''--target-tls-insecure''}" by blast
  then show ?case
  proof cases
    case info
    then show ?thesis using "2.prems" by auto
  next
    case flag
    then show ?thesis using "2.IH"(1-3) flags by auto
  next
    case other
    then have other': "arg \<noteq> cstr ''--help''" "arg \<noteq> cstr ''--version''" "arg \<noteq> cstr ''--client-tls''"
      "arg \<noteq> cstr ''--target-tls''" "arg \<noteq> cstr ''--target-tls-insecure''" by simp_all
    show ?thesis
    proof (cases "take 2 arg = cstr ''--''")
      case True
      then show ?thesis
        using other' "2.IH"(4) [OF other' True] "2.prems" v by (auto split: list.split prod.split)
    next
      case False
      then show ?thesis
        using other' "2.IH"(5) [OF other' False] "2.prems" e by (auto split: prod.split)
    qed
  qed
qed (simp add: Let_def)

text \<open>
  Property C19. No command line makes a string of the configuration overflow its array, whatever the
  arguments are and whether or not they are accepted.
\<close>

theorem cli_strings_bounded:
  "case sockify_cli_parse_args (Some argv) (sockify_proxy_config_init (Some g)) out_null of
     (r, c, out) \<Rightarrow> c \<noteq> None \<and> config_bounded (the c)"
proof -
  have "config_bounded (the (sockify_proxy_config_init (Some g)))"
    by (simp add: sockify_proxy_config_init_def config_bounded_def endpoint_bounded_def)
  then show ?thesis
    using args_loop_bounded [of "the (sockify_proxy_config_init (Some g))" out_null 0 "tl argv"]
    by (auto simp: sockify_cli_parse_args_def sockify_proxy_config_init_def split: prod.splits)
qed

end
