(* ===== verification/Program.thy ===== *)
theory Program
  imports Server Cli
begin

text \<open>
  The entry point, \<^verbatim>\<open>src/main.c\<close>: the exit status, what is printed to the two standard streams and the
  trace of system calls; \<open>None\<close> while the proxy runs forever.
\<close>

definition int_decimal :: "int \<Rightarrow> byte list" where
  "int_decimal i = (if i < 0 then 45 # decimal (nat (- i)) else decimal (nat i))"

definition main ::
  "env \<Rightarrow> (addr \<Rightarrow> sockify_proxy_session) \<Rightarrow> sockify_proxy_config \<Rightarrow> byte list list \<Rightarrow> trace
     \<Rightarrow> (int \<times> byte list \<times> byte list \<times> trace) option" where
  "main E mem garbage argv tr =
     (let config = the (sockify_proxy_config_init (Some garbage))
      in (case sockify_cli_parse_args (Some argv) (Some config) False of
            (r, c, out) \<Rightarrow>
              (case r of
                 Cli_exit \<Rightarrow> Some (0, out, [], tr)
               | Cli_rc rc \<Rightarrow>
                   if rc \<noteq> SOCKIFY_OK then Some (2, out, sockify_cli_print_usage False, tr)
                   else
                     map_option
                       (\<lambda>(rc1, tr1).
                          if rc1 \<noteq> SOCKIFY_OK
                          then (1, out, cstr ''sockify: failed with error '' @ int_decimal (rc_code rc1) @ [10], tr1)
                          else (0, out, [], tr1))
                       (sockify_proxy_run E mem c tr))))"

end
