(* ===== verification/Flow.thy ===== *)
theory Flow
  imports Transport Event_Loop
begin

text \<open>
  What a session reads and writes. Of the two streams of a session one, the client's, is fixed; every
  byte exchanged on another stream is exchanged with the target. \<open>flow\<close> relates the trace since
  some moment to the four byte sequences: from and to the client, from and to the target. Code
  that makes no input or output call leaves them alone (\<open>quiet\<close>).
\<close>

section \<open>Everything but one stream\<close>

fun other_in :: "chan \<Rightarrow> call \<times> reply \<Rightarrow> byte list" where
  "other_in ch (Call_recv fd n, r) = (if ch \<noteq> Chan_fd fd \<and> 0 < r_ret r then r_bytes r else [])"
| "other_in ch (Call_ssl (Ssl_read h n), r) = (if ch \<noteq> Chan_ssl h \<and> 0 < r_ret r then r_bytes r else [])"
| "other_in ch _ = []"

fun other_out :: "chan \<Rightarrow> call \<times> reply \<Rightarrow> byte list" where
  "other_out ch (Call_send fd bs, r) = (if ch \<noteq> Chan_fd fd then take (nat (r_ret r)) bs else [])"
| "other_out ch (Call_ssl (Ssl_write h bs), r) = (if ch \<noteq> Chan_ssl h then take (nat (r_ret r)) bs else [])"
| "other_out ch _ = []"

definition others_in :: "chan \<Rightarrow> trace \<Rightarrow> byte list" where
  "others_in ch tr = concat (map (other_in ch) (rev tr))"

definition others_out :: "chan \<Rightarrow> trace \<Rightarrow> byte list" where
  "others_out ch tr = concat (map (other_out ch) (rev tr))"

lemma others_append:
  "others_in ch (a @ b) = others_in ch b @ others_in ch a"
  "others_out ch (a @ b) = others_out ch b @ others_out ch a"
  by (simp_all add: others_in_def others_out_def)

lemma other_in_cases: "other_in ch e = [] \<or> (\<exists>c. c \<noteq> ch \<and> other_in ch e = call_in c e)"
  by (cases "(ch, e)" rule: other_in.cases) auto

lemma other_out_cases: "other_out ch e = [] \<or> (\<exists>c. c \<noteq> ch \<and> other_out ch e = call_out c e)"
  by (cases "(ch, e)" rule: other_out.cases) auto

lemma call_in_other: "c \<noteq> ch \<Longrightarrow> call_in c e = [] \<or> call_in c e = other_in ch e"
  by (cases "(ch, e)" rule: other_in.cases) auto

lemma call_out_other: "c \<noteq> ch \<Longrightarrow> call_out c e = [] \<or> call_out c e = other_out ch e"
  by (cases "(ch, e)" rule: other_out.cases) auto

lemma others_in_one:
  assumes "\<And>c. c \<noteq> ch \<Longrightarrow> c \<noteq> d \<Longrightarrow> trace_in c tr = []" and "d \<noteq> ch"
  shows "others_in ch tr = trace_in d tr"
  using assms(1)
proof (induction tr)
  case (Cons e tr)
  have "call_in c e = []" if "c \<noteq> ch" "c \<noteq> d" for c using Cons.prems [OF that] by simp
  then have "other_in ch e = call_in d e"
    using other_in_cases [of ch e] call_in_other [OF assms(2), of e] by metis
  moreover have "others_in ch tr = trace_in d tr" using Cons by simp
  ultimately show ?case by (simp add: others_in_def)
qed (simp add: others_in_def)

lemma others_out_one:
  assumes "\<And>c. c \<noteq> ch \<Longrightarrow> c \<noteq> d \<Longrightarrow> trace_out c tr = []" and "d \<noteq> ch"
  shows "others_out ch tr = trace_out d tr"
  using assms(1)
proof (induction tr)
  case (Cons e tr)
  have "call_out c e = []" if "c \<noteq> ch" "c \<noteq> d" for c using Cons.prems [OF that] by simp
  then have "other_out ch e = call_out d e"
    using other_out_cases [of ch e] call_out_other [OF assms(2), of e] by metis
  moreover have "others_out ch tr = trace_out d tr" using Cons by simp
  ultimately show ?case by (simp add: others_out_def)
qed (simp add: others_out_def)

section \<open>Flows\<close>

record flows =
  f_cin :: "byte list"
  f_cout :: "byte list"
  f_tin :: "byte list"
  f_tout :: "byte list"

definition flow_of :: "chan \<Rightarrow> trace \<Rightarrow> flows" where
  "flow_of ch tr = \<lparr>f_cin = trace_in ch tr, f_cout = trace_out ch tr, f_tin = others_in ch tr,
     f_tout = others_out ch tr\<rparr>"

definition flow :: "chan \<Rightarrow> trace \<Rightarrow> trace \<Rightarrow> flows \<Rightarrow> bool" where
  "flow ch tr0 tr F \<longleftrightarrow> (\<exists>new. tr = new @ tr0 \<and> flow_of ch new = F)"

lemma flow_start: "flow ch tr tr \<lparr>f_cin = [], f_cout = [], f_tin = [], f_tout = []\<rparr>"
  by (simp add: flow_def flow_of_def others_in_def others_out_def)

lemma flow_unique: "flow ch tr0 tr F \<Longrightarrow> flow ch tr0 tr G \<Longrightarrow> F = G"
  by (auto simp: flow_def)

lemma flow_client:
  assumes "flow ch tr0 tr F" and "io_effect (Some ch) tr tr' a b"
  shows "flow ch tr0 tr' (F\<lparr>f_cin := f_cin F @ a, f_cout := f_cout F @ b\<rparr>)"
proof -
  obtain n0 where n0: "tr = n0 @ tr0" "flow_of ch n0 = F" using assms(1) by (auto simp: flow_def)
  obtain n1 where n1: "tr' = n1 @ tr" "\<And>c. trace_in c n1 = (if ch = c then a else [])"
    "\<And>c. trace_out c n1 = (if ch = c then b else [])"
    using assms(2) by (auto simp: io_effect_def)
  obtain d where "d \<noteq> ch" by (metis chan.distinct(1))
  then have "others_in ch n1 = []" "others_out ch n1 = []"
    using others_in_one [of ch d n1] others_out_one [of ch d n1] n1(2,3) by simp_all
  then show ?thesis
    using n0 n1 by (auto simp: flow_def flow_of_def trace_in_append trace_out_append others_append)
qed

lemma flow_target:
  assumes "flow ch tr0 tr F" and "io_effect (Some d) tr tr' a b" and "d \<noteq> ch"
  shows "flow ch tr0 tr' (F\<lparr>f_tin := f_tin F @ a, f_tout := f_tout F @ b\<rparr>)"
proof -
  obtain n0 where n0: "tr = n0 @ tr0" "flow_of ch n0 = F" using assms(1) by (auto simp: flow_def)
  obtain n1 where n1: "tr' = n1 @ tr" "\<And>c. trace_in c n1 = (if d = c then a else [])"
    "\<And>c. trace_out c n1 = (if d = c then b else [])"
    using assms(2) by (auto simp: io_effect_def)
  have "others_in ch n1 = a" "others_out ch n1 = b"
    using others_in_one [of ch d n1] others_out_one [of ch d n1] n1(2,3) assms(3) by simp_all
  then show ?thesis
    using n0 n1 assms(3) by (auto simp: flow_def flow_of_def trace_in_append trace_out_append others_append)
qed

section \<open>Code without input and output\<close>

fun no_io :: "call \<Rightarrow> bool" where
  "no_io (Call_recv fd n) = False"
| "no_io (Call_send fd bs) = False"
| "no_io (Call_ssl (Ssl_read h n)) = False"
| "no_io (Call_ssl (Ssl_write h bs)) = False"
| "no_io c = True"

definition quiet :: "trace \<Rightarrow> trace \<Rightarrow> bool" where
  "quiet tr tr' \<longleftrightarrow> (\<exists>new. tr' = new @ tr \<and> (\<forall>e \<in> set new. no_io (fst e)))"

lemma quiet_refl [simp]: "quiet tr tr"
  by (simp add: quiet_def)

lemma quiet_trans [trans]: "quiet a b \<Longrightarrow> quiet b c \<Longrightarrow> quiet a c"
  unfolding quiet_def by (metis Un_iff append.assoc set_append)

lemma quiet_Cons: "no_io c \<Longrightarrow> quiet tr tr' \<Longrightarrow> quiet tr ((c, r) # tr')"
  unfolding quiet_def by (metis append_Cons fst_conv set_ConsD)

lemma no_io_call:
  "no_io (fst e) \<Longrightarrow> call_in c e = [] \<and> call_out c e = [] \<and> other_in c e = [] \<and> other_out c e = []"
  by (cases e; cases "fst e" rule: no_io.cases) auto

lemma no_io_trace:
  "\<forall>e \<in> set new. no_io (fst e) \<Longrightarrow>
     trace_in c new = [] \<and> trace_out c new = [] \<and> others_in c new = [] \<and> others_out c new = []"
  by (induction new) (auto simp: no_io_call others_in_def others_out_def)

lemma flow_quiet: "flow ch tr0 tr F \<Longrightarrow> quiet tr tr' \<Longrightarrow> flow ch tr0 tr' F"
  by (auto simp: flow_def quiet_def flow_of_def trace_in_append trace_out_append others_append no_io_trace)

lemmas quiet_calls = quiet_Cons quiet_refl

lemma flow_silent:
  assumes "flow ch tr0 tr F" and "silent tr tr'"
  shows "flow ch tr0 tr' F"
  using flow_client [OF assms(1) silent_io [OF assms(2)]] by simp

lemma set_nonblocking_quiet: "sockify_net_set_nonblocking os fd tr = (rc, tr') \<Longrightarrow> quiet tr tr'"
  by (auto simp: sockify_net_set_nonblocking_def sys_eq intro!: quiet_calls split: if_splits)

lemma set_nodelay_quiet: "sockify_net_set_tcp_nodelay os fd tr = (rc, tr') \<Longrightarrow> quiet tr tr'"
  by (auto simp: sockify_net_set_tcp_nodelay_def sys_eq intro!: quiet_calls split: if_splits)

lemma net_close_quiet: "quiet tr (sockify_net_close os fd tr)"
  by (auto simp: sockify_net_close_def sys_eq intro!: quiet_calls)

lemma free_ptr_quiet: "quiet tr (free_ptr os a tr)"
  by (auto simp: free_ptr_def sys_eq intro!: quiet_calls)

lemma socket_error_quiet: "sockify_net_socket_error os fd tr = (rc, err, tr') \<Longrightarrow> quiet tr tr'"
  by (auto simp: sockify_net_socket_error_def sys_eq intro!: quiet_calls split: if_splits)

text \<open>Connecting makes no input or output, and the socket it hands out is one \<^verbatim>\<open>socket\<close> returned.\<close>

definition from_socket :: "os \<Rightarrow> trace \<Rightarrow> socket \<Rightarrow> bool" where
  "from_socket os tr fd \<longleftrightarrow> 0 \<le> fd \<and> (\<exists>new ai. fd = r_ret (os (new @ tr) (Call_socket ai)))"

lemma from_socket_later: "quiet tr tr' \<Longrightarrow> from_socket os tr' fd \<Longrightarrow> from_socket os tr fd"
  unfolding from_socket_def quiet_def by (metis append.assoc)

lemma connect_one_quiet:
  assumes "connect_one os ai tr = (found, tr')"
  shows "quiet tr tr'" and "found = Some (fd, ip) \<Longrightarrow> from_socket os tr fd"
proof -
  let ?r = "os tr (Call_socket ai)"
  obtain rc2 tr2 where n: "sockify_net_set_nonblocking os (r_ret ?r) ((Call_socket ai, ?r) # tr) = (rc2, tr2)"
    by (metis surj_pair)
  obtain rc3 tr3 where d: "sockify_net_set_tcp_nodelay os (r_ret ?r) tr2 = (rc3, tr3)" by (metis surj_pair)
  have q: "quiet ((Call_socket ai, ?r) # tr) tr2" "quiet tr2 tr3"
    using set_nonblocking_quiet [OF n] set_nodelay_quiet [OF d] .
  then have q2: "quiet tr tr2" "quiet tr tr3"
    by (meson quiet_Cons quiet_refl quiet_trans no_io.simps)+
  show "quiet tr tr'"
    using assms n d q2 by (auto simp: connect_one_def sys_eq Let_def intro!: quiet_calls split: if_splits)
  have "found = Some (fd, ip) \<Longrightarrow> fd = r_ret ?r \<and> 0 \<le> fd"
    using assms n d by (auto simp: connect_one_def sys_eq Let_def split: if_splits)
  then show "found = Some (fd, ip) \<Longrightarrow> from_socket os tr fd"
    unfolding from_socket_def by (metis append_Nil)
qed

lemma connect_loop_quiet:
  "connect_loop os ais tr = (found, tr') \<Longrightarrow>
     quiet tr tr' \<and> (\<forall>fd ip. found = Some (fd, ip) \<longrightarrow> from_socket os tr fd)"
proof (induction os ais tr rule: connect_loop.induct)
  case (2 os ai ais tr)
  obtain f1 tr1 where one: "connect_one os ai tr = (f1, tr1)" by (metis surj_pair)
  show ?case
    using 2 one connect_one_quiet [OF one] quiet_trans from_socket_later by (cases f1) fastforce+
qed simp

lemma net_connect_quiet:
  assumes "sockify_net_connect os ep tr = (rc, fd, ip, tr')"
  shows "quiet tr tr'" and "rc = SOCKIFY_OK \<Longrightarrow> from_socket os tr fd"
    and "rc \<noteq> SOCKIFY_OK \<Longrightarrow> fd = sockify_net_invalid_socket"
proof -
  let ?c = "Call_getaddrinfo (e_host ep) (e_port ep) False"
  obtain found tr2 where c: "connect_loop os (r_addrs (os tr ?c)) ((?c, os tr ?c) # tr) = (found, tr2)"
    by (metis surj_pair)
  have q1: "quiet tr ((?c, os tr ?c) # tr)" by (simp add: quiet_Cons)
  then have q: "quiet tr tr2" using connect_loop_quiet [OF c] quiet_trans by blast
  have f: "found = Some (fd, ip) \<Longrightarrow> from_socket os tr fd"
    using connect_loop_quiet [OF c] from_socket_later [OF q1] by blast
  from q c assms show "quiet tr tr'" "rc \<noteq> SOCKIFY_OK \<Longrightarrow> fd = sockify_net_invalid_socket"
    by (auto simp: sockify_net_connect_def sys_eq Let_def intro!: quiet_calls split: if_splits option.splits)
  from c assms have "rc = SOCKIFY_OK \<Longrightarrow> found = Some (fd, ip)"
    by (auto simp: sockify_net_connect_def sys_eq Let_def split: if_splits option.splits)
  with f show "rc = SOCKIFY_OK \<Longrightarrow> from_socket os tr fd" by blast
qed

section \<open>TLS connections\<close>

definition from_ssl_new :: "os \<Rightarrow> trace \<Rightarrow> int \<Rightarrow> bool" where
  "from_ssl_new os tr h \<longleftrightarrow> (\<exists>new ctx. h = r_ret (os (new @ tr) (Call_ssl (Ssl_new ctx))))"

lemma ssl_eq: "ssl os c tr = (os tr (Call_ssl c), (Call_ssl c, os tr (Call_ssl c)) # tr)"
  by (simp add: ssl_def sys_eq)

lemma openssl_destroy_quiet: "quiet tr (openssl_connection_destroy os c tr)"
  by (auto simp: openssl_connection_destroy_def ssl_eq free_ptr_def sys_eq Let_def intro!: quiet_calls
      split: option.split)

lemma hostname_quiet: "set_connection_hostname os conn name tr = (rc, tr') \<Longrightarrow> quiet tr tr'"
  by (auto simp: set_connection_hostname_def ssl_eq intro!: quiet_calls split: option.splits if_splits)

lemma connection_setup_quiet:
  assumes "openssl_connection_setup os c fd name tr = (rc, conn, tr')"
  shows "quiet tr tr'" and "conn = None \<or> conn = Some c" and "(rc = SOCKIFY_OK) = (conn \<noteq> None)"
proof -
  let ?s = "Ssl_set_fd (tn_ssl c) fd" and ?a = "Ssl_set_connect_state (tn_ssl c)"
  let ?tr1 = "(Call_ssl ?s, os tr (Call_ssl ?s)) # tr"
  let ?tr2 = "(Call_ssl ?a, os ?tr1 (Call_ssl ?a)) # ?tr1"
  obtain rc2 tr3 where h: "set_connection_hostname os c name ?tr2 = (rc2, tr3)" by (metis surj_pair)
  have "quiet tr ?tr2" by (simp add: quiet_Cons)
  with hostname_quiet [OF h] have q: "quiet tr tr3" using quiet_trans by blast
  then have "quiet tr (openssl_connection_destroy os (Some c) tr3)"
    "quiet tr (openssl_connection_destroy os (Some c) ?tr1)"
    using openssl_destroy_quiet quiet_trans quiet_calls by (metis no_io.simps)+
  with q h assms show "quiet tr tr'" "conn = None \<or> conn = Some c" "(rc = SOCKIFY_OK) = (conn \<noteq> None)"
    by (auto simp: openssl_connection_setup_def ssl_eq intro!: quiet_calls split: if_splits)
qed

lemma openssl_create_quiet:
  assumes "openssl_connection_create os ctx fd side name tr = (rc, conn, tr')"
  shows "quiet tr tr'" and "rc = SOCKIFY_OK \<Longrightarrow> \<exists>c. conn = Some c \<and> from_ssl_new os tr (tn_ssl c)"
    and "rc \<noteq> SOCKIFY_OK \<Longrightarrow> conn = None"
proof -
  have "quiet tr tr' \<and> (rc = SOCKIFY_OK \<longrightarrow> (\<exists>c. conn = Some c \<and> from_ssl_new os tr (tn_ssl c))) \<and>
    (rc \<noteq> SOCKIFY_OK \<longrightarrow> conn = None)"
  proof (cases "ctx = None \<or> side \<noteq> tc_server_side (the ctx)")
    case True
    with assms show ?thesis by (cases ctx) (auto simp: openssl_connection_create_def)
  next
    case False
    then obtain k where k: "ctx = Some k" "side = tc_server_side k" by auto
    define r tr1 where r: "r = os tr (Call_mem (Mem_calloc 24))" and tr1: "tr1 = (Call_mem (Mem_calloc 24), r) # tr"
    define r2 tr2 where r2: "r2 = os tr1 (Call_ssl (Ssl_new (tc_ctx k)))"
      and tr2: "tr2 = (Call_ssl (Ssl_new (tc_ctx k)), r2) # tr1"
    define c where "c = \<lparr>tn_self = nat (r_ret r), tn_ssl = r_ret r2, tn_want_read = False, tn_want_write = False,
      tn_server_side = side, tn_verify_peer = tc_verify_peer k\<rparr>"
    have run: "openssl_connection_create os ctx fd side name tr =
      (if r_ret r = 0 then (SOCKIFY_ERR_NOMEM, None, tr1)
       else if r_ret r2 = 0 then (SOCKIFY_ERR_SYS, None, free_ptr os (nat (r_ret r)) tr2)
       else openssl_connection_setup os c fd name tr2)"
      using k by (simp add: openssl_connection_create_def sys_eq ssl_eq r tr1 r2 tr2 c_def)
    have q: "quiet tr tr1" "quiet tr tr2" by (simp_all add: tr1 tr2 quiet_Cons)
    show ?thesis
    proof (cases "r_ret r = 0 \<or> r_ret r2 = 0")
      case True
      with run assms q quiet_trans [OF q(2) free_ptr_quiet] show ?thesis by (auto split: if_splits)
    next
      case False
      then have "openssl_connection_setup os c fd name tr2 = (rc, conn, tr')" using run assms by simp
      note s = connection_setup_quiet [OF this]
      have "from_ssl_new os tr (tn_ssl c)" 
        unfolding from_ssl_new_def c_def r2 by (intro exI [of _ "[(Call_mem (Mem_calloc 24), r)]"] exI [of _ "tc_ctx k"]) (simp add: tr1)
      then show ?thesis using s quiet_trans [OF q(2) s(1)] by auto
    qed
  qed
  then show "quiet tr tr'" "rc = SOCKIFY_OK \<Longrightarrow> \<exists>c. conn = Some c \<and> from_ssl_new os tr (tn_ssl c)"
    "rc \<noteq> SOCKIFY_OK \<Longrightarrow> conn = None" by blast+
qed

lemma tls_create_quiet:
  assumes "sockify_tls_connection_create be os ctx fd side name tr = (rc, conn, tr')"
  shows "quiet tr tr'" and "rc = SOCKIFY_OK \<Longrightarrow> \<exists>c. conn = Some c \<and> from_ssl_new os tr (tn_ssl c)"
proof -
  have "quiet tr tr' \<and> (rc = SOCKIFY_OK \<longrightarrow> (\<exists>c. conn = Some c \<and> from_ssl_new os tr (tn_ssl c)))"
    using assms openssl_create_quiet [of os ctx fd side name tr rc conn tr']
    by (cases be) (auto simp: sockify_tls_connection_create_def none_connection_create_def)
  then show "quiet tr tr'" "rc = SOCKIFY_OK \<Longrightarrow> \<exists>c. conn = Some c \<and> from_ssl_new os tr (tn_ssl c)" by auto
qed

lemma map_ssl_error_quiet:
  "map_ssl_error os c ret h tr = (rc, c', tr') \<Longrightarrow> quiet tr tr' \<and> tn_ssl c' = tn_ssl c"
  by (auto simp: map_ssl_error_def ssl_eq connection_clear_wants_def Let_def intro!: quiet_calls split: if_splits)

lemma openssl_handshake_quiet:
  assumes "openssl_connection_handshake os conn tr = (rc, conn', tr')"
  shows "quiet tr tr' \<and> conn_chan conn' = conn_chan conn"
proof (cases conn)
  case None
  with assms show ?thesis by (auto simp: openssl_connection_handshake_def conn_chan_def)
next
  case (Some c)
  let ?h = "Call_ssl (Ssl_do_handshake (tn_ssl c))"
  let ?tr1 = "(?h, os tr ?h) # tr"
  obtain rc2 c2 tr2 where e: "map_ssl_error os c (r_ret (os tr ?h)) True ?tr1 = (rc2, c2, tr2)"
    by (metis prod_cases3)
  have "quiet tr ?tr1" by (simp add: quiet_Cons)
  with map_ssl_error_quiet [OF e] have "quiet tr tr2" "tn_ssl c2 = tn_ssl c" using quiet_trans by blast+
  with assms Some e show ?thesis
    by (auto simp: openssl_connection_handshake_def ssl_eq conn_chan_def connection_clear_wants_def Let_def
        intro!: quiet_calls split: if_splits)
qed

section \<open>Transports\<close>

lemma transport_handshake_quiet:
  assumes "sockify_transport_handshake be os t tr = (rc, t', tr')"
  shows "quiet tr tr'" and "transport_chan t' = transport_chan t"
proof -
  obtain rc2 c2 tr2 where h: "sockify_tls_connection_handshake be os (t_tls t) tr = (rc2, c2, tr2)"
    by (metis prod_cases3)
  have "quiet tr tr2 \<and> conn_chan c2 = conn_chan (t_tls t)"
    using h openssl_handshake_quiet [of os "t_tls t" tr]
    by (cases be) (auto simp: sockify_tls_connection_handshake_def none_connection_handshake_def)
  with assms h show "quiet tr tr'" "transport_chan t' = transport_chan t"
    by (auto simp: sockify_transport_handshake_def transport_chan_def split: if_splits)
qed

lemma transport_destroy_quiet:
  "sockify_transport_destroy be os t tr = (t', tr') \<Longrightarrow> quiet tr tr'"
  using openssl_destroy_quiet
  by (cases be) (auto simp: sockify_transport_destroy_def sockify_tls_connection_destroy_def Let_def)

lemma transport_init_tls_quiet:
  assumes "sockify_transport_init_tls be os (Some t) fd ctx side name tr = (rc, t', tr')"
  shows "quiet tr tr'" and "t' \<noteq> None"
    and "rc = SOCKIFY_OK \<Longrightarrow> \<exists>h. transport_chan (the t') = Some (Chan_ssl h) \<and> from_ssl_new os tr h"
proof -
  obtain rc2 conn tr2 where c: "sockify_tls_connection_create be os ctx fd side name tr = (rc2, conn, tr2)"
    by (metis prod_cases3)
  note q = tls_create_quiet [OF c]
  have "quiet tr tr' \<and> t' \<noteq> None \<and>
    (rc = SOCKIFY_OK \<longrightarrow> (\<exists>h. transport_chan (the t') = Some (Chan_ssl h) \<and> from_ssl_new os tr h))"
    using assms c q
    by (auto simp: sockify_transport_init_tls_def transport_chan_def conn_chan_def split: if_splits)
  then show "quiet tr tr'" "t' \<noteq> None"
    "rc = SOCKIFY_OK \<Longrightarrow> \<exists>h. transport_chan (the t') = Some (Chan_ssl h) \<and> from_ssl_new os tr h" by blast+
qed

end
