(* ===== verification/Session_Spec.thy ===== *)
theory Session_Spec
  imports Session Flow
begin

text \<open>
  What a session promises, as a relation between the four byte sequences it exchanges. Towards the
  target: the data payload of the client's frames, in order. Towards the client: the handshake
  response, then frames whose binary payload is what the target sent, in order. The session
  invariant connects these sequences with the buffers, the parser and the pending output.
\<close>

section \<open>Data in a client stream\<close>

definition is_data_opcode :: "u32 \<Rightarrow> bool" where
  "is_data_opcode op \<longleftrightarrow> op = SOCKIFY_WS_OPCODE_BINARY \<or> op = SOCKIFY_WS_OPCODE_TEXT \<or>
     op = SOCKIFY_WS_OPCODE_CONTINUATION"

fun data_bytes :: "ws_event list \<Rightarrow> byte list" where
  "data_bytes [] = []"
| "data_bytes (Ev_byte op b # es) = (if is_data_opcode op then b # data_bytes es else data_bytes es)"
| "data_bytes (Ev_end fin op # es) = data_bytes es"

fun ws_data :: "ws_abs \<Rightarrow> byte list \<Rightarrow> byte list" where
  "ws_data a [] = []"
| "ws_data a (x # xs) =
     (case ws_byte a x of None \<Rightarrow> [] | Some (a1, es) \<Rightarrow> data_bytes es @ ws_data a1 xs)"

lemma data_bytes_append: "data_bytes (xs @ ys) = data_bytes xs @ data_bytes ys"
  by (induction xs rule: data_bytes.induct) auto

lemma data_bytes_map: "data_bytes (map (Ev_byte op) bs) = (if is_data_opcode op then bs else [])"
  by (induction bs) auto

lemma data_bytes_msg:
  "data_bytes (msg_events msg) =
     (if is_data_opcode (m_opcode msg) then case m_payload msg of None \<Rightarrow> [] | Some d \<Rightarrow> d else [])"
  by (simp add: msg_events_def data_bytes_append data_bytes_map)

lemma ws_run_data:
  "ws_run a xs = Some (a', es) \<Longrightarrow> ws_data a (xs @ ys) = data_bytes es @ ws_data a' ys"
  by (induction a xs arbitrary: a' es rule: ws_run.induct)
    (auto simp: data_bytes_append split: option.splits)

section \<open>Frames to the client\<close>

text \<open>A complete frame of the server: opcode, payload and the bytes it is sent as.\<close>

type_synonym sent_frame = "byte list \<times> u32 \<times> byte list"

definition frame_of :: "byte list \<Rightarrow> u32 \<Rightarrow> byte list \<Rightarrow> bool" where
  "frame_of b op pl \<longleftrightarrow>
     (\<exists>b1 ext. b = ucast (0x80 OR (op AND 0x0f)) # b1 # ext @ pl \<and> valid_opcode op \<and> \<not> bit (b1 :: byte) 7 \<and>
        length ext = (if unat b1 = 126 then 2 else if unat b1 = 127 then 8 else 0) \<and>
        length pl = (if ext = [] then unat b1 else be_value ext))"

lemma frame_of_decode:
  assumes "frame_of b op pl"
  shows "server_frame_decode (b @ rest) = Some (op, pl, rest)"
proof -
  obtain b1 ext where b: "b = ucast (0x80 OR (op AND 0x0f)) # b1 # ext @ pl" "valid_opcode op" "\<not> bit (b1 :: byte) 7"
    "length ext = (if unat b1 = 126 then 2 else if unat b1 = 127 then 8 else 0)"
    "length pl = (if ext = [] then unat b1 else be_value ext)"
    using assms by (auto simp: frame_of_def)
  then show ?thesis
    using write_frame_head [of op]
    by (auto simp: server_frame_decode_def Let_def split: if_splits)
qed

lemma frame_of_partial:
  assumes "frame_of b op pl" and "n < length b"
  shows "server_frame_decode (take n b) = None"
proof -
  obtain b1 ext where b: "b = ucast (0x80 OR (op AND 0x0f)) # b1 # ext @ pl"
    "length ext = (if unat b1 = 126 then 2 else if unat b1 = 127 then 8 else 0)"
    "length pl = (if ext = [] then unat b1 else be_value ext)"
    using assms(1) by (auto simp: frame_of_def)
  show ?thesis
  proof (cases "n < 2")
    case True
    then have "n = 0 \<or> n = 1" by auto
    then show ?thesis using b(1) by (auto simp: server_frame_decode_def)
  next
    case False
    then obtain m where m: "n = Suc (Suc m)" by (metis add_2_eq_Suc le_Suc_ex linorder_not_less)
    have "take (length ext) (take m (ext @ pl)) = (if m < length ext then take m ext else ext)" by simp
    moreover have "m < length ext + length pl" using assms(2) b(1) m by simp
    ultimately show ?thesis
      using b(2,3) m unfolding b(1)
      by (auto simp: server_frame_decode_def Let_def split: if_splits)
  qed
qed

text \<open>What a client decodes from a stream of frames.\<close>

function decode_frames :: "byte list \<Rightarrow> (u32 \<times> byte list) list" where
  "decode_frames bs =
     (case server_frame_decode bs of None \<Rightarrow> [] | Some (op, pl, rest) \<Rightarrow> (op, pl) # decode_frames rest)"
  by pat_completeness auto
termination
  by (relation "measure length") (auto simp: server_frame_decode_def Let_def split: list.splits if_splits)

declare decode_frames.simps [simp del]

definition binary_payload :: "(u32 \<times> byte list) list \<Rightarrow> byte list" where
  "binary_payload fs = concat (map snd (filter (\<lambda>(op, pl). op = SOCKIFY_WS_OPCODE_BINARY) fs))"

definition frames_sent :: "sent_frame list \<Rightarrow> bool" where
  "frames_sent fs \<longleftrightarrow> (\<forall>(b, op, pl) \<in> set fs. frame_of b op pl)"

lemma decode_frames_sent:
  "frames_sent fs \<Longrightarrow> decode_frames (concat (map fst fs)) = map snd fs"
proof (induction fs)
  case Nil
  then show ?case by (simp add: decode_frames.simps server_frame_decode_def)
next
  case (Cons f fs)
  obtain b op pl where f: "f = (b, op, pl)" by (cases f)
  have "server_frame_decode (b @ concat (map fst fs)) = Some (op, pl, concat (map fst fs))"
    using Cons.prems f frame_of_decode by (auto simp: frames_sent_def)
  then show ?case
    using Cons f by (simp add: frames_sent_def decode_frames.simps [of "b @ _"])
qed

text \<open>A client that has received only part of the stream has decoded only the first frames.\<close>

lemma decode_frames_prefix:
  "frames_sent fs \<Longrightarrow> prefix bs (concat (map fst fs)) \<Longrightarrow> prefix (decode_frames bs) (map snd fs)"
proof (induction fs arbitrary: bs)
  case Nil
  then show ?case by (simp add: decode_frames.simps server_frame_decode_def)
next
  case (Cons f fs)
  obtain b op pl where f: "f = (b, op, pl)" by (cases f)
  have fo: "frame_of b op pl" and fs: "frames_sent fs" using Cons.prems(1) f by (auto simp: frames_sent_def)
  show ?case
  proof (cases "length bs < length b")
    case True
    then have "bs = take (length bs) b" using Cons.prems(2) f
      by (auto simp: prefix_def append_eq_append_conv_if split: if_splits)
    then have "server_frame_decode bs = None" using frame_of_partial [OF fo True] by simp
    then show ?thesis by (simp add: decode_frames.simps)
  next
    case False
    then obtain rest where r: "bs = b @ rest" "prefix rest (concat (map fst fs))"
      using Cons.prems(2) f by (auto simp: prefix_def append_eq_append_conv_if split: if_splits)
        (metis append_take_drop_id)
    then show ?thesis
      using Cons.IH [OF fs r(2)] f frame_of_decode [OF fo, of rest] by (simp add: decode_frames.simps [of "b @ rest"])
  qed
qed

lemma binary_payload_prefix: "prefix fs gs \<Longrightarrow> prefix (binary_payload fs) (binary_payload gs)"
  by (auto simp: prefix_def binary_payload_def)

end
