(* ===== verification/Session_Inv.thy ===== *)
theory Session_Inv
  imports Session_Spec
begin

text \<open>
  The invariant of a session and its preservation by the operations on the data path.
\<close>

section \<open>The promise\<close>

text \<open>Towards the target: the bytes sent are a prefix of the data of the client's frames.\<close>

definition fw_ok :: "flows \<Rightarrow> bool" where
  "fw_ok F \<longleftrightarrow>
     f_tout F = [] \<or>
     (\<exists>h. head_end (f_cin F) h \<and> prefix (f_tout F) (ws_data (A_Head1 0) (drop h (f_cin F))))"

text \<open>Towards the client: the bytes sent are a prefix of the response to its key followed by whole
  frames, whose binary payload is a prefix of what the target sent.\<close>

definition accept_key :: "byte list \<Rightarrow> byte list \<Rightarrow> bool" where
  "accept_key head k \<longleftrightarrow> (\<exists>key. upgrade_key head = Some key \<and> k = takeWhile (\<lambda>c. c \<noteq> 0) key)"

definition bw_ok :: "flows \<Rightarrow> bool" where
  "bw_ok F \<longleftrightarrow>
     f_cout F = [] \<or>
     (\<exists>h k fs. head_end (f_cin F) h \<and> accept_key (take h (f_cin F)) k \<and> frames_sent fs \<and>
        prefix (f_cout F) (handshake_text k @ concat (map fst fs)) \<and>
        prefix (binary_payload (map snd fs)) (f_tin F))"

section \<open>The invariant of an open session\<close>

definition pending_out :: "sockify_proxy_session \<Rightarrow> byte list" where
  "pending_out s = drop (s_client_out_pos s) (take (s_client_out_len s) (s_client_out s))"

definition out_inv :: "sockify_proxy_session \<Rightarrow> bool" where
  "out_inv s \<longleftrightarrow>
     s_client_out_pos s \<le> s_client_out_len s \<and> s_client_out_len s \<le> length (s_client_out s) \<and>
     s_client_out_capacity s = SOCKIFY_PROXY_IO_CHUNK + 14 \<and>
     s_pending_close_payload_len s \<le> length (s_pending_close_payload s) \<and> s_pending_close_payload_len s \<le> 125"

definition chans_inv :: "chan \<Rightarrow> sockify_proxy_session \<Rightarrow> bool" where
  "chans_inv cc s \<longleftrightarrow>
     transport_chan (s_client_transport s) = Some cc \<and>
     (\<exists>tc. transport_chan (s_target_transport s) = Some tc \<and> tc \<noteq> cc)"

definition base_inv :: "chan \<Rightarrow> sockify_proxy_session \<Rightarrow> bool" where
  "base_inv cc s \<longleftrightarrow>
     chans_inv cc s \<and> out_inv s \<and> buffer_inv (s_client_to_target s) \<and> buffer_inv (s_target_to_client s) \<and>
     SOCKIFY_WS_MAX_HTTP_REQUEST \<le> b_capacity (s_client_to_target s) \<and> s_closing s \<le> 1"

text \<open>Before the handshake is complete.\<close>

definition hs_inv :: "sockify_proxy_session \<Rightarrow> flows \<Rightarrow> bool" where
  "hs_inv s F \<longleftrightarrow>
     \<not> s_target_registered s \<and> s_closing s = 0 \<and> \<not> s_pending_close s \<and> s_handshake s = f_cin F \<and> s_handshake_len s = length (f_cin F) \<and>
     length (f_cin F) \<le> SOCKIFY_WS_MAX_HTTP_REQUEST \<and> \<not> sublist crlf2 (f_cin F) \<and>
     f_cout F = [] \<and> f_tin F = [] \<and> f_tout F = [] \<and>
     buffer_contents (s_client_to_target s) = [] \<and> buffer_contents (s_target_to_client s) = [] \<and>
     s_client_out_pos s = s_client_out_len s \<and>
     parser_inv (s_ws_parser s) \<and> parser_abs (s_ws_parser s) = A_Head1 0"

text \<open>After it: the first \<open>n\<close> bytes behind the request head have been decoded.\<close>

definition fw_inv :: "sockify_proxy_session \<Rightarrow> flows \<Rightarrow> nat \<Rightarrow> nat \<Rightarrow> bool" where
  "fw_inv s F h n \<longleftrightarrow>
     parser_inv (s_ws_parser s) \<and> n \<le> length (f_cin F) - h \<and>
     (\<exists>es. ws_run (A_Head1 0) (take n (drop h (f_cin F))) = Some (parser_abs (s_ws_parser s), es) \<and>
        data_bytes es = f_tout F @ buffer_contents (s_client_to_target s))"

definition bw_inv :: "sockify_proxy_session \<Rightarrow> flows \<Rightarrow> nat \<Rightarrow> bool" where
  "bw_inv s F h \<longleftrightarrow>
     (\<exists>k fs. accept_key (take h (f_cin F)) k \<and> frames_sent fs \<and>
        f_cout F @ pending_out s = handshake_text k @ concat (map fst fs) \<and>
        binary_payload (map snd fs) @ buffer_contents (s_target_to_client s) = f_tin F)"

definition ws_inv :: "sockify_proxy_session \<Rightarrow> flows \<Rightarrow> nat \<Rightarrow> nat \<Rightarrow> bool" where
  "ws_inv s F h n \<longleftrightarrow> head_end (f_cin F) h \<and> fw_inv s F h n \<and> bw_inv s F h"

definition open_inv :: "chan \<Rightarrow> sockify_proxy_session \<Rightarrow> flows \<Rightarrow> bool" where
  "open_inv cc s F \<longleftrightarrow>
     base_inv cc s \<and>
     (if s_handshake_done s
      then \<exists>h n. ws_inv s F h n \<and> (s_closing s = 0 \<longrightarrow> n = length (f_cin F) - h)
      else hs_inv s F)"

text \<open>What holds at every moment, and between two events.\<close>

definition safe :: "chan \<Rightarrow> trace \<Rightarrow> proxy \<Rightarrow> flows \<Rightarrow> bool" where
  "safe cc tr0 st F \<longleftrightarrow>
     flow cc tr0 (px_trace st) F \<and> fw_ok F \<and> bw_ok F \<and> loop_ok (sv_loop (px_server st))"

definition sess_inv :: "addr \<Rightarrow> chan \<Rightarrow> trace \<Rightarrow> proxy \<Rightarrow> bool" where
  "sess_inv a cc tr0 st \<longleftrightarrow>
     (\<exists>F. safe cc tr0 st F \<and> (s_closing (px_mem st a) = 2 \<or> open_inv cc (px_mem st a) F))"

section \<open>Facts on the promise\<close>

lemma head_end_append: "head_end r h \<Longrightarrow> head_end (r @ x) h"
  by (auto simp: head_end_def)

lemma head_end_le: "head_end r h \<Longrightarrow> h \<le> length r"
  by (simp add: head_end_def)

lemma fw_inv_ok:
  assumes "head_end (f_cin F) h" and "fw_inv s F h n"
  shows "fw_ok F"
proof -
  let ?xs = "drop h (f_cin F)"
  obtain es where es: "ws_run (A_Head1 0) (take n ?xs) = Some (parser_abs (s_ws_parser s), es)"
    "data_bytes es = f_tout F @ buffer_contents (s_client_to_target s)"
    using assms(2) by (auto simp: fw_inv_def)
  have "ws_data (A_Head1 0) ?xs = data_bytes es @ ws_data (parser_abs (s_ws_parser s)) (drop n ?xs)"
    using ws_run_data [OF es(1), of "drop n ?xs"] by (simp del: drop_drop)
  with assms(1) es(2) show ?thesis by (auto simp: fw_ok_def prefix_def)
qed

lemma bw_inv_ok:
  assumes "head_end (f_cin F) h" and "bw_inv s F h"
  shows "bw_ok F"
  using assms unfolding bw_inv_def bw_ok_def by (metis prefixI)

lemma ws_inv_ok: "ws_inv s F h n \<Longrightarrow> fw_ok F \<and> bw_ok F"
  using fw_inv_ok bw_inv_ok by (auto simp: ws_inv_def)

lemma open_inv_ok: "open_inv cc s F \<Longrightarrow> fw_ok F \<and> bw_ok F"
  using ws_inv_ok by (auto simp: open_inv_def hs_inv_def fw_ok_def bw_ok_def split: if_splits)

lemma sess_invI:
  assumes "flow cc tr0 (px_trace st) F" and "loop_ok (sv_loop (px_server st))" and "open_inv cc (px_mem st a) F"
  shows "sess_inv a cc tr0 st"
  using assms open_inv_ok by (auto simp: sess_inv_def safe_def)

text \<open>Receiving more from the client keeps what was promised.\<close>

lemma fw_ok_more: "fw_ok F \<Longrightarrow> fw_ok (F\<lparr>f_cin := f_cin F @ xs\<rparr>)"
proof -
  assume ok: "fw_ok F"
  have mono: "prefix (ws_data a ys) (ws_data a (ys @ zs))" for a ys zs
    by (induction a ys rule: ws_data.induct) (auto split: option.splits)
  show ?thesis
  proof (cases "f_tout F = []")
    case False
    then obtain h where h: "head_end (f_cin F) h" "prefix (f_tout F) (ws_data (A_Head1 0) (drop h (f_cin F)))"
      using ok by (auto simp: fw_ok_def)
    then have "drop h (f_cin F @ xs) = drop h (f_cin F) @ xs" using head_end_le [OF h(1)] by simp
    with h head_end_append [OF h(1), of xs] mono [of "A_Head1 0" "drop h (f_cin F)" xs] show ?thesis
      by (auto simp: fw_ok_def intro: prefix_order.trans)
  qed (simp add: fw_ok_def)
qed

lemma bw_ok_more: "bw_ok F \<Longrightarrow> bw_ok (F\<lparr>f_cin := f_cin F @ xs\<rparr>)"
proof -
  assume ok: "bw_ok F"
  show ?thesis
  proof (cases "f_cout F = []")
    case False
    then obtain h k fs where h: "head_end (f_cin F) h" "accept_key (take h (f_cin F)) k" "frames_sent fs"
      "prefix (f_cout F) (handshake_text k @ concat (map fst fs))"
      "prefix (binary_payload (map snd fs)) (f_tin F)"
      using ok by (auto simp: bw_ok_def)
    moreover have "h \<le> length (f_cin F)" using head_end_le [OF h(1)] .
    ultimately show ?thesis
      using head_end_append [OF h(1), of xs] unfolding bw_ok_def
      by (intro disjI2 exI [of _ h] exI [of _ k] exI [of _ fs]) simp
  qed (simp add: bw_ok_def)
qed

lemma bw_ok_more_target: "bw_ok F \<Longrightarrow> bw_ok (F\<lparr>f_tin := f_tin F @ xs\<rparr>)"
  unfolding bw_ok_def by (auto 4 4 intro: prefix_prefix)

section \<open>Closing\<close>

lemma px_loop_remove_flow:
  assumes "loop_ok (sv_loop (px_server st))"
  shows "flow cc tr0 (px_trace st) F \<Longrightarrow> flow cc tr0 (px_trace (px_loop_remove E fd st)) F"
    and "loop_ok (sv_loop (px_server (px_loop_remove E fd st)))"
proof -
  obtain rc l tr where r: "sockify_event_loop_remove (env_os E) (sv_loop (px_server st)) fd (px_trace st) = (rc, l, tr)"
    by (metis prod_cases3)
  from loop.remove_law [OF assms r] r flow_silent
  show "flow cc tr0 (px_trace st) F \<Longrightarrow> flow cc tr0 (px_trace (px_loop_remove E fd st)) F"
    "loop_ok (sv_loop (px_server (px_loop_remove E fd st)))"
    by (auto simp: px_loop_remove_def)
qed

lemma px_loop_modify_flow:
  assumes "loop_ok (sv_loop (px_server st))"
  shows "flow cc tr0 (px_trace st) F \<Longrightarrow> flow cc tr0 (px_trace (px_loop_modify E fd ev st)) F"
    and "loop_ok (sv_loop (px_server (px_loop_modify E fd ev st)))"
proof -
  obtain rc l tr where r: "sockify_event_loop_modify (env_os E) (sv_loop (px_server st)) fd ev (px_trace st) = (rc, l, tr)"
    by (metis prod_cases3)
  from loop.modify_law [OF assms r] r flow_silent
  show "flow cc tr0 (px_trace st) F \<Longrightarrow> flow cc tr0 (px_trace (px_loop_modify E fd ev st)) F"
    "loop_ok (sv_loop (px_server (px_loop_modify E fd ev st)))"
    by (auto simp: px_loop_modify_def)
qed

lemma px_loop_add_flow:
  assumes "loop_ok (sv_loop (px_server st))" and "px_loop_add E fd ev cb ud st = (rc, st')"
  shows "flow cc tr0 (px_trace st) F \<Longrightarrow> flow cc tr0 (px_trace st') F"
    and "loop_ok (sv_loop (px_server st'))" and "px_mem st' = px_mem st"
proof -
  obtain rc2 l tr where r: "sockify_event_loop_add (env_os E) (sv_loop (px_server st)) fd ev cb ud (px_trace st) = (rc2, l, tr)"
    by (metis prod_cases3)
  from loop.add_law [OF assms(1) r] r assms(2) flow_silent
  show "flow cc tr0 (px_trace st) F \<Longrightarrow> flow cc tr0 (px_trace st') F"
    "loop_ok (sv_loop (px_server st'))" "px_mem st' = px_mem st"
    by (auto simp: px_loop_add_def)
qed

lemma unlink_same [simp]:
  "px_trace (server_unlink_session a st) = px_trace st"
  "sv_loop (px_server (server_unlink_session a st)) = sv_loop (px_server st)"
  "s_closing (px_mem (server_unlink_session a st) b) = s_closing (px_mem st b)"
  by (simp_all add: server_unlink_session_def unlink_rest_def Let_def split: option.splits)

lemma close_unregister_flow:
  assumes "loop_ok (sv_loop (px_server st))"
  shows "flow cc tr0 (px_trace st) F \<Longrightarrow> flow cc tr0 (px_trace (close_unregister E a st)) F"
    and "loop_ok (sv_loop (px_server (close_unregister E a st)))"
    and "s_closing (px_mem (close_unregister E a st) b) = s_closing (px_mem st b)"
  using assms
  by (simp_all add: close_unregister_def Let_def px_loop_remove_flow)

lemma close_transport_flow:
  "flow cc tr0 (px_trace st) F \<Longrightarrow> flow cc tr0 (px_trace (close_client_transport E a st)) F"
  "flow cc tr0 (px_trace st) F \<Longrightarrow> flow cc tr0 (px_trace (close_target_transport E a st)) F"
  "px_server (close_client_transport E a st) = px_server st"
  "px_server (close_target_transport E a st) = px_server st"
  "s_closing (px_mem (close_client_transport E a st) b) = s_closing (px_mem st b)"
  "s_closing (px_mem (close_target_transport E a st) b) = s_closing (px_mem st b)"
  using flow_quiet net_close_quiet transport_destroy_quiet
  by (simp_all add: close_client_transport_def close_target_transport_def px_net_close_def Let_def split: prod.split)
    (metis)+

lemma close_free_flow:
  "flow cc tr0 (px_trace st) F \<Longrightarrow> flow cc tr0 (px_trace (close_free E a st)) F"
  "px_server (close_free E a st) = px_server st" "px_mem (close_free E a st) = px_mem st"
  using flow_quiet [OF _ free_ptr_quiet]
  by (simp_all add: close_free_def px_free_def Let_def split: option.split)

lemma session_close_flow:
  assumes "loop_ok (sv_loop (px_server st))"
  shows "flow cc tr0 (px_trace st) F \<Longrightarrow> flow cc tr0 (px_trace (session_close E a st)) F"
    and "loop_ok (sv_loop (px_server (session_close E a st)))"
    and "s_closing (px_mem (session_close E a st) a) = 2"
  using assms
  by (simp_all add: session_close_def Let_def close_free_flow close_transport_flow close_unregister_flow)

lemma session_close_inv: "safe cc tr0 st F \<Longrightarrow> sess_inv a cc tr0 (session_close E a st)"
  unfolding sess_inv_def by (rule exI [of _ F]) (simp add: safe_def session_close_flow)

end
