(* ===== verification/Session_Data.thy ===== *)
theory Session_Data
  imports Session_Inv
begin

text \<open>
  The operations on the data path of a session keep the session invariant.
\<close>

abbreviation ptr_bytes :: "byte list ptr \<Rightarrow> byte list" where
  "ptr_bytes p \<equiv> (case p of None \<Rightarrow> [] | Some d \<Rightarrow> d)"

section \<open>Writing to a ring and making a frame\<close>

lemma buffer_write_fits:
  assumes "buffer_inv b" and "n = length (ptr_bytes p)" and "length (buffer_contents b) + n \<le> b_capacity b"
  obtains b' where "sockify_buffer_write (Some b) p n = (SOCKIFY_OK, n, Some b')" and "buffer_inv b'"
    and "b_capacity b' = b_capacity b" and "buffer_contents b' = buffer_contents b @ ptr_bytes p"
proof (cases p)
  case None
  have "b_length b < size_lim" using assms(1) by (auto simp: buffer_inv_def)
  then have "sockify_buffer_write (Some b) None 0 = (SOCKIFY_OK, 0, Some b)"
    by (simp add: sockify_buffer_write_def buffer_write_loop.simps [of "[]" 0 0 b] sz_add_id Let_def)
  with None assms that show thesis by simp
next
  case (Some d)
  with assms rb.push_fits [of b d] that show thesis by auto
qed

lemma write_frame_norm:
  assumes "n \<le> length (ptr_bytes p)"
  shows "sockify_ws_write_frame op p n False osize =
    sockify_ws_write_frame op (Some (take n (ptr_bytes p))) n False osize"
  using assms by (cases p) (simp_all add: sockify_ws_write_frame_def Let_def)

lemma write_frame_sent:
  assumes "sockify_ws_write_frame op p n False osize = (SOCKIFY_OK, k, out)"
    and "n \<le> length (ptr_bytes p)" and "n \<le> SOCKIFY_PROXY_IO_CHUNK"
  shows "k = length out" and "k \<le> osize" and "frame_of out op (take n (ptr_bytes p))"
proof -
  define d where "d = take n (ptr_bytes p)"
  have d: "length d = n" using assms(2) by (simp add: d_def)
  have w: "sockify_ws_write_frame op (Some d) (length d) False osize = (SOCKIFY_OK, k, out)"
    using assms(1) write_frame_norm [OF assms(2)] d by (simp add: d_def)
  have lim: "length d + 10 < size_lim" using assms(3) d by (simp add: size_lim_def)
  then have sz: "sz_add (frame_overhead (length d)) (length d) = frame_overhead (length d) + length d"
    by (intro sz_add_id) (auto simp: frame_overhead_def)
  have acc: "write_accepts op (length d)" "frame_overhead (length d) + length d \<le> osize"
    using w sz
    by (auto simp: sockify_ws_write_frame_def write_accepts_def frame_overhead_def [symmetric] Let_def
        split: if_splits)
  obtain b1 ext where x: "sockify_ws_write_frame op (Some d) (length d) False osize =
      (SOCKIFY_OK, frame_overhead (length d) + length d, ucast (0x80 OR (op AND 0x0f)) # b1 # ext @ d)"
    "\<not> bit (b1 :: byte) 7" "length ext = (if unat b1 = 126 then 2 else if unat b1 = 127 then 8 else 0)"
    "length d = (if ext = [] then unat b1 else be_value ext)" "frame_overhead (length d) = 2 + length ext"
    using write_frame_ok [OF acc(1) lim acc(2)] by blast
  from x(1,5) w show "k = length out" by simp
  from x(1) w acc(2) show "k \<le> osize" by simp
  have "out = ucast (0x80 OR (op AND 0x0f)) # b1 # ext @ d" "valid_opcode op"
    using x(1) w acc(1) by (simp_all add: write_accepts_def)
  with x(2-4) have "frame_of out op d" unfolding frame_of_def by blast
  then show "frame_of out op (take n (ptr_bytes p))" by (simp add: d_def)
qed

lemma make_ws_frame_run:
  assumes "session_make_ws_frame a op p n st = (rc, st')" and "out_inv (px_mem st a)"
    and "n \<le> length (ptr_bytes p)" and "n \<le> SOCKIFY_PROXY_IO_CHUNK"
  shows "rc \<noteq> SOCKIFY_OK \<Longrightarrow> st' = st"
    and "rc = SOCKIFY_OK \<Longrightarrow> pending_out (px_mem st a) = [] \<and>
      (\<exists>out. frame_of out op (take n (ptr_bytes p)) \<and>
         st' = upd a (\<lambda>x. x\<lparr>s_client_out := out, s_client_out_len := length out, s_client_out_pos := 0\<rparr>) st)"
proof -
  obtain rc2 k out where w: "sockify_ws_write_frame op p n False (s_client_out_capacity (px_mem st a)) = (rc2, k, out)"
    by (metis prod_cases3)
  show "rc \<noteq> SOCKIFY_OK \<Longrightarrow> st' = st"
    using assms(1) w by (auto simp: session_make_ws_frame_def Let_def split: if_splits)
  show "rc = SOCKIFY_OK \<Longrightarrow> pending_out (px_mem st a) = [] \<and>
      (\<exists>out. frame_of out op (take n (ptr_bytes p)) \<and>
         st' = upd a (\<lambda>x. x\<lparr>s_client_out := out, s_client_out_len := length out, s_client_out_pos := 0\<rparr>) st)"
    using assms w write_frame_sent [of op p n _ k out]
    by (auto simp: session_make_ws_frame_def Let_def pending_out_def split: if_splits)
qed

text \<open>A frame queued on an empty output extends the list of frames; control frames carry no data.\<close>

lemma bw_inv_frame:
  assumes "bw_inv s F h" and "pending_out s = []" and "frame_of out op pl"
    and "buffer_contents (s_target_to_client s) =
      (if op = SOCKIFY_WS_OPCODE_BINARY then pl @ buffer_contents (s_target_to_client s')
       else buffer_contents (s_target_to_client s'))"
    and "pending_out s' = out"
  shows "bw_inv s' F h"
proof -
  obtain k fs where f: "accept_key (take h (f_cin F)) k" "frames_sent fs"
    "f_cout F = handshake_text k @ concat (map fst fs)"
    "binary_payload (map snd fs) @ buffer_contents (s_target_to_client s) = f_tin F"
    using assms(1,2) by (auto simp: bw_inv_def)
  have "frames_sent (fs @ [(out, op, pl)])" using f(2) assms(3) by (simp add: frames_sent_def)
  moreover have "binary_payload (map snd (fs @ [(out, op, pl)])) @ buffer_contents (s_target_to_client s') = f_tin F"
    using f(4) assms(4) by (auto simp: binary_payload_def split: if_splits)
  ultimately show ?thesis
    using f(1,3) assms(5) unfolding bw_inv_def
    by (intro exI [of _ k] exI [of _ "fs @ [(out, op, pl)]"]) simp
qed

section \<open>One decoded message\<close>

text \<open>The state inside the loop over the received bytes: \<open>n\<close> of them have been decoded.\<close>

definition mid_inv :: "addr \<Rightarrow> chan \<Rightarrow> trace \<Rightarrow> flows \<Rightarrow> nat \<Rightarrow> nat \<Rightarrow> proxy \<Rightarrow> bool" where
  "mid_inv a cc tr0 F h n st \<longleftrightarrow>
     safe cc tr0 st F \<and> base_inv cc (px_mem st a) \<and> s_handshake_done (px_mem st a) \<and> ws_inv (px_mem st a) F h n"

definition closed :: "addr \<Rightarrow> chan \<Rightarrow> trace \<Rightarrow> flows \<Rightarrow> proxy \<Rightarrow> bool" where
  "closed a cc tr0 F st \<longleftrightarrow> safe cc tr0 st F \<and> s_closing (px_mem st a) = 2"

lemma session_close_closed: "safe cc tr0 st F \<Longrightarrow> closed a cc tr0 F (session_close E a st)"
  by (simp add: safe_def closed_def session_close_flow)

lemma safe_upd [simp]: "safe cc tr0 (upd a f st) F = safe cc tr0 st F"
  by (simp add: safe_def)

text \<open>Free room in the ring towards the target.\<close>

abbreviation room :: "addr \<Rightarrow> proxy \<Rightarrow> nat" where
  "room a st \<equiv> sockify_buffer_writable (s_client_to_target (px_mem st a))"

lemma room_eq:
  "buffer_inv b \<Longrightarrow> sockify_buffer_writable b = b_capacity b - length (buffer_contents b)"
  by (simp add: sockify_buffer_writable_def buffer_inv_def sz_sub_id)

text \<open>The parser has just delivered \<open>msg\<close>, decoded from \<open>used\<close> bytes: the invariant but for the data
  that is still in the message.\<close>

definition delivered :: "sockify_proxy_session \<Rightarrow> flows \<Rightarrow> nat \<Rightarrow> nat \<Rightarrow> sockify_ws_message \<Rightarrow> bool" where
  "delivered s F h n msg \<longleftrightarrow>
     parser_inv (s_ws_parser s) \<and> n \<le> length (f_cin F) - h \<and>
     (\<exists>es. ws_run (A_Head1 0) (take n (drop h (f_cin F))) = Some (parser_abs (s_ws_parser s), es) \<and>
        data_bytes es = f_tout F @ buffer_contents (s_client_to_target s) @
          (if is_data_opcode (m_opcode msg) then ptr_bytes (m_payload msg) else []))"

lemma handle_message_data:
  assumes "safe cc tr0 st F" and "base_inv cc (px_mem st a)" and "s_handshake_done (px_mem st a)"
    and "head_end (f_cin F) h" and "bw_inv (px_mem st a) F h" and "delivered (px_mem st a) F h n msg"
    and "m_payload_len msg = length (ptr_bytes (m_payload msg))" and "m_payload_len msg \<le> room a st"
    and "is_data_opcode (m_opcode msg)"
  shows "mid_inv a cc tr0 F h n (session_handle_ws_message E a msg st) \<and>
    room a st \<le> room a (session_handle_ws_message E a msg st) + m_payload_len msg \<and>
    s_closing (px_mem (session_handle_ws_message E a msg st) a) = s_closing (px_mem st a)"
proof -
  let ?s = "px_mem st a"
  have b: "buffer_inv (s_client_to_target ?s)" using assms(2) by (simp add: base_inv_def)
  have fits: "length (buffer_contents (s_client_to_target ?s)) + m_payload_len msg \<le> b_capacity (s_client_to_target ?s)"
    using assms(8) room_eq [OF b] rb.bounded [OF b] by linarith
  obtain b' where w: "sockify_buffer_write (Some (s_client_to_target ?s)) (m_payload msg) (m_payload_len msg) =
      (SOCKIFY_OK, m_payload_len msg, Some b')" "buffer_inv b'" "b_capacity b' = b_capacity (s_client_to_target ?s)"
    "buffer_contents b' = buffer_contents (s_client_to_target ?s) @ ptr_bytes (m_payload msg)"
    using buffer_write_fits [OF b assms(7) fits] by blast
  have st': "session_handle_ws_message E a msg st = upd a (\<lambda>x. x\<lparr>s_client_to_target := b'\<rparr>) st"
    using w(1) assms(9) by (simp add: session_handle_ws_message_def is_data_opcode_def)
  have "room a st \<le> room a (upd a (\<lambda>x. x\<lparr>s_client_to_target := b'\<rparr>) st) + m_payload_len msg"
    using w assms(7) by (simp add: room_eq b)
  then show ?thesis
    using assms w b unfolding st'
    by (simp add: mid_inv_def base_inv_def chans_inv_def out_inv_def ws_inv_def fw_inv_def bw_inv_def
        delivered_def pending_out_def)
qed

lemma handle_message_ping:
  assumes "safe cc tr0 st F" and "base_inv cc (px_mem st a)" and "s_handshake_done (px_mem st a)"
    and "head_end (f_cin F) h" and "bw_inv (px_mem st a) F h" and "delivered (px_mem st a) F h n msg"
    and "m_payload_len msg = length (ptr_bytes (m_payload msg))" and "m_payload_len msg \<le> SOCKIFY_PROXY_IO_CHUNK"
    and "m_opcode msg = SOCKIFY_WS_OPCODE_PING" and "st' = session_handle_ws_message E a msg st"
  shows "closed a cc tr0 F st' \<or>
    mid_inv a cc tr0 F h n st' \<and> room a st' = room a st \<and> s_closing (px_mem st' a) = s_closing (px_mem st a)"
proof -
  let ?s = "px_mem st a"
  obtain rc st1 where f: "session_make_ws_frame a SOCKIFY_WS_OPCODE_PONG (m_payload msg) (m_payload_len msg) st = (rc, st1)"
    by (metis surj_pair)
  have st': "st' = (if rc \<noteq> SOCKIFY_OK then session_close E a st1 else st1)"
    using assms(9,10) f by (simp add: session_handle_ws_message_def)
  have o: "out_inv ?s" using assms(2) by (simp add: base_inv_def)
  note run = make_ws_frame_run [OF f o]
  show ?thesis
  proof (cases "rc = SOCKIFY_OK")
    case False
    with run(1) assms(7,8) st' session_close_closed [OF assms(1)] show ?thesis by auto
  next
    case True
    then obtain out where out: "pending_out ?s = []" "frame_of out SOCKIFY_WS_OPCODE_PONG (ptr_bytes (m_payload msg))"
      and st1: "st1 = upd a (\<lambda>x. x\<lparr>s_client_out := out, s_client_out_len := length out, s_client_out_pos := 0\<rparr>) st"
      using run(2) assms(7,8) by auto
    have "bw_inv (px_mem st1 a) F h"
      by (rule bw_inv_frame [OF assms(5) out]) (simp_all add: st1 pending_out_def)
    moreover have "delivered ?s F h n msg = fw_inv (px_mem st1 a) F h n"
      using assms(9) by (simp add: st1 delivered_def fw_inv_def is_data_opcode_def)
    ultimately show ?thesis
      using assms(1-6) True unfolding st'
      by (simp add: st1 mid_inv_def base_inv_def chans_inv_def out_inv_def ws_inv_def)
  qed
qed

lemma handle_message_close:
  assumes "safe cc tr0 st F" and "base_inv cc (px_mem st a)" and "s_handshake_done (px_mem st a)"
    and "head_end (f_cin F) h" and "bw_inv (px_mem st a) F h" and "delivered (px_mem st a) F h n msg"
    and "m_payload_len msg = length (ptr_bytes (m_payload msg))"
    and "m_opcode msg = SOCKIFY_WS_OPCODE_CLOSE" and "st' = session_handle_ws_message E a msg st"
  shows "mid_inv a cc tr0 F h n st' \<and> s_closing (px_mem st' a) = 1"
proof -
  let ?s = "px_mem st a" and ?n = "min 125 (m_payload_len msg)"
  define pl where "pl = (if ?n \<noteq> 0 then take ?n (the (m_payload msg)) else s_pending_close_payload ?s)"
  have pl: "?n \<le> length pl"
    using assms(7) by (cases "m_payload msg") (auto simp: pl_def)
  define st1 where "st1 = upd a (\<lambda>x. x\<lparr>s_closing := 1, s_pending_close_payload := pl,
      s_pending_close_payload_len := ?n, s_pending_close := True\<rparr>) st"
  have m: "(if m_payload_len msg > 125 then 125 else m_payload_len msg) = ?n" by (simp add: min_def)
  obtain rc st2 where f: "session_make_ws_frame a SOCKIFY_WS_OPCODE_CLOSE (Some pl) ?n st1 = (rc, st2)"
    by (metis surj_pair)
  have st': "st' = (if s_client_out_len ?s = s_client_out_pos ?s
      then if rc = SOCKIFY_OK then upd a (\<lambda>x. x\<lparr>s_pending_close := False\<rparr>) st2 else st2 else st1)"
    using assms(8,9) f
    by (simp add: session_handle_ws_message_def Let_def m pl_def st1_def upd_def)
  have o: "out_inv (px_mem st1 a)" using assms(2) pl by (simp add: base_inv_def out_inv_def st1_def)
  have n4: "?n \<le> SOCKIFY_PROXY_IO_CHUNK" by simp
  have pl': "?n \<le> length (ptr_bytes (Some pl))" using pl by simp
  note run = make_ws_frame_run [OF f o pl' n4]
  have p1: "pending_out (px_mem st1 a) = pending_out ?s" by (simp add: st1_def pending_out_def)
  have fw: "fw_inv (px_mem st1 a) F h n"
    using assms(6,8) by (simp add: st1_def delivered_def fw_inv_def is_data_opcode_def)
  have bw: "bw_inv (px_mem st1 a) F h" using assms(5) by (simp add: bw_inv_def p1) (simp add: st1_def)
  have one: "mid_inv a cc tr0 F h n st1 \<and> s_closing (px_mem st1 a) = 1"
    using assms(1-4) fw bw o by (simp add: st1_def mid_inv_def base_inv_def chans_inv_def ws_inv_def)
  show ?thesis
  proof (cases "s_client_out_len ?s = s_client_out_pos ?s \<and> rc = SOCKIFY_OK")
    case False
    then have "st' = st1" using st' run(1) by (auto split: if_splits)
    with one show ?thesis by simp
  next
    case True
    then obtain out where out: "pending_out (px_mem st1 a) = []" "frame_of out SOCKIFY_WS_OPCODE_CLOSE (take ?n pl)"
      and st2: "st2 = upd a (\<lambda>x. x\<lparr>s_client_out := out, s_client_out_len := length out, s_client_out_pos := 0\<rparr>) st1"
      using run(2) by auto
    have st3: "st' = upd a (\<lambda>x. x\<lparr>s_pending_close := False\<rparr>) st2" using True st' by simp
    have "bw_inv (px_mem st' a) F h"
      by (rule bw_inv_frame [OF bw out]) (simp_all add: st2 st3 pending_out_def)
    moreover have "fw_inv (px_mem st' a) F h n" using fw by (simp add: st2 st3 fw_inv_def)
    ultimately show ?thesis
      using one by (simp add: st2 st3 mid_inv_def base_inv_def chans_inv_def out_inv_def ws_inv_def)
  qed
qed

text \<open>All messages at once.\<close>

lemma handle_message_step:
  assumes "safe cc tr0 st F" and "base_inv cc (px_mem st a)" and "s_handshake_done (px_mem st a)"
    and "head_end (f_cin F) h" and "bw_inv (px_mem st a) F h" and "delivered (px_mem st a) F h n msg"
    and "m_payload_len msg = length (ptr_bytes (m_payload msg))" and "m_payload_len msg \<le> room a st"
    and "m_payload_len msg \<le> SOCKIFY_PROXY_IO_CHUNK"
    and "st' = session_handle_ws_message E a msg st"
  shows "closed a cc tr0 F st' \<or>
    mid_inv a cc tr0 F h n st' \<and> (s_closing (px_mem st' a) = 1 \<or>
      s_closing (px_mem st' a) = s_closing (px_mem st a) \<and> room a st \<le> room a st' + m_payload_len msg)"
proof -
  consider "is_data_opcode (m_opcode msg)" | "m_opcode msg = SOCKIFY_WS_OPCODE_PING"
    | "m_opcode msg = SOCKIFY_WS_OPCODE_CLOSE"
    | (other) "\<not> is_data_opcode (m_opcode msg)" "m_opcode msg \<noteq> SOCKIFY_WS_OPCODE_PING"
      "m_opcode msg \<noteq> SOCKIFY_WS_OPCODE_CLOSE" by blast
  then show ?thesis
  proof cases
    case 1
    with handle_message_data [OF assms(1-8)] assms(10) show ?thesis by blast
  next
    case 2
    with handle_message_ping [OF assms(1-7) assms(9) _ assms(10)] show ?thesis by auto
  next
    case 3
    with handle_message_close [OF assms(1-7) _ assms(10)] show ?thesis by blast
  next
    case other
    then have "st' = st" using assms(10) by (simp add: session_handle_ws_message_def is_data_opcode_def)
    moreover have "fw_inv (px_mem st a) F h n" using assms(6) other by (simp add: delivered_def fw_inv_def)
    ultimately show ?thesis using assms(1-5) by (simp add: mid_inv_def ws_inv_def)
  qed
qed

section \<open>The loop over the received bytes\<close>

lemma ws_inv_delivered:
  assumes "ws_inv s F h n" and "n + used \<le> length (f_cin F) - h" and "parser_inv p'"
    and "ws_run (parser_abs (s_ws_parser s)) (take used (drop (h + n) (f_cin F))) = Some (parser_abs p', msg_events msg)"
  shows "delivered (s\<lparr>s_ws_parser := p'\<rparr>) F h (n + used) msg"
proof -
  obtain es where es: "ws_run (A_Head1 0) (take n (drop h (f_cin F))) = Some (parser_abs (s_ws_parser s), es)"
    "data_bytes es = f_tout F @ buffer_contents (s_client_to_target s)"
    using assms(1) by (auto simp: ws_inv_def fw_inv_def)
  have "take (n + used) (drop h (f_cin F)) = take n (drop h (f_cin F)) @ take used (drop (h + n) (f_cin F))"
    by (simp add: take_add add.commute)
  then have "ws_run (A_Head1 0) (take (n + used) (drop h (f_cin F))) = Some (parser_abs p', es @ msg_events msg)"
    using ws_run_append_Some [OF es(1)] assms(4) by simp
  with es(2) assms(2,3) show ?thesis
    by (auto simp: delivered_def data_bytes_append data_bytes_msg)
qed

text \<open>What the loop leaves: closed, or all bytes decoded, or a close frame met, or an error return
  (after which every caller closes the session).\<close>

definition processed :: "addr \<Rightarrow> chan \<Rightarrow> trace \<Rightarrow> flows \<Rightarrow> nat \<Rightarrow> sockify_rc ptr \<times> proxy \<Rightarrow> bool" where
  "processed a cc tr0 F h r =
     (case r of
        (None, st) \<Rightarrow> closed a cc tr0 F st \<or>
          (\<exists>n. mid_inv a cc tr0 F h n st \<and> (s_closing (px_mem st a) = 1 \<or> n = length (f_cin F) - h))
      | (Some rc, st) \<Rightarrow> safe cc tr0 st F \<and> rc \<noteq> SOCKIFY_OK \<and> rc \<noteq> SOCKIFY_ERR_AGAIN)"

lemma process_ws_loop_inv:
  assumes "mid_inv a cc tr0 F h n st" and "s_closing (px_mem st a) = 0 \<or> s_closing (px_mem st a) = 1"
    and "drop pos data = drop (h + n) (f_cin F)" and "length data - pos \<le> room a st" and "length data < size_lim"
  shows "processed a cc tr0 F h (process_ws_loop E a data (length data) pos st)"
  using assms
proof (induction E a data "length data" pos st arbitrary: n rule: process_ws_loop.induct)
  case (1 E a data pos st)
  let ?s = "px_mem st a" and ?xs = "drop pos data"
  have le: "h \<le> length (f_cin F)" "n \<le> length (f_cin F) - h"
    using "1.prems"(1) by (auto simp: mid_inv_def ws_inv_def fw_inv_def head_end_def)
  have len: "length data - pos = length (f_cin F) - (h + n)"
    using "1.prems"(3) by (metis length_drop)
  show ?case
  proof (cases "pos < length data \<and> s_closing ?s = 0")
    case False
    then have "process_ws_loop E a data (length data) pos st = (None, st)"
      by (subst process_ws_loop.simps) auto
    moreover have "s_closing ?s = 1 \<or> n = length (f_cin F) - h" using False "1.prems"(2) len le by auto
    ultimately show ?thesis using "1.prems"(1) by (auto simp: processed_def)
  next
    case more: True
    define cap where "cap = min_size SOCKIFY_PROXY_IO_CHUNK (room a st)"
    have room: "0 < room a st" using more "1.prems"(4) by linarith
    have cap: "0 < cap" "cap \<le> SOCKIFY_PROXY_IO_CHUNK" "cap \<le> room a st" "cap < size_lim"
      using room by (auto simp: cap_def size_lim_def)
    have pinv: "parser_inv (s_ws_parser ?s)" using "1.prems"(1) by (simp add: mid_inv_def ws_inv_def fw_inv_def)
    have xs: "length ?xs < size_lim" "length data - pos = length ?xs" using "1.prems"(5) by simp_all
    obtain rc used p' msg where
      feed: "sockify_ws_parser_feed (Some (s_ws_parser ?s)) (Some ?xs) (length ?xs) False cap = (rc, used, Some p', msg)"
      and spec: "feed_spec (s_ws_parser ?s) ?xs cap (rc, used, p', msg)"
      using feed_refines [OF pinv xs(1) cap(4)] by blast
    define st1 where "st1 = upd a (\<lambda>s. s\<lparr>s_ws_parser := p'\<rparr>) st"
    have run: "process_ws_loop E a data (length data) pos st =
      (if rc = SOCKIFY_OK then process_ws_loop E a data (length data) (pos + used) (session_handle_ws_message E a msg st1)
       else if rc = SOCKIFY_ERR_AGAIN then
         if used = 0 then (None, st1) else process_ws_loop E a data (length data) (pos + used) st1
       else (Some rc, st1))"
      using more feed cap(1) unfolding xs(2) [symmetric]
      by (subst process_ws_loop.simps) (simp add: cap_def [symmetric] st1_def Let_def del: min_size_min)
    have safe1: "safe cc tr0 st1 F" using "1.prems"(1) by (simp add: st1_def mid_inv_def)
    have base1: "base_inv cc (px_mem st1 a)" "s_handshake_done (px_mem st1 a)" "head_end (f_cin F) h"
      "bw_inv (px_mem st1 a) F h" "room a st1 = room a st" "s_closing (px_mem st1 a) = 0"
      using "1.prems"(1) more
      by (simp_all add: st1_def mid_inv_def ws_inv_def base_inv_def chans_inv_def out_inv_def bw_inv_def pending_out_def)
    have deliver: "delivered (px_mem st1 a) F h (n + used) msg"
      if "used \<le> length ?xs" "parser_inv p'"
        "ws_run (parser_abs (s_ws_parser ?s)) (take used ?xs) = Some (parser_abs p', msg_events msg)"
      using ws_inv_delivered [of ?s F h n used p' msg] "1.prems"(1,3) that le len
      by (simp add: st1_def mid_inv_def)
    have drop': "drop (pos + used) data = drop (h + (n + used)) (f_cin F)"
      using "1.prems"(3) by (metis add.assoc add.commute drop_drop)
    consider "rc = SOCKIFY_OK" | "rc = SOCKIFY_ERR_AGAIN" | "rc \<noteq> SOCKIFY_OK" "rc \<noteq> SOCKIFY_ERR_AGAIN" by blast
    then show ?thesis
    proof cases
      case 1
      define st2 where "st2 = session_handle_ws_message E a msg st1"
      from spec 1 have sp: "used \<le> length ?xs" "parser_inv p'" "m_payload_len msg = length (ptr_bytes (m_payload msg))"
        "m_payload_len msg \<le> cap" "m_payload_len msg \<le> used"
        "ws_run (parser_abs (s_ws_parser ?s)) (take used ?xs) = Some (parser_abs p', msg_events msg)"
        by (simp_all add: feed_spec_def)
      have "closed a cc tr0 F st2 \<or> mid_inv a cc tr0 F h (n + used) st2 \<and> (s_closing (px_mem st2 a) = 1 \<or>
          s_closing (px_mem st2 a) = s_closing (px_mem st1 a) \<and> room a st1 \<le> room a st2 + m_payload_len msg)"
        by (rule handle_message_step [OF safe1 base1(1-4) deliver])
          (use sp cap(2,3) base1(5) st2_def in auto)
      then consider "s_closing (px_mem st2 a) \<noteq> 0" "processed a cc tr0 F h (None, st2)"
        | "mid_inv a cc tr0 F h (n + used) st2" "s_closing (px_mem st2 a) = 0" "room a st \<le> room a st2 + used"
        using base1(5,6) sp(5) by (fastforce simp: closed_def processed_def)
      then show ?thesis
      proof cases
        case 1
        then have "process_ws_loop E a data (length data) (pos + used) st2 = (None, st2)"
          by (subst process_ws_loop.simps) simp
        with 1 run \<open>rc = SOCKIFY_OK\<close> show ?thesis by (simp add: st2_def)
      next
        case 2
        then have "processed a cc tr0 F h (process_ws_loop E a data (length data) (pos + used) st2)"
          using "1.hyps"(1) [OF more cap_def _ feed [symmetric, folded xs(2)] refl refl refl
              \<open>rc = SOCKIFY_OK\<close>, of "n + used"] drop' "1.prems"(4,5) cap(1)
          by (simp add: st2_def st1_def)
        with run \<open>rc = SOCKIFY_OK\<close> show ?thesis by (simp add: st2_def)
      qed
    next
      case 2
      with spec have sp: "used = length ?xs" "parser_inv p'" "msg = zero_message"
        "ws_run (parser_abs (s_ws_parser ?s)) (take used ?xs) = Some (parser_abs p', msg_events msg)"
        by (simp_all add: feed_spec_def)
      then have "fw_inv (px_mem st1 a) F h (n + used)"
        using deliver by (simp add: delivered_def fw_inv_def zero_message_def cong: if_cong)
      with safe1 base1 have "mid_inv a cc tr0 F h (n + used) st1" by (simp add: mid_inv_def ws_inv_def)
      moreover have "process_ws_loop E a data (length data) pos st = (None, st1)"
        using run 2 sp(1) more by (subst (asm) (2) process_ws_loop.simps) simp
      moreover have "n + used = length (f_cin F) - h" using sp(1) len le by simp
      ultimately show ?thesis by (auto simp: processed_def)
    next
      case 3
      with run safe1 show ?thesis by (simp add: processed_def)
    qed
  qed
qed

end
