(* ===== verification/Session_Client.thy ===== *)
theory Session_Client
  imports Session_Data
begin

text \<open>
  The client side of a session: received bytes, the handshake, the connection to the target it
  starts and the output to the client keep the session invariant.
\<close>

section \<open>What the environment promises\<close>

text \<open>While the session lives, \<^verbatim>\<open>socket\<close> does not hand out the client's descriptor again and
  \<^verbatim>\<open>SSL_new\<close> not the client's connection.\<close>

definition fresh :: "os \<Rightarrow> trace \<Rightarrow> chan \<Rightarrow> bool" where
  "fresh os tr cc \<longleftrightarrow>
     (\<forall>fd. from_socket os tr fd \<longrightarrow> cc \<noteq> Chan_fd fd) \<and> (\<forall>h. from_ssl_new os tr h \<longrightarrow> cc \<noteq> Chan_ssl h)"

definition env_ok :: "env \<Rightarrow> trace \<Rightarrow> chan \<Rightarrow> bool" where
  "env_ok E tr cc \<longleftrightarrow> os_io (env_os E) \<and> length (env_garbage E) = 64 \<and> fresh (env_os E) tr cc"

lemma from_socket_append: "from_socket os (new @ tr) fd \<Longrightarrow> from_socket os tr fd"
  unfolding from_socket_def by (metis append.assoc)

lemma from_ssl_new_append: "from_ssl_new os (new @ tr) h \<Longrightarrow> from_ssl_new os tr h"
  unfolding from_ssl_new_def by (metis append.assoc)

lemma fresh_later:
  assumes "fresh os tr0 cc" and "flow cc tr0 tr F"
  shows "from_socket os tr fd \<Longrightarrow> cc \<noteq> Chan_fd fd" and "from_ssl_new os tr h \<Longrightarrow> cc \<noteq> Chan_ssl h"
  using assms unfolding fresh_def flow_def by (metis from_socket_append, metis from_ssl_new_append)

section \<open>Parts of the state the invariant does not read\<close>

lemmas inv_defs = base_inv_def chans_inv_def out_inv_def ws_inv_def fw_inv_def bw_inv_def pending_out_def

lemma safe_trace:
  "safe cc tr0 st F \<Longrightarrow> quiet (px_trace st) tr \<Longrightarrow> safe cc tr0 (st\<lparr>px_trace := tr\<rparr>) F"
  by (auto simp: safe_def intro: flow_quiet)

lemma px_time_safe:
  assumes "px_time E st = (t, st')" and "safe cc tr0 st F"
  shows "safe cc tr0 st' F" and "px_mem st' = px_mem st" and "px_server st' = px_server st"
proof -
  let ?r = "env_os E (px_trace st) Call_time"
  have st': "st' = st\<lparr>px_trace := (Call_time, ?r) # px_trace st\<rparr>"
    using assms(1) by (auto simp: px_time_def sys_eq)
  moreover have "quiet (px_trace st) ((Call_time, ?r) # px_trace st)" by (simp add: quiet_Cons)
  ultimately show "safe cc tr0 st' F" "px_mem st' = px_mem st" "px_server st' = px_server st"
    using safe_trace [OF assms(2)] by simp_all
qed

lemma session_touch_run:
  assumes "safe cc tr0 st F"
  obtains t where "safe cc tr0 (session_touch E a st) F"
    and "px_mem (session_touch E a st) = (px_mem st)(a := (px_mem st a)\<lparr>s_last_activity_at := t\<rparr>)"
    and "px_server (session_touch E a st) = px_server st"
proof -
  obtain t st1 where "px_time E st = (t, st1)" by (metis surj_pair)
  with px_time_safe [OF this assms] that [of t] show thesis
    by (simp add: session_touch_def) (simp add: upd_def)
qed

section \<open>The received bytes\<close>

lemma mid_open:
  "mid_inv a cc tr0 F h n st \<Longrightarrow> s_closing (px_mem st a) = 1 \<or> n = length (f_cin F) - h \<Longrightarrow>
     open_inv cc (px_mem st a) F"
  unfolding mid_inv_def open_inv_def by (metis zero_neq_one)

lemma process_ws_bytes_inv:
  assumes "mid_inv a cc tr0 F h n st" and "s_closing (px_mem st a) = 0"
    and "data = drop (h + n) (f_cin F)" and "length data \<le> room a st" and "length data < size_lim"
    and "session_process_ws_bytes E a data (length data) st = (rc, st')"
  shows "safe cc tr0 st' F"
    and "rc \<noteq> SOCKIFY_OK \<and> rc \<noteq> SOCKIFY_ERR_AGAIN \<or>
         s_handshake_done (px_mem st' a) \<and> open_inv cc (px_mem st' a) F"
proof -
  obtain r st1 where l: "process_ws_loop E a data (length data) 0 st = (r, st1)" by (metis surj_pair)
  have p: "processed a cc tr0 F h (r, st1)"
    using process_ws_loop_inv [of a cc tr0 F h n st 0 data E] assms(1-5) l by simp
  have run: "(rc, st') = (case r of Some rc' \<Rightarrow> (rc', st1)
      | None \<Rightarrow> if s_closing (px_mem st1 a) = 2 then (SOCKIFY_ERR_CLOSED, st1) else (SOCKIFY_OK, st1))"
    using assms(6) l by (simp add: session_process_ws_bytes_def split: option.splits)
  show "safe cc tr0 st' F"
    using p run by (auto simp: processed_def closed_def mid_inv_def split: option.splits if_splits)
  show "rc \<noteq> SOCKIFY_OK \<and> rc \<noteq> SOCKIFY_ERR_AGAIN \<or>
      s_handshake_done (px_mem st' a) \<and> open_inv cc (px_mem st' a) F"
    using p run mid_open [of a cc tr0 F h _ st1]
    by (auto simp: processed_def closed_def mid_inv_def split: option.splits if_splits)
qed

section \<open>Starting the connection to the target\<close>

text \<open>What starting the target leaves alone: everything but the target's descriptor, transport,
  registration and connect state.\<close>

lemma register_target_run:
  assumes "session_register_target E a st = (rc, st')" and "safe cc tr0 st F"
  obtains r where "safe cc tr0 st' F" and "px_mem st' a = (px_mem st a)\<lparr>s_target_registered := r\<rparr>"
proof (cases "s_target_registered (px_mem st a)")
  case True
  with assms that [of True] show thesis by (simp add: session_register_target_def)
next
  case False
  obtain rc1 st1 where l: "px_loop_add E (s_target_fd (px_mem st a)) SOCKIFY_EVENT_WRITE session_cb
      (Ud_side a SESSION_SIDE_TARGET) st = (rc1, st1)" by (metis surj_pair)
  have ok: "loop_ok (sv_loop (px_server st))" using assms(2) by (simp add: safe_def)
  note f = px_loop_add_flow [OF ok l]
  have s1: "safe cc tr0 st1 F" using assms(2) f by (auto simp: safe_def)
  have "(rc, st') = (if rc1 \<noteq> SOCKIFY_OK then (rc1, st1)
      else (SOCKIFY_OK, upd a (\<lambda>x. x\<lparr>s_target_registered := True\<rparr>) st1))"
    using assms(1) False l by (simp add: session_register_target_def)
  then show thesis using s1 f(3) False that [of False] that [of True] by (auto split: if_splits)
qed

lemma start_target_run:
  assumes "session_start_target E a st = (rc, st')" and "safe cc tr0 st F" and "chans_inv cc (px_mem st a)"
    and "fresh (env_os E) tr0 cc"
  obtains fd tp ip t r where "safe cc tr0 st' F" and "rc = SOCKIFY_OK \<longrightarrow> chans_inv cc (px_mem st' a)"
    and "px_mem st' a = (px_mem st a)\<lparr>s_target_fd := fd, s_target_transport := tp, s_target_connecting := ip,
       s_connect_started_at := t, s_target_registered := r\<rparr>"
proof (cases "s_target_fd (px_mem st a) = sockify_net_invalid_socket")
  case False
  then have "st' = st" using assms(1) by (simp add: session_start_target_def)
  with assms that [of "s_target_registered (px_mem st a)" "s_connect_started_at (px_mem st a)"
      "s_target_connecting (px_mem st a)" "s_target_transport (px_mem st a)" "s_target_fd (px_mem st a)"]
  show thesis by simp
next
  case True
  obtain rc1 fd ip tr where c: "sockify_net_connect (env_os E) (target_endpoint (px_config st)) (px_trace st) =
      (rc1, fd, ip, tr)" by (metis prod_cases4)
  note q = net_connect_quiet [OF c]
  define st1 where "st1 = upd a (\<lambda>x. x\<lparr>s_target_fd := fd\<rparr>) (st\<lparr>px_trace := tr\<rparr>)"
  have s1: "safe cc tr0 st1 F" using safe_trace [OF assms(2) q(1)] by (simp add: st1_def)
  show thesis
  proof (cases "rc1 = SOCKIFY_OK")
    case False
    then have "st' = st1" "rc = rc1" using assms(1) True c by (simp_all add: session_start_target_def st1_def)
    with False s1 that [of "s_target_registered (px_mem st a)" "s_connect_started_at (px_mem st a)"
        "s_target_connecting (px_mem st a)" "s_target_transport (px_mem st a)" fd]
    show thesis by (simp add: st1_def)
  next
    case ok: True
    define st1' where "st1' = upd a (\<lambda>x. x\<lparr>s_target_connecting := ip\<rparr>) st1"
    obtain t st2 where t: "px_time E st1' = (t, st2)" by (metis surj_pair)
    note s2 = px_time_safe [OF t, of cc tr0 F]
    let ?tp = "\<lparr>t_type = SOCKIFY_TRANSPORT_PLAIN, t_fd = fd, t_tls = None\<rparr>"
    define st3 where "st3 = upd a (\<lambda>x. x\<lparr>s_connect_started_at := t, s_target_transport := ?tp\<rparr>) st2"
    have reg: "session_register_target E a st3 = (rc, st')"
      using assms(1) True c ok t
      by (simp add: session_start_target_def st1_def [symmetric] st1'_def [symmetric]
          sockify_transport_init_plain_def st3_def)
    have s3: "safe cc tr0 st3 F" using s1 s2(1) by (simp add: st3_def st1'_def)
    obtain r where r: "safe cc tr0 st' F" "px_mem st' a = (px_mem st3 a)\<lparr>s_target_registered := r\<rparr>"
      using register_target_run [OF reg s3] by blast
    have m3: "px_mem st3 a = (px_mem st a)\<lparr>s_target_fd := fd, s_target_connecting := ip,
        s_connect_started_at := t, s_target_transport := ?tp\<rparr>"
      using s1 s2(2) by (simp add: st3_def st1'_def st1_def)
    have "Chan_fd fd \<noteq> cc"
      using fresh_later(1) [OF assms(4), of "px_trace st" F fd] assms(2) q(2) ok by (auto simp: safe_def)
    then have "chans_inv cc (px_mem st' a)"
      using assms(3) by (simp add: r m3 chans_inv_def transport_chan_def)
    with r m3 that [of r t ip ?tp fd] show thesis by simp
  qed
qed

section \<open>The handshake\<close>

text \<open>Between two events: the session is closed or its invariant holds.\<close>

definition settled :: "addr \<Rightarrow> chan \<Rightarrow> trace \<Rightarrow> flows \<Rightarrow> proxy \<Rightarrow> bool" where
  "settled a cc tr0 F st \<longleftrightarrow>
     safe cc tr0 st F \<and> (s_closing (px_mem st a) = 2 \<or> open_inv cc (px_mem st a) F)"

lemma sess_inv_settled: "sess_inv a cc tr0 st = (\<exists>F. settled a cc tr0 F st)"
  by (auto simp: sess_inv_def settled_def)

lemma close_settled: "safe cc tr0 st F \<Longrightarrow> settled a cc tr0 F (session_close E a st)"
  using session_close_closed by (auto simp: settled_def closed_def)

text \<open>What the invariant says while the head of the request is incomplete, for the bytes received
  before the last read.\<close>

definition hs_ready :: "sockify_proxy_session \<Rightarrow> flows \<Rightarrow> bool" where
  "hs_ready s F \<longleftrightarrow>
     f_cout F = [] \<and> f_tin F = [] \<and> f_tout F = [] \<and> s_closing s = 0 \<and>
     buffer_contents (s_client_to_target s) = [] \<and> buffer_contents (s_target_to_client s) = [] \<and>
     s_client_out_pos s = s_client_out_len s \<and> parser_inv (s_ws_parser s) \<and> parser_abs (s_ws_parser s) = A_Head1 0"

lemma answered_mid_inv:
  assumes "base_inv cc s" and "hs_ready s F" and "head_end (f_cin F) h" and "accept_key (take h (f_cin F)) k"
    and "safe cc tr0 st F" and "chans_inv cc (px_mem st a)"
    and "px_mem st a = s\<lparr>s_handshake := f_cin F, s_handshake_len := m, s_client_out := handshake_text k,
      s_client_out_len := length (handshake_text k), s_client_out_pos := 0, s_handshake_done := True,
      s_target_fd := fd, s_target_transport := tp, s_target_connecting := ip, s_connect_started_at := t,
      s_target_registered := r\<rparr>"
  shows "mid_inv a cc tr0 F h 0 st"
proof -
  have "frames_sent []" "binary_payload (map snd []) = []" by (simp_all add: frames_sent_def binary_payload_def)
  then have "bw_inv (px_mem st a) F h"
    unfolding bw_inv_def using assms(2,4)
    by (intro exI [of _ k] exI [of _ "[]"]) (simp add: assms(7) hs_ready_def pending_out_def)
  moreover have "fw_inv (px_mem st a) F h 0" using assms(2) by (simp add: fw_inv_def assms(7) hs_ready_def)
  moreover have "base_inv cc (px_mem st a)" using assms(1,6) by (simp add: base_inv_def out_inv_def assms(7))
  ultimately show ?thesis using assms(3,5) by (simp add: mid_inv_def ws_inv_def assms(7))
qed

text \<open>The code after a complete and acceptable request.\<close>

definition handshake_rest :: "env \<Rightarrow> addr \<Rightarrow> byte list \<Rightarrow> nat \<Rightarrow> proxy \<Rightarrow> proxy" where
  "handshake_rest E a request consumed st2 =
     (case session_start_target E a (upd a (\<lambda>x. x\<lparr>s_handshake_done := True\<rparr>) st2) of
        (rc2, st3) \<Rightarrow>
          if rc2 \<noteq> SOCKIFY_OK then session_close E a st3
          else if consumed < length request then
            (case session_process_ws_bytes E a (drop consumed request) (length request - consumed) st3 of
               (rc3, st4) \<Rightarrow>
                 if rc3 \<noteq> SOCKIFY_OK \<and> rc3 \<noteq> SOCKIFY_ERR_AGAIN then session_close E a st4
                 else upd a (\<lambda>x. x\<lparr>s_handshake_len := 0\<rparr>) st4)
          else upd a (\<lambda>x. x\<lparr>s_handshake_len := 0\<rparr>) st3)"

lemma open_inv_handshake_len:
  "s_handshake_done s \<Longrightarrow> open_inv cc (s\<lparr>s_handshake_len := m\<rparr>) F = open_inv cc s F"
  by (simp add: open_inv_def inv_defs)

lemma handshake_rest_inv:
  assumes "env_ok E tr0 cc" and "safe cc tr0 st F" and "base_inv cc s" and "hs_ready s F"
    and "head_end (f_cin F) h" and "accept_key (take h (f_cin F)) k"
    and "length (f_cin F) \<le> SOCKIFY_WS_MAX_HTTP_REQUEST"
    and "px_mem st a = s\<lparr>s_handshake := f_cin F, s_handshake_len := m, s_client_out := handshake_text k,
      s_client_out_len := length (handshake_text k), s_client_out_pos := 0\<rparr>"
  shows "settled a cc tr0 F (handshake_rest E a (f_cin F) h st)"
proof -
  define st2 where "st2 = upd a (\<lambda>x. x\<lparr>s_handshake_done := True\<rparr>) st"
  obtain rc2 st3 where t: "session_start_target E a st2 = (rc2, st3)" by (metis surj_pair)
  have s2: "safe cc tr0 st2 F" using assms(2) by (simp add: st2_def)
  have c2: "chans_inv cc (px_mem st2 a)" using assms(3) by (simp add: st2_def assms(8) base_inv_def chans_inv_def)
  have fr: "fresh (env_os E) tr0 cc" using assms(1) by (simp add: env_ok_def)
  obtain fd tp ip tm r where s3: "safe cc tr0 st3 F" and c3: "rc2 = SOCKIFY_OK \<longrightarrow> chans_inv cc (px_mem st3 a)"
    and m3: "px_mem st3 a = (px_mem st2 a)\<lparr>s_target_fd := fd, s_target_transport := tp, s_target_connecting := ip,
       s_connect_started_at := tm, s_target_registered := r\<rparr>"
    by (rule start_target_run [OF t s2 c2 fr]) (rule that)
  show ?thesis
  proof (cases "rc2 = SOCKIFY_OK")
    case False
    then show ?thesis using close_settled [OF s3] t by (simp add: handshake_rest_def st2_def)
  next
    case ok: True
    have mid: "mid_inv a cc tr0 F h 0 st3"
      by (rule answered_mid_inv [OF assms(3-6) s3 c3 [rule_format, OF ok]]) (simp add: m3 st2_def assms(8))
    have cl: "s_closing (px_mem st3 a) = 0" using assms(4) by (simp add: m3 st2_def assms(8) hs_ready_def)
    have h: "h \<le> length (f_cin F)" using head_end_le [OF assms(5)] .
    have b: "buffer_inv (s_client_to_target s)" "SOCKIFY_WS_MAX_HTTP_REQUEST \<le> b_capacity (s_client_to_target s)"
      using assms(3) by (simp_all add: base_inv_def)
    have room: "length (drop h (f_cin F)) \<le> room a st3"
      using assms(4,7) room_eq [OF b(1)] b(2) by (simp add: m3 st2_def assms(8) hs_ready_def)
    show ?thesis
    proof (cases "h < length (f_cin F)")
      case False
      then have "open_inv cc (px_mem st3 a) F" using mid_open [OF mid] h by simp
      moreover have "s_handshake_done (px_mem st3 a)" using mid by (simp add: mid_inv_def)
      ultimately show ?thesis
        using False ok t s3 by (simp add: handshake_rest_def st2_def settled_def open_inv_handshake_len)
    next
      case True
      obtain rc3 st4 where p: "session_process_ws_bytes E a (drop h (f_cin F)) (length (drop h (f_cin F))) st3 = (rc3, st4)"
        by (metis surj_pair)
      have "length (drop h (f_cin F)) < size_lim" using assms(7) by (simp add: size_lim_def)
      note q = process_ws_bytes_inv [OF mid cl _ room this p, simplified]
      have run: "handshake_rest E a (f_cin F) h st =
        (if rc3 \<noteq> SOCKIFY_OK \<and> rc3 \<noteq> SOCKIFY_ERR_AGAIN then session_close E a st4
         else upd a (\<lambda>x. x\<lparr>s_handshake_len := 0\<rparr>) st4)"
        using True ok t p by (simp add: handshake_rest_def st2_def)
      show ?thesis
      proof (cases "rc3 \<noteq> SOCKIFY_OK \<and> rc3 \<noteq> SOCKIFY_ERR_AGAIN")
        case True
        then show ?thesis using run close_settled [OF q(1)] by simp
      next
        case False
        with q(2) have "s_handshake_done (px_mem st4 a)" "open_inv cc (px_mem st4 a) F" by auto
        with False run q(1) show ?thesis by (auto simp: settled_def open_inv_handshake_len)
      qed
    qed
  qed
qed

lemma handshake_bytes_eq:
  assumes "s_handshake_len (px_mem st a) \<le> SOCKIFY_WS_MAX_HTTP_REQUEST"
    and "s_handshake_len (px_mem st a) = length (s_handshake (px_mem st a))"
    and "request = s_handshake (px_mem st a) @ data"
    and "st1 = upd a (\<lambda>x. x\<lparr>s_handshake := request, s_handshake_len := length request\<rparr>) st"
    and "s_client_out_len (px_mem st a) = s_client_out_pos (px_mem st a)"
    and "sockify_ws_build_handshake_response_ex (env_garbage E) (Some request) (length request) False 256 =
      (rc, rlen, consumed, response)" and "rlen \<le> s_client_out_capacity (px_mem st a)" and "rlen \<noteq> 0 \<or> rc \<noteq> SOCKIFY_OK"
  shows "session_handle_handshake_bytes E a data (length data) st =
    (if length request > SOCKIFY_WS_MAX_HTTP_REQUEST then session_close E a st
     else if rc = SOCKIFY_ERR_AGAIN then st1
     else if rc \<noteq> SOCKIFY_OK then session_close E a st1
     else handshake_rest E a request consumed
       (upd a (\<lambda>x. x\<lparr>s_client_out := take rlen response, s_client_out_len := rlen, s_client_out_pos := 0\<rparr>) st1))"
proof -
  have av: "(length data > sz_sub SOCKIFY_WS_MAX_HTTP_REQUEST (s_handshake_len (px_mem st a))) =
      (length request > SOCKIFY_WS_MAX_HTTP_REQUEST)"
    using assms(1-3) by (auto simp: sz_sub_id size_lim_def)
  have req: "take (s_handshake_len (px_mem st a)) (s_handshake (px_mem st a)) @ take (length data) data = request"
    "s_handshake_len (px_mem st a) + length data = length request"
    using assms(2,3) by simp_all
  show ?thesis
    using assms(4-8) unfolding session_handle_handshake_bytes_def Let_def av req
    by (auto simp: session_set_client_out_def Let_def handshake_rest_def)
qed

lemma handshake_bytes_inv:
  assumes "env_ok E tr0 cc" and "safe cc tr0 st F" and "base_inv cc (px_mem st a)" and "hs_inv (px_mem st a) F0"
    and "\<not> s_handshake_done (px_mem st a)" and "F = F0\<lparr>f_cin := f_cin F0 @ bytes\<rparr>"
  shows "settled a cc tr0 F (session_handle_handshake_bytes E a bytes (length bytes) st)"
proof -
  let ?s = "px_mem st a"
  obtain rc rlen consumed response where b: "sockify_ws_build_handshake_response_ex (env_garbage E) (Some (f_cin F))
      (length (f_cin F)) False 256 = (rc, rlen, consumed, response)" by (metis prod_cases4)
  define st1 where "st1 = upd a (\<lambda>x. x\<lparr>s_handshake := f_cin F, s_handshake_len := length (f_cin F)\<rparr>) st"
  have hs: "s_handshake_len ?s = length (s_handshake ?s)" "s_handshake_len ?s \<le> SOCKIFY_WS_MAX_HTTP_REQUEST"
    "f_cin F = s_handshake ?s @ bytes" "s_client_out_len ?s = s_client_out_pos ?s"
    and rdy: "hs_ready ?s F" and cap: "s_client_out_capacity ?s = SOCKIFY_PROXY_IO_CHUNK + 14"
    using assms(3,4,6) by (simp_all add: hs_inv_def hs_ready_def base_inv_def out_inv_def)
  have s1: "safe cc tr0 st1 F" using assms(2) by (simp add: st1_def)
  show ?thesis
  proof (cases "length (f_cin F) > SOCKIFY_WS_MAX_HTTP_REQUEST")
    case True
    then have "session_handle_handshake_bytes E a bytes (length bytes) st = session_close E a st"
      using hs by (simp add: session_handle_handshake_bytes_def Let_def sz_sub_id size_lim_def)
    then show ?thesis using close_settled [OF assms(2)] by simp
  next
    case False
    then have le: "length (f_cin F) \<le> SOCKIFY_WS_MAX_HTTP_REQUEST" by simp
    then show ?thesis
    proof (cases rule: find_header_end_cases)
      case (1 h)
      have g: "length (env_garbage E) = 64" using assms(1) by (simp add: env_ok_def)
      note resp = build_response_run [OF g 1(1,2), of 256]
      have run: "(rc, rlen, consumed, response) = respond (upgrade_key (take h (f_cin F))) h 256"
        using b resp by simp
      have rl: "rlen \<le> s_client_out_capacity ?s" "rlen \<noteq> 0 \<or> rc \<noteq> SOCKIFY_OK" "rc \<noteq> SOCKIFY_ERR_AGAIN"
        using run cap by (auto simp: respond_def length_handshake_text Let_def split: option.splits if_splits)
      note eq = handshake_bytes_eq [OF hs(2,1,3) st1_def hs(4) b rl(1,2)]
      show ?thesis
      proof (cases "rc = SOCKIFY_OK")
        case False
        then show ?thesis using eq rl(3) le close_settled [OF s1] by simp
      next
        case ok: True
        then obtain key k where k: "upgrade_key (take h (f_cin F)) = Some key" "k = takeWhile (\<lambda>c. c \<noteq> 0) key"
          "rlen = length (handshake_text k)" "consumed = h" "response = handshake_text k @ [0]"
          using run by (auto simp: respond_def Let_def split: option.splits if_splits)
        then have ak: "accept_key (take h (f_cin F)) k" by (auto simp: accept_key_def)
        define st2 where "st2 = upd a (\<lambda>x. x\<lparr>s_client_out := take rlen response, s_client_out_len := rlen,
            s_client_out_pos := 0\<rparr>) st1"
        have "settled a cc tr0 F (handshake_rest E a (f_cin F) h st2)"
          by (rule handshake_rest_inv [OF assms(1) _ assms(3) rdy 1(2) ak le])
            (use s1 k in \<open>simp_all add: st2_def st1_def\<close>)
        then show ?thesis using eq ok le k(4) by (simp add: st2_def)
      qed
    next
      case 2
      then have r: "rc = SOCKIFY_ERR_AGAIN" "rlen = 0"
        using b by (auto simp: sockify_ws_build_handshake_response_ex_def)
      have eq: "session_handle_handshake_bytes E a bytes (length bytes) st = st1"
        using handshake_bytes_eq [OF hs(2,1,3) st1_def hs(4) b] r le by simp
      have "hs_inv (px_mem st1 a) F" using assms(4,6) 2(2) le by (simp add: hs_inv_def st1_def)
      moreover have "base_inv cc (px_mem st1 a)" using assms(3) by (simp add: st1_def inv_defs)
      ultimately show ?thesis
        unfolding eq using s1 assms(5) by (simp add: settled_def open_inv_def) (simp add: st1_def)
    qed
  qed
qed

end
