(* ===== verification/Session_Io.thy ===== *)
theory Session_Io
  imports Session_Client
begin

text \<open>
  The four loops of a session that move bytes: from the client, to the client, from the target and
  to the target.
\<close>

section \<open>From the client\<close>

lemma safe_more_client:
  assumes "safe cc tr0 st F" and "io_effect (Some cc) (px_trace st) tr bytes []"
  shows "safe cc tr0 (st\<lparr>px_trace := tr\<rparr>) (F\<lparr>f_cin := f_cin F @ bytes\<rparr>)"
  using flow_client [OF _ assms(2), of tr0 F] assms(1) fw_ok_more bw_ok_more by (simp add: safe_def)

lemma ws_inv_more:
  assumes "ws_inv s F h n"
  shows "ws_inv s (F\<lparr>f_cin := f_cin F @ bytes\<rparr>) h n"
proof -
  have h: "h \<le> length (f_cin F)" "n \<le> length (f_cin F) - h"
    using assms head_end_le by (auto simp: ws_inv_def fw_inv_def)
  then have "take n (drop h (f_cin F @ bytes)) = take n (drop h (f_cin F))" "take h (f_cin F @ bytes) = take h (f_cin F)"
    by simp_all
  with assms h head_end_append show ?thesis by (auto simp: ws_inv_def fw_inv_def bw_inv_def)
qed

text \<open>The fields the invariants do not read, and transports, of which they read the stream only.\<close>

lemma ws_inv_frame [simp]:
  "ws_inv (s\<lparr>s_client_transport := tp\<rparr>) F h n = ws_inv s F h n"
  "ws_inv (s\<lparr>s_target_transport := tp\<rparr>) F h n = ws_inv s F h n"
  "ws_inv (s\<lparr>s_last_activity_at := t\<rparr>) F h n = ws_inv s F h n"
  "ws_inv (s\<lparr>s_connect_started_at := t\<rparr>) F h n = ws_inv s F h n"
  "ws_inv (s\<lparr>s_target_connecting := b\<rparr>) F h n = ws_inv s F h n"
  "ws_inv (s\<lparr>s_client_tls_ready := b\<rparr>) F h n = ws_inv s F h n"
  "ws_inv (s\<lparr>s_target_tls_ready := b\<rparr>) F h n = ws_inv s F h n"
  "ws_inv (s\<lparr>s_pending_close := b\<rparr>) F h n = ws_inv s F h n"
  by (simp_all add: inv_defs)

lemma hs_inv_frame [simp]:
  "hs_inv (s\<lparr>s_client_transport := tp\<rparr>) F = hs_inv s F"
  "hs_inv (s\<lparr>s_target_transport := tp\<rparr>) F = hs_inv s F"
  "hs_inv (s\<lparr>s_last_activity_at := t\<rparr>) F = hs_inv s F"
  "hs_inv (s\<lparr>s_connect_started_at := t\<rparr>) F = hs_inv s F"
  "hs_inv (s\<lparr>s_target_connecting := b\<rparr>) F = hs_inv s F"
  "hs_inv (s\<lparr>s_client_tls_ready := b\<rparr>) F = hs_inv s F"
  "hs_inv (s\<lparr>s_target_tls_ready := b\<rparr>) F = hs_inv s F"
  by (simp_all add: hs_inv_def)

lemma base_inv_frame [simp]:
  "base_inv cc (s\<lparr>s_last_activity_at := t\<rparr>) = base_inv cc s"
  "base_inv cc (s\<lparr>s_connect_started_at := t\<rparr>) = base_inv cc s"
  "base_inv cc (s\<lparr>s_target_connecting := b\<rparr>) = base_inv cc s"
  "base_inv cc (s\<lparr>s_client_tls_ready := b\<rparr>) = base_inv cc s"
  "base_inv cc (s\<lparr>s_target_tls_ready := b\<rparr>) = base_inv cc s"
  "base_inv cc (s\<lparr>s_pending_close := b\<rparr>) = base_inv cc s"
  by (simp_all add: inv_defs)

lemma base_inv_transport:
  "transport_chan tp = Some cc \<Longrightarrow> base_inv cc s \<Longrightarrow> base_inv cc (s\<lparr>s_client_transport := tp\<rparr>)"
  "transport_chan tp = Some tc \<Longrightarrow> tc \<noteq> cc \<Longrightarrow> base_inv cc s \<Longrightarrow> base_inv cc (s\<lparr>s_target_transport := tp\<rparr>)"
  by (simp_all add: inv_defs)

lemma open_inv_frame [simp]:
  "open_inv cc (s\<lparr>s_last_activity_at := t\<rparr>) F = open_inv cc s F"
  "open_inv cc (s\<lparr>s_connect_started_at := t\<rparr>) F = open_inv cc s F"
  "open_inv cc (s\<lparr>s_target_connecting := b\<rparr>) F = open_inv cc s F"
  "open_inv cc (s\<lparr>s_client_tls_ready := b\<rparr>) F = open_inv cc s F"
  "open_inv cc (s\<lparr>s_target_tls_ready := b\<rparr>) F = open_inv cc s F"
  by (simp_all add: open_inv_def)

lemma open_inv_transport:
  "transport_chan tp = Some cc \<Longrightarrow> open_inv cc s F \<Longrightarrow> open_inv cc (s\<lparr>s_client_transport := tp\<rparr>) F"
  "transport_chan tp = Some tc \<Longrightarrow> tc \<noteq> cc \<Longrightarrow> open_inv cc s F \<Longrightarrow> open_inv cc (s\<lparr>s_target_transport := tp\<rparr>) F"
  using base_inv_transport by (simp_all add: open_inv_def)

text \<open>One turn of the read loop, after the read.\<close>

definition read_client_turn :: "nat \<Rightarrow> env \<Rightarrow> addr \<Rightarrow> sockify_rc \<Rightarrow> byte list \<Rightarrow> proxy \<Rightarrow> proxy" where
  "read_client_turn n E a rc bytes st1 =
     (let st2 = session_touch E a st1; st3 = session_handle_handshake_bytes E a bytes (length bytes) st2
      in if rc = SOCKIFY_ERR_AGAIN then st1 else if rc \<noteq> SOCKIFY_OK then session_close E a st1
         else if \<not> s_handshake_done (px_mem st2 a) then
           if \<not> s_handshake_done (px_mem st3 a) \<or> s_closing (px_mem st3 a) = 2 then st3
           else if sockify_buffer_is_high (s_client_to_target (px_mem st3 a)) then st3
           else read_client_loop n E a st3
         else
           (case session_process_ws_bytes E a bytes (length bytes) st2 of
              (rc2, st3) \<Rightarrow>
                if rc2 \<noteq> SOCKIFY_OK \<and> rc2 \<noteq> SOCKIFY_ERR_AGAIN then session_close E a st3
                else if sockify_buffer_is_high (s_client_to_target (px_mem st3 a)) then st3
                else read_client_loop n E a st3))"

lemma read_client_step:
  assumes "s_closing (px_mem st a) = 0"
    and "lim = (if s_handshake_done (px_mem st a) then min_size SOCKIFY_PROXY_IO_CHUNK (room a st)
      else SOCKIFY_PROXY_IO_CHUNK)" and "lim \<noteq> 0"
    and "sockify_transport_read (env_tls E) (env_os E) (s_client_transport (px_mem st a)) lim (px_trace st) =
      (rc, bytes, tp, tr)"
    and "st1 = upd a (\<lambda>x. x\<lparr>s_client_transport := tp\<rparr>) (st\<lparr>px_trace := tr\<rparr>)"
  shows "read_client_loop (Suc n) E a st = read_client_turn n E a rc bytes st1"
  using assms(1,3,4) unfolding read_client_turn_def assms(5)
  by (simp add: Let_def assms(2) [symmetric] del: min_size_min)

lemma read_client_loop_inv:
  assumes "env_ok E tr0 cc" and "settled a cc tr0 F st"
  shows "\<exists>F. settled a cc tr0 F (read_client_loop n E a st)"
  using assms(2)
proof (induction n arbitrary: st F)
  case 0
  then show ?case by auto
next
  case (Suc n)
  let ?s = "px_mem st a"
  define lim where "lim = (if s_handshake_done ?s then min_size SOCKIFY_PROXY_IO_CHUNK (room a st) else SOCKIFY_PROXY_IO_CHUNK)"
  show ?case
  proof (cases "s_closing ?s \<noteq> 0 \<or> lim = 0")
    case True
    then have "read_client_loop (Suc n) E a st = st" by (auto simp: Let_def lim_def)
    then show ?thesis using Suc.prems by auto
  next
    case False
    have op: "open_inv cc ?s F" and sf: "safe cc tr0 st F" using Suc.prems False by (auto simp: settled_def)
    obtain rc bytes tp tr where rd: "sockify_transport_read (env_tls E) (env_os E) (s_client_transport ?s) lim
        (px_trace st) = (rc, bytes, tp, tr)" by (metis prod_cases4)
    have ch: "transport_chan (s_client_transport ?s) = Some cc"
      using op by (simp add: open_inv_def base_inv_def chans_inv_def)
    have io: "io_effect (Some cc) (px_trace st) tr bytes []" "length bytes \<le> lim"
      "(rc = SOCKIFY_OK) = (bytes \<noteq> [])" "transport_chan tp = Some cc"
      using transport.rd_law [OF _ rd] assms(1) ch by (simp_all add: env_ok_def)
    define G where "G = F\<lparr>f_cin := f_cin F @ bytes\<rparr>"
    define st1 where "st1 = upd a (\<lambda>x. x\<lparr>s_client_transport := tp\<rparr>) (st\<lparr>px_trace := tr\<rparr>)"
    let ?st2 = "session_touch E a st1"
    let ?st3 = "session_handle_handshake_bytes E a bytes (length bytes) ?st2"
    have step: "read_client_loop (Suc n) E a st = read_client_turn n E a rc bytes st1"
      using read_client_step [OF _ lim_def _ rd st1_def] False by simp
    note turn = step [unfolded read_client_turn_def Let_def]
    have s1: "safe cc tr0 st1 G" using safe_more_client [OF sf io(1)] by (simp add: st1_def G_def)
    obtain t where s2: "safe cc tr0 (session_touch E a st1) G"
      and m2: "px_mem (session_touch E a st1) = (px_mem st1)(a := (px_mem st1 a)\<lparr>s_last_activity_at := t\<rparr>)"
      by (rule session_touch_run [OF s1]) (rule that)
    have ma: "px_mem ?st2 a = ?s\<lparr>s_client_transport := tp, s_last_activity_at := t\<rparr>"
      using m2 by (simp add: st1_def)
    have b2: "base_inv cc (px_mem ?st2 a)"
      using base_inv_transport(1) [OF io(4)] op by (simp add: ma open_inv_def)
    consider (again) "rc = SOCKIFY_ERR_AGAIN" | (fail) "rc \<noteq> SOCKIFY_OK" "rc \<noteq> SOCKIFY_ERR_AGAIN"
      | (head) "rc = SOCKIFY_OK" "\<not> s_handshake_done ?s" | (data) "rc = SOCKIFY_OK" "s_handshake_done ?s"
      by blast
    then show ?thesis
    proof cases
      case again
      have "G = F" using again io(3) by (simp add: G_def)
      then show ?thesis
        using turn again s1 open_inv_transport(1) [OF io(4) op] by (auto simp: settled_def st1_def)
    next
      case fail
      then show ?thesis using turn close_settled [OF s1] by auto
    next
      case head
      have "hs_inv ?s F" using op head by (simp add: open_inv_def)
      then have "hs_inv (px_mem ?st2 a) F" by (simp add: ma)
      then have s3: "settled a cc tr0 G ?st3"
        using handshake_bytes_inv [OF assms(1) s2 b2 _ _ G_def] head by (simp add: ma)
      show ?thesis using turn head ma s3 Suc.IH [OF s3] by auto
    next
      case data
      obtain h where h: "ws_inv ?s F h (length (f_cin F) - h)"
        using op data False by (auto simp: open_inv_def)
      have ws: "ws_inv (px_mem ?st2 a) G h (length (f_cin F) - h)"
        using ws_inv_more [OF h, of bytes] by (simp add: ma G_def)
      then have mid: "mid_inv a cc tr0 G h (length (f_cin F) - h) ?st2"
        using s2 b2 data by (simp add: mid_inv_def ma)
      have hl: "h \<le> length (f_cin F)" using h head_end_le by (auto simp: ws_inv_def)
      have cl: "s_closing (px_mem ?st2 a) = 0" using False by (simp add: ma)
      have dt: "bytes = drop (h + (length (f_cin F) - h)) (f_cin G)" using hl by (simp add: G_def)
      have rm: "length bytes \<le> room a ?st2" "length bytes < size_lim"
        using io(2) data by (simp_all add: lim_def ma size_lim_def)
      obtain rc2 st3 where p: "session_process_ws_bytes E a bytes (length bytes) ?st2 = (rc2, st3)" by (metis surj_pair)
      note q = process_ws_bytes_inv [OF mid cl dt rm p]
      have run: "read_client_loop (Suc n) E a st =
        (if rc2 \<noteq> SOCKIFY_OK \<and> rc2 \<noteq> SOCKIFY_ERR_AGAIN then session_close E a st3
         else if sockify_buffer_is_high (s_client_to_target (px_mem st3 a)) then st3
         else read_client_loop n E a st3)"
        using turn data ma p by simp
      show ?thesis
      proof (cases "rc2 \<noteq> SOCKIFY_OK \<and> rc2 \<noteq> SOCKIFY_ERR_AGAIN")
        case True
        then show ?thesis using run close_settled [OF q(1)] by auto
      next
        case no: False
        with q have s3: "settled a cc tr0 G st3" by (auto simp: settled_def)
        show ?thesis using run no s3 Suc.IH [OF s3] by auto
      qed
    qed
  qed
qed

lemma open_wsI:
  "base_inv cc s \<Longrightarrow> s_handshake_done s \<Longrightarrow> ws_inv s F h n \<Longrightarrow>
     s_closing s = 0 \<longrightarrow> n = length (f_cin F) - h \<Longrightarrow> open_inv cc s F"
  unfolding open_inv_def by metis

section \<open>To the client\<close>

lemma bw_ok_sent:
  assumes "bw_inv s F h" and "head_end (f_cin F) h" and "prefix x (pending_out s)"
  shows "bw_ok (F\<lparr>f_cout := f_cout F @ x\<rparr>)"
proof -
  obtain k fs where k: "accept_key (take h (f_cin F)) k" "frames_sent fs"
    "f_cout F @ pending_out s = handshake_text k @ concat (map fst fs)"
    "binary_payload (map snd fs) @ buffer_contents (s_target_to_client s) = f_tin F"
    using assms(1) by (auto simp: bw_inv_def)
  have "prefix (f_cout F @ x) (f_cout F @ pending_out s)" using assms(3) by simp
  with k assms(2) show ?thesis
    unfolding bw_ok_def by (intro disjI2 exI [of _ h] exI [of _ k] exI [of _ fs]) (simp, metis prefixI)
qed

text \<open>Sending the first \<open>k\<close> pending bytes.\<close>

lemma send_client_inv:
  assumes "safe cc tr0 st F" and "open_inv cc (px_mem st a) F" and "s_handshake_done (px_mem st a)"
    and "io_effect (Some cc) (px_trace st) tr [] (take k (pending_out (px_mem st a)))"
    and "k \<le> length (pending_out (px_mem st a))" and "transport_chan tp = Some cc"
    and "G = F\<lparr>f_cout := f_cout F @ take k (pending_out (px_mem st a))\<rparr>"
    and "st' = upd a (\<lambda>x. x\<lparr>s_client_transport := tp, s_client_out_pos := s_client_out_pos x + k\<rparr>) (st\<lparr>px_trace := tr\<rparr>)"
  shows "safe cc tr0 st' G" and "open_inv cc (px_mem st' a) G"
proof -
  let ?s = "px_mem st a"
  obtain h n where w: "ws_inv ?s F h n" "s_closing ?s = 0 \<longrightarrow> n = length (f_cin F) - h"
    using assms(2,3) by (auto simp: open_inv_def)
  have o: "out_inv ?s" using assms(2) by (simp add: open_inv_def base_inv_def)
  have pend: "pending_out ?s = take k (pending_out ?s) @ pending_out (px_mem st' a)"
    unfolding assms(8) by (simp add: pending_out_def del: drop_drop) (metis append_take_drop_id add.commute drop_drop)
  have "bw_inv (px_mem st' a) G h"
    using w(1) pend unfolding ws_inv_def bw_inv_def assms(7,8) by auto
  moreover have "fw_inv (px_mem st' a) G h n" using w(1) by (simp add: ws_inv_def fw_inv_def assms(7,8))
  ultimately have w': "ws_inv (px_mem st' a) G h n" using w(1) by (simp add: ws_inv_def assms(7))
  have "s_client_out_pos ?s + k \<le> s_client_out_len ?s" using assms(5) o by (auto simp: pending_out_def out_inv_def)
  then have "base_inv cc (px_mem st' a)"
    using assms(2,6) by (simp add: open_inv_def inv_defs assms(8))
  with w' w(2) show "open_inv cc (px_mem st' a) G"
    using assms(3) open_wsI [of cc "px_mem st' a" G h n] by (simp add: assms(7,8))
  have "flow cc tr0 tr G"
    using flow_client [OF _ assms(4), of tr0 F] assms(1) by (simp add: safe_def assms(7))
  moreover have "bw_ok G" unfolding assms(7)
    using bw_ok_sent [of ?s F h] w(1) by (simp add: ws_inv_def take_is_prefix)
  ultimately show "safe cc tr0 st' G" using assms(1) by (simp add: safe_def assms(8)) (simp add: assms(7) fw_ok_def)
qed

lemma write_client_loop_inv:
  assumes "env_ok E tr0 cc" and "safe cc tr0 st F" and "open_inv cc (px_mem st a) F"
    and "write_client_loop n E a st = (returned, st')"
  shows "\<exists>F. safe cc tr0 st' F \<and> (open_inv cc (px_mem st' a) F \<or> returned \<and> s_closing (px_mem st' a) = 2)"
  using assms(2-4)
proof (induction n arbitrary: st F)
  case 0
  then show ?case by auto
next
  case (Suc n)
  let ?s = "px_mem st a"
  show ?case
  proof (cases "s_client_out_pos ?s < s_client_out_len ?s")
    case False
    then show ?thesis using Suc.prems by auto
  next
    case True
    then have dn: "s_handshake_done ?s" using Suc.prems(2) by (auto simp: open_inv_def hs_inv_def split: if_splits)
    have pend: "take (s_client_out_len ?s - s_client_out_pos ?s) (drop (s_client_out_pos ?s) (s_client_out ?s)) =
        pending_out ?s" by (simp add: pending_out_def drop_take)
    obtain rc k tp tr where wr: "sockify_transport_write (env_tls E) (env_os E) (s_client_transport ?s)
        (pending_out ?s) (px_trace st) = (rc, k, tp, tr)" by (metis prod_cases4)
    have ch: "transport_chan (s_client_transport ?s) = Some cc"
      using Suc.prems(2) by (simp add: open_inv_def base_inv_def chans_inv_def)
    have io: "io_effect (Some cc) (px_trace st) tr [] (take k (pending_out ?s))" "k \<le> length (pending_out ?s)"
      "transport_chan tp = Some cc" "rc \<noteq> SOCKIFY_OK \<longrightarrow> k = 0"
      using transport.wr_law [OF _ wr] assms(1) ch by (simp_all add: env_ok_def)
    define st1 where "st1 = upd a (\<lambda>x. x\<lparr>s_client_transport := tp\<rparr>) (st\<lparr>px_trace := tr\<rparr>)"
    define st2 where "st2 = upd a (\<lambda>x. x\<lparr>s_client_out_pos := s_client_out_pos x + k\<rparr>) st1"
    define G where "G = F\<lparr>f_cout := f_cout F @ take k (pending_out ?s)\<rparr>"
    have st2: "st2 = upd a (\<lambda>x. x\<lparr>s_client_transport := tp, s_client_out_pos := s_client_out_pos x + k\<rparr>) (st\<lparr>px_trace := tr\<rparr>)"
      by (simp add: st2_def st1_def upd_def)
    note inv = send_client_inv [OF Suc.prems(1,2) dn io(1-3) G_def st2]
    have step: "write_client_loop (Suc n) E a st =
      (if rc = SOCKIFY_ERR_AGAIN then (True, st1) else if rc \<noteq> SOCKIFY_OK then (True, session_close E a st1)
       else write_client_loop n E a (if k \<noteq> 0 then session_touch E a st2 else st2))"
      using True wr pend by (simp add: Let_def st1_def st2_def)
    show ?thesis
    proof (cases "rc = SOCKIFY_OK")
      case False
      then have "st2 = st1" using io(4) by (simp add: st2_def st1_def upd_def)
      with inv False step Suc.prems(3) close_settled [of cc tr0 st1 G a E] show ?thesis
        by (auto simp: settled_def split: if_splits)
    next
      case ok: True
      obtain t where "safe cc tr0 (session_touch E a st2) G"
        "px_mem (session_touch E a st2) = (px_mem st2)(a := (px_mem st2 a)\<lparr>s_last_activity_at := t\<rparr>)"
        by (rule session_touch_run [OF inv(1)]) (rule that)
      with inv have "safe cc tr0 (if k \<noteq> 0 then session_touch E a st2 else st2) G"
        "open_inv cc (px_mem (if k \<noteq> 0 then session_touch E a st2 else st2) a) G" by auto
      from Suc.IH [OF this] step ok Suc.prems(3) show ?thesis by simp
    qed
  qed
qed

lemma queue_frame_inv:
  assumes "safe cc tr0 st F" and "base_inv cc (px_mem st a)" and "s_handshake_done (px_mem st a)"
    and "ws_inv s F h n" and "s_closing (px_mem st a) = 0 \<longrightarrow> n = length (f_cin F) - h"
    and "pending_out s = []" and "pending_out (px_mem st a) = []"
    and "s_ws_parser (px_mem st a) = s_ws_parser s" and "s_client_to_target (px_mem st a) = s_client_to_target s"
    and "buffer_contents (s_target_to_client s) =
      (if op = SOCKIFY_WS_OPCODE_BINARY then take m (ptr_bytes p) @ buffer_contents (s_target_to_client (px_mem st a))
       else buffer_contents (s_target_to_client (px_mem st a)))"
    and "session_make_ws_frame a op p m st = (SOCKIFY_OK, st')"
    and "m \<le> length (ptr_bytes p)" and "m \<le> SOCKIFY_PROXY_IO_CHUNK"
  shows "safe cc tr0 st' F" and "open_inv cc (px_mem st' a) F" and "s_handshake_done (px_mem st' a)"
proof -
  have o: "out_inv (px_mem st a)" using assms(2) by (simp add: base_inv_def)
  obtain out where out: "frame_of out op (take m (ptr_bytes p))"
    and st': "st' = upd a (\<lambda>x. x\<lparr>s_client_out := out, s_client_out_len := length out, s_client_out_pos := 0\<rparr>) st"
    using make_ws_frame_run(2) [OF assms(11) o assms(12,13)] by auto
  have bw: "bw_inv s F h" and fw: "fw_inv s F h n" and he: "head_end (f_cin F) h"
    using assms(4) by (simp_all add: ws_inv_def)
  have "bw_inv (px_mem st' a) F h"
    by (rule bw_inv_frame [OF bw assms(6) out]) (simp_all add: st' assms(10) pending_out_def)
  moreover have "fw_inv (px_mem st' a) F h n" using fw assms(8,9) by (simp add: fw_inv_def st')
  moreover have "base_inv cc (px_mem st' a)" using assms(2) by (simp add: inv_defs st')
  ultimately show "open_inv cc (px_mem st' a) F"
    using he assms(3,5) open_wsI [of cc "px_mem st' a" F h n] by (simp add: ws_inv_def st')
  show "safe cc tr0 st' F" "s_handshake_done (px_mem st' a)" using assms(1,3) by (simp_all add: st')
qed

lemma write_client_next_inv:
  assumes "safe cc tr0 st F" and "open_inv cc (px_mem st a) F"
    and "\<not> s_client_out_pos (px_mem st a) < s_client_out_len (px_mem st a)"
  shows "settled a cc tr0 F (write_client_next E a st)"
proof -
  let ?s = "px_mem st a"
  define st1 where "st1 = upd a (\<lambda>x. x\<lparr>s_client_out_len := 0, s_client_out_pos := 0\<rparr>) st"
  let ?s1 = "px_mem st1 a"
  have pe: "pending_out ?s = []" "pending_out ?s1 = []" using assms(3) by (simp_all add: pending_out_def st1_def)
  have s1: "safe cc tr0 st1 F" using assms(1) by (simp add: st1_def)
  have b1: "base_inv cc ?s1" using assms(2) by (simp add: open_inv_def inv_defs st1_def)
  have "ws_inv ?s1 F h n = ws_inv ?s F h n" for h n using pe by (simp add: ws_inv_def fw_inv_def bw_inv_def) (simp add: st1_def)
  moreover have "hs_inv ?s F \<Longrightarrow> hs_inv ?s1 F" by (simp add: hs_inv_def st1_def)
  ultimately have op1: "open_inv cc ?s1 F"
    using assms(2) b1 by (simp add: open_inv_def split: if_splits) (simp_all add: st1_def)
  define pc where "pc = session_make_ws_frame a SOCKIFY_WS_OPCODE_CLOSE (Some (s_pending_close_payload ?s1))
      (s_pending_close_payload_len ?s1) st1"
  have o1: "out_inv ?s1" using b1 by (simp add: base_inv_def)
  consider (close) "s_pending_close ?s1" | (over) "\<not> s_pending_close ?s1" "s_closing ?s1 \<noteq> 0"
    | (data) "\<not> s_pending_close ?s1" "s_closing ?s1 = 0" "s_handshake_done ?s1"
        "sockify_buffer_readable (s_target_to_client ?s1) \<noteq> 0"
    | (idle) "\<not> s_pending_close ?s1" "s_closing ?s1 = 0"
        "\<not> (s_handshake_done ?s1 \<and> sockify_buffer_readable (s_target_to_client ?s1) \<noteq> 0)" by blast
  then show ?thesis
  proof cases
    case close
    then have dn: "s_handshake_done ?s1" using op1 by (auto simp: open_inv_def hs_inv_def split: if_splits)
    then obtain h n where w: "ws_inv ?s1 F h n" "s_closing ?s1 = 0 \<longrightarrow> n = length (f_cin F) - h"
      using op1 by (auto simp: open_inv_def)
    obtain rc st2 where f: "session_make_ws_frame a SOCKIFY_WS_OPCODE_CLOSE (Some (s_pending_close_payload ?s1))
      (s_pending_close_payload_len ?s1) st1 = (rc, st2)" by (metis surj_pair)
    have le: "s_pending_close_payload_len ?s1 \<le> length (ptr_bytes (Some (s_pending_close_payload ?s1)))"
      "s_pending_close_payload_len ?s1 \<le> SOCKIFY_PROXY_IO_CHUNK" using o1 by (simp_all add: out_inv_def)
    have run: "write_client_next E a st = (if rc = SOCKIFY_OK then upd a (\<lambda>x. x\<lparr>s_pending_close := False\<rparr>) st2 else st2)"
      using close f by (simp add: write_client_next_def Let_def st1_def [symmetric])
    show ?thesis
    proof (cases "rc = SOCKIFY_OK")
      case False
      then have "st2 = st1" using make_ws_frame_run(1) [OF f o1 le] by simp
      then show ?thesis using run False s1 op1 by (simp add: settled_def)
    next
      case True
      have q: "safe cc tr0 st2 F" "open_inv cc (px_mem st2 a) F" "s_handshake_done (px_mem st2 a)"
        using queue_frame_inv [OF s1 b1 dn w pe(2) pe(2) refl refl _ f [unfolded True] le] by simp_all
      then have "open_inv cc ((px_mem st2 a)\<lparr>s_pending_close := False\<rparr>) F"
        by (simp add: open_inv_def)
      with q(1) show ?thesis using run True by (simp add: settled_def)
    qed
  next
    case over
    then have "write_client_next E a st = session_close E a st1"
      by (simp add: write_client_next_def Let_def st1_def [symmetric])
    then show ?thesis using close_settled [OF s1] by simp
  next
    case idle
    then have "write_client_next E a st = st1"
      by (auto simp: write_client_next_def Let_def st1_def [symmetric])
    then show ?thesis using s1 op1 by (simp add: settled_def)
  next
    case data
    obtain h n where w: "ws_inv ?s1 F h n" "s_closing ?s1 = 0 \<longrightarrow> n = length (f_cin F) - h"
      using op1 data by (auto simp: open_inv_def)
    let ?b = "s_target_to_client ?s1"
    let ?lim = "min SOCKIFY_PROXY_IO_CHUNK (sockify_buffer_readable ?b)"
    have bi: "buffer_inv ?b" using b1 by (simp add: base_inv_def)
    define m where "m = min ?lim (length (buffer_contents ?b))"
    obtain b' where c: "sockify_buffer_consume (Some ?b) m = (SOCKIFY_OK, m, Some b')" "buffer_inv b'"
      "buffer_contents ?b = take m (take ?lim (buffer_contents ?b)) @ buffer_contents b'"
      using rb.peek_consume [OF bi rb.peek_law [OF bi, of ?lim], of m] by (auto simp: m_def)
    have rd: "sockify_buffer_read (Some ?b) False ?lim = (SOCKIFY_OK, m, take ?lim (buffer_contents ?b), Some b')"
      using rb.peek_law [OF bi, of ?lim] c(1) by (simp add: sockify_buffer_read_def m_def)
    define st2 where "st2 = upd a (\<lambda>x. x\<lparr>s_target_to_client := b'\<rparr>) st1"
    obtain rc st3 where f: "session_make_ws_frame a SOCKIFY_WS_OPCODE_BINARY (Some (take ?lim (buffer_contents ?b))) m st2 =
        (rc, st3)" by (metis surj_pair)
    have run: "write_client_next E a st = (if rc \<noteq> SOCKIFY_OK then session_close E a st3 else st3)"
      using data rd f by (simp add: write_client_next_def Let_def st1_def [symmetric] st2_def [symmetric])
    have le: "m \<le> length (ptr_bytes (Some (take ?lim (buffer_contents ?b))))" "m \<le> SOCKIFY_PROXY_IO_CHUNK"
      by (auto simp: m_def min_def)
    have s2: "safe cc tr0 st2 F" and b2: "base_inv cc (px_mem st2 a)" and d2: "s_handshake_done (px_mem st2 a)"
      and p2: "pending_out (px_mem st2 a) = []"
      using s1 b1 c(2) data(3) pe(2) by (simp_all add: st2_def inv_defs)
    have w2: "s_closing (px_mem st2 a) = 0 \<longrightarrow> n = length (f_cin F) - h" using w(2) by (simp add: st2_def)
    have o2: "out_inv (px_mem st2 a)" using b2 by (simp add: base_inv_def)
    show ?thesis
    proof (cases "rc = SOCKIFY_OK")
      case False
      then have "st3 = st2" using make_ws_frame_run(1) [OF f o2 le] by simp
      then show ?thesis using run False close_settled [OF s2] by simp
    next
      case True
      have "safe cc tr0 st3 F" "open_inv cc (px_mem st3 a) F"
        using queue_frame_inv [OF s2 b2 d2 w(1) w2 pe(2) p2 _ _ _ f [unfolded True] le] c(3)
        by (simp_all add: st2_def)
      then show ?thesis using run True by (simp add: settled_def)
    qed
  qed
qed

lemma session_write_client_inv:
  assumes "env_ok E tr0 cc" and "settled a cc tr0 F st" and "s_closing (px_mem st a) \<noteq> 2"
  shows "\<exists>F. settled a cc tr0 F (session_write_client E a st)"
proof -
  obtain ret st1 where l: "write_client_loop (write_budget (px_config st)) E a st = (ret, st1)" by (metis surj_pair)
  have "safe cc tr0 st F" "open_inv cc (px_mem st a) F" using assms(2,3) by (simp_all add: settled_def)
  then obtain G where G: "safe cc tr0 st1 G" "open_inv cc (px_mem st1 a) G \<or> ret \<and> s_closing (px_mem st1 a) = 2"
    using write_client_loop_inv [OF assms(1) _ _ l] by blast
  show ?thesis
  proof (cases "ret \<or> s_client_out_pos (px_mem st1 a) < s_client_out_len (px_mem st1 a)")
    case True
    then show ?thesis using G l by (auto simp: session_write_client_def settled_def)
  next
    case False
    then show ?thesis using write_client_next_inv [of cc tr0 st1 G a E] G l by (auto simp: session_write_client_def)
  qed
qed

end
