(* ===== verification/Session_Target.thy ===== *)
theory Session_Target
  imports Session_Io
begin

text \<open>
  The target side of a session, the event handlers and the invariant over any sequence of events.
\<close>

section \<open>From the target\<close>

lemma fw_ok_target [simp]: "fw_ok (F\<lparr>f_tin := x\<rparr>) = fw_ok F"
  by (simp add: fw_ok_def)

lemma safe_more_target:
  assumes "safe cc tr0 st F" and "io_effect (Some tc) (px_trace st) tr bytes []" and "tc \<noteq> cc"
  shows "safe cc tr0 (st\<lparr>px_trace := tr\<rparr>) (F\<lparr>f_tin := f_tin F @ bytes\<rparr>)"
  using flow_target [OF _ assms(2,3), of tr0 F] assms(1) bw_ok_more_target by (simp add: safe_def)

text \<open>Bytes of the target that are in the ring.\<close>

lemma received_inv:
  assumes "open_inv cc s F" and "s_handshake_done s" and "buffer_inv b"
    and "buffer_contents b = buffer_contents (s_target_to_client s) @ bytes"
  shows "open_inv cc (s\<lparr>s_target_to_client := b\<rparr>) (F\<lparr>f_tin := f_tin F @ bytes\<rparr>)"
proof -
  obtain h n where w: "ws_inv s F h n" "s_closing s = 0 \<longrightarrow> n = length (f_cin F) - h"
    using assms(1,2) by (auto simp: open_inv_def)
  have "ws_inv (s\<lparr>s_target_to_client := b\<rparr>) (F\<lparr>f_tin := f_tin F @ bytes\<rparr>) h n"
    using w(1) assms(4) unfolding ws_inv_def fw_inv_def bw_inv_def pending_out_def by (auto simp flip: append_assoc)
  moreover have "base_inv cc (s\<lparr>s_target_to_client := b\<rparr>)"
    using assms(1,3) by (simp add: open_inv_def inv_defs)
  ultimately show ?thesis
    using open_wsI [of cc "s\<lparr>s_target_to_client := b\<rparr>" "F\<lparr>f_tin := f_tin F @ bytes\<rparr>" h n] assms(2) w(2) by simp
qed

lemma read_target_loop_inv:
  assumes "env_ok E tr0 cc" and "safe cc tr0 st F" and "open_inv cc (px_mem st a) F"
    and "s_handshake_done (px_mem st a)"
  shows "\<exists>F. settled a cc tr0 F (read_target_loop n E a st) \<and>
    (s_closing (px_mem (read_target_loop n E a st) a) = 2 \<or> s_handshake_done (px_mem (read_target_loop n E a st) a))"
  using assms(2-4)
proof (induction n arbitrary: st F)
  case 0
  then show ?case by (auto simp: settled_def)
next
  case (Suc n)
  let ?s = "px_mem st a"
  show ?case
  proof (cases "sockify_buffer_is_high (s_target_to_client ?s)")
    case True
    then show ?thesis using Suc.prems by (auto simp: settled_def)
  next
    case False
    obtain rc bytes tp tr where rd: "sockify_transport_read (env_tls E) (env_os E) (s_target_transport ?s)
        SOCKIFY_PROXY_IO_CHUNK (px_trace st) = (rc, bytes, tp, tr)" by (metis prod_cases4)
    obtain tc where ch: "transport_chan (s_target_transport ?s) = Some tc" "tc \<noteq> cc"
      using Suc.prems(2) by (auto simp: open_inv_def base_inv_def chans_inv_def)
    have io: "io_effect (Some tc) (px_trace st) tr bytes []" "(rc = SOCKIFY_OK) = (bytes \<noteq> [])"
      "transport_chan tp = Some tc"
      using transport.rd_law [OF _ rd] assms(1) ch by (simp_all add: env_ok_def)
    define G where "G = F\<lparr>f_tin := f_tin F @ bytes\<rparr>"
    define st1 where "st1 = upd a (\<lambda>x. x\<lparr>s_target_transport := tp\<rparr>) (st\<lparr>px_trace := tr\<rparr>)"
    have s1: "safe cc tr0 st1 G" using safe_more_target [OF Suc.prems(1) io(1) ch(2)] by (simp add: st1_def G_def)
    have op1: "open_inv cc (px_mem st1 a) F" "s_handshake_done (px_mem st1 a)"
      using open_inv_transport(2) [OF io(3) ch(2) Suc.prems(2)] Suc.prems(3) by (simp_all add: st1_def)
    obtain t where s2: "safe cc tr0 (session_touch E a st1) G"
      and m2: "px_mem (session_touch E a st1) = (px_mem st1)(a := (px_mem st1 a)\<lparr>s_last_activity_at := t\<rparr>)"
      by (rule session_touch_run [OF s1]) (rule that)
    let ?st2 = "session_touch E a st1"
    have op2: "open_inv cc (px_mem ?st2 a) F" "s_handshake_done (px_mem ?st2 a)" using op1 m2 by simp_all
    let ?b = "s_target_to_client (px_mem ?st2 a)"
    obtain rc2 written buf where w: "sockify_buffer_write (Some ?b) (Some bytes) (length bytes) = (rc2, written, buf)"
      by (metis prod_cases3)
    define st3 where "st3 = upd a (\<lambda>x. x\<lparr>s_target_to_client := the buf\<rparr>) ?st2"
    have s3: "safe cc tr0 st3 G" using s2 by (simp add: st3_def)
    have step: "read_target_loop (Suc n) E a st =
      (if rc = SOCKIFY_ERR_AGAIN then st1 else if rc \<noteq> SOCKIFY_OK then session_close E a st1
       else if rc2 \<noteq> SOCKIFY_OK \<or> written \<noteq> length bytes then session_close E a st3
       else read_target_loop n E a st3)"
      using False rd w by (simp add: Let_def st1_def st3_def)
    consider (again) "rc = SOCKIFY_ERR_AGAIN" | (fail) "rc \<noteq> SOCKIFY_OK" "rc \<noteq> SOCKIFY_ERR_AGAIN"
      | (full) "rc = SOCKIFY_OK" "rc2 \<noteq> SOCKIFY_OK \<or> written \<noteq> length bytes"
      | (data) "rc = SOCKIFY_OK" "rc2 = SOCKIFY_OK" "written = length bytes" by blast
    then show ?thesis
    proof cases
      case again
      then have "G = F" using io(2) by (simp add: G_def)
      then show ?thesis using again step s1 op1 by (auto simp: settled_def)
    next
      case fail
      then show ?thesis using step session_close_closed [OF s1, of a E] by (auto simp: settled_def closed_def)
    next
      case full
      then show ?thesis using step session_close_closed [OF s3, of a E] by (auto simp: settled_def closed_def)
    next
      case data
      have bi: "buffer_inv ?b" using op2(1) by (simp add: open_inv_def base_inv_def)
      obtain b' where b': "buf = Some b'" "buffer_inv b'" "buffer_contents b' = buffer_contents ?b @ bytes"
        using rb.push_law [OF bi, of "length bytes" bytes] w data(2,3) by (auto split: if_splits)
      have "open_inv cc (px_mem st3 a) G" "s_handshake_done (px_mem st3 a)"
        using received_inv [OF op2 b'(2,3)] op2(2) b'(1) by (simp_all add: st3_def G_def)
      from Suc.IH [OF s3 this] step data show ?thesis by simp
    qed
  qed
qed

section \<open>To the target\<close>

text \<open>The first \<open>k\<close> buffered bytes have been sent.\<close>

lemma sent_inv:
  assumes "safe cc tr0 st F" and "open_inv cc (px_mem st a) F" and "s_handshake_done (px_mem st a)"
    and "io_effect (Some tc) (px_trace st) tr [] sent" and "tc \<noteq> cc" and "transport_chan tp = Some tc"
    and "buffer_inv b" and "b_capacity b = b_capacity (s_client_to_target (px_mem st a))"
    and "buffer_contents (s_client_to_target (px_mem st a)) = sent @ buffer_contents b"
    and "G = F\<lparr>f_tout := f_tout F @ sent\<rparr>"
  shows "safe cc tr0 (st\<lparr>px_trace := tr\<rparr>) G"
    and "open_inv cc ((px_mem st a)\<lparr>s_target_transport := tp, s_client_to_target := b\<rparr>) G"
proof -
  let ?s = "px_mem st a" and ?s' = "(px_mem st a)\<lparr>s_target_transport := tp, s_client_to_target := b\<rparr>"
  obtain h n where w: "ws_inv ?s F h n" "s_closing ?s = 0 \<longrightarrow> n = length (f_cin F) - h"
    using assms(2,3) by (auto simp: open_inv_def)
  have fw: "fw_inv ?s' G h n" using w(1) assms(9) by (simp add: ws_inv_def fw_inv_def assms(10))
  have he: "head_end (f_cin G) h" and bw: "bw_inv ?s' G h"
    using w(1) by (simp_all add: ws_inv_def bw_inv_def pending_out_def assms(10))
  have "base_inv cc ?s'" using assms(2,5-8) by (simp add: open_inv_def inv_defs)
  then show "open_inv cc ?s' G"
    using open_wsI [of cc ?s' G h n] fw he bw w(2) assms(3) by (simp add: ws_inv_def assms(10))
  have "flow cc tr0 tr G"
    using flow_target [OF _ assms(4,5), of tr0 F] assms(1) by (simp add: safe_def assms(10))
  with fw_inv_ok [OF he fw] bw_inv_ok [OF he bw] assms(1) show "safe cc tr0 (st\<lparr>px_trace := tr\<rparr>) G"
    by (simp add: safe_def)
qed

lemma write_target_loop_inv:
  assumes "env_ok E tr0 cc" and "safe cc tr0 st F" and "open_inv cc (px_mem st a) F"
    and "s_handshake_done (px_mem st a)"
  shows "\<exists>F. settled a cc tr0 F (write_target_loop n E a st)"
  using assms(2-4)
proof (induction n arbitrary: st F)
  case 0
  then show ?case by (auto simp: settled_def)
next
  case (Suc n)
  let ?s = "px_mem st a"
  let ?b = "s_client_to_target ?s"
  let ?lim = "min SOCKIFY_PROXY_IO_CHUNK (sockify_buffer_readable ?b)"
  show ?case
  proof (cases "sockify_buffer_readable ?b = 0")
    case True
    then show ?thesis using Suc.prems by (auto simp: settled_def)
  next
    case False
    have bi: "buffer_inv ?b" using Suc.prems(2) by (simp add: open_inv_def base_inv_def)
    note pk = rb.peek_law [OF bi, of ?lim]
    define out where "out = take (min ?lim (length (buffer_contents ?b))) (take ?lim (buffer_contents ?b))"
    obtain rc k tp tr where wr: "sockify_transport_write (env_tls E) (env_os E) (s_target_transport ?s)
        out (px_trace st) = (rc, k, tp, tr)" by (metis prod_cases4)
    obtain tc where ch: "transport_chan (s_target_transport ?s) = Some tc" "tc \<noteq> cc"
      using Suc.prems(2) by (auto simp: open_inv_def base_inv_def chans_inv_def)
    have io: "io_effect (Some tc) (px_trace st) tr [] (take k out)" "k \<le> length out"
      "transport_chan tp = Some tc" "rc \<noteq> SOCKIFY_OK \<longrightarrow> k = 0"
      using transport.wr_law [OF _ wr] assms(1) ch by (simp_all add: env_ok_def)
    have "k \<le> min ?lim (length (buffer_contents ?b))" using io(2) by (auto simp: out_def)
    then obtain b' where b': "sockify_buffer_consume (Some ?b) k = (SOCKIFY_OK, k, Some b')" "buffer_inv b'"
      "b_capacity b' = b_capacity ?b" "buffer_contents ?b = take k (take ?lim (buffer_contents ?b)) @ buffer_contents b'"
      using rb.peek_consume [OF bi pk] by blast
    have "take k out = take k (take ?lim (buffer_contents ?b))"
      using \<open>k \<le> min ?lim (length (buffer_contents ?b))\<close> by (simp add: out_def min_absorb1)
    then have ct: "buffer_contents ?b = take k out @ buffer_contents b'" using b'(4) by simp
    define G where "G = F\<lparr>f_tout := f_tout F @ take k out\<rparr>"
    note sent = sent_inv [OF Suc.prems io(1) ch(2) io(3) b'(2,3) ct G_def]
    define st1 where "st1 = upd a (\<lambda>x. x\<lparr>s_target_transport := tp\<rparr>) (st\<lparr>px_trace := tr\<rparr>)"
    have s1: "safe cc tr0 st1 G" using sent(1) by (simp add: st1_def)
    obtain t where s2: "safe cc tr0 (session_touch E a st1) G"
      and m2: "px_mem (session_touch E a st1) = (px_mem st1)(a := (px_mem st1 a)\<lparr>s_last_activity_at := t\<rparr>)"
      by (rule session_touch_run [OF s1]) (rule that)
    let ?st2 = "if k \<noteq> 0 then session_touch E a st1 else st1"
    have b2: "s_client_to_target (px_mem (session_touch E a st1) a) = ?b" "s_client_to_target (px_mem st1 a) = ?b"
      using m2 by (simp_all add: st1_def)
    define st3 where "st3 = upd a (\<lambda>x. x\<lparr>s_client_to_target := b'\<rparr>) ?st2"
    have step: "write_target_loop (Suc n) E a st =
      (if rc = SOCKIFY_ERR_AGAIN then st1 else if rc \<noteq> SOCKIFY_OK then session_close E a st1
       else write_target_loop n E a st3)"
      using False pk wr b'(1) b2 by (cases "k = 0") (simp_all add: Let_def st1_def [symmetric] st3_def out_def)
    show ?thesis
    proof (cases "rc = SOCKIFY_OK")
      case False
      then have "G = F" "open_inv cc (px_mem st1 a) F"
        using io(4) open_inv_transport(2) [OF io(3) ch(2) Suc.prems(2)] by (simp_all add: G_def st1_def)
      then show ?thesis using False step s1 close_settled [OF s1, of a E] by (auto simp: settled_def)
    next
      case True
      have "safe cc tr0 st3 G" using s1 s2 by (simp add: st3_def)
      moreover have "px_mem st3 a = ?s\<lparr>s_target_transport := tp, s_client_to_target := b',
          s_last_activity_at := if k \<noteq> 0 then t else s_last_activity_at ?s\<rparr>"
        using m2 by (simp add: st3_def st1_def)
      then have "open_inv cc (px_mem st3 a) G" "s_handshake_done (px_mem st3 a)"
        using sent(2) Suc.prems(3) by simp_all
      ultimately show ?thesis using Suc.IH step True by simp
    qed
  qed
qed

end
