(* ===== verification/Session_Events.thy ===== *)
theory Session_Events
  imports Session_Target
begin

text \<open>
  The event handlers of a session keep its invariant, whatever the events reported.
\<close>

section \<open>TLS handshakes and the end of the connect\<close>

lemma drive_client_tls_inv:
  assumes "session_drive_client_tls E a st = (rc, st')" and "safe cc tr0 st F" and "open_inv cc (px_mem st a) F"
  shows "safe cc tr0 st' F" and "open_inv cc (px_mem st' a) F" and "s_closing (px_mem st' a) = s_closing (px_mem st a)"
proof -
  obtain rc1 tp tr where h: "sockify_transport_handshake (env_tls E) (env_os E) (s_client_transport (px_mem st a))
      (px_trace st) = (rc1, tp, tr)" by (metis prod_cases3)
  note q = transport_handshake_quiet [OF h]
  have ch: "transport_chan tp = Some cc" using q(2) assms(3) by (simp add: open_inv_def base_inv_def chans_inv_def)
  define st1 where "st1 = upd a (\<lambda>x. x\<lparr>s_client_transport := tp\<rparr>) (st\<lparr>px_trace := tr\<rparr>)"
  have s1: "safe cc tr0 st1 F" "open_inv cc (px_mem st1 a) F" "s_closing (px_mem st1 a) = s_closing (px_mem st a)"
    using safe_trace [OF assms(2) q(1)] open_inv_transport(1) [OF ch assms(3)] by (simp_all add: st1_def)
  have "st' = st \<or> st' = st1 \<or> st' = upd a (\<lambda>x. x\<lparr>s_client_tls_ready := True\<rparr>) st1"
    using assms(1) h by (auto simp: session_drive_client_tls_def Let_def st1_def split: if_splits)
  with s1 assms(2,3) show "safe cc tr0 st' F" "open_inv cc (px_mem st' a) F"
    "s_closing (px_mem st' a) = s_closing (px_mem st a)" by auto
qed

lemma drive_target_tls_inv:
  assumes "session_drive_target_tls E a st = (rc, st')" and "safe cc tr0 st F" and "open_inv cc (px_mem st a) F"
  shows "safe cc tr0 st' F" and "open_inv cc (px_mem st' a) F" and "s_closing (px_mem st' a) = s_closing (px_mem st a)"
    and "s_handshake_done (px_mem st' a) = s_handshake_done (px_mem st a)"
proof -
  obtain rc1 tp tr where h: "sockify_transport_handshake (env_tls E) (env_os E) (s_target_transport (px_mem st a))
      (px_trace st) = (rc1, tp, tr)" by (metis prod_cases3)
  note q = transport_handshake_quiet [OF h]
  obtain tc where ch: "transport_chan tp = Some tc" "tc \<noteq> cc"
    using q(2) assms(3) by (auto simp: open_inv_def base_inv_def chans_inv_def)
  define st1 where "st1 = upd a (\<lambda>x. x\<lparr>s_target_transport := tp\<rparr>) (st\<lparr>px_trace := tr\<rparr>)"
  have s1: "safe cc tr0 st1 F" "open_inv cc (px_mem st1 a) F" "s_closing (px_mem st1 a) = s_closing (px_mem st a)"
    "s_handshake_done (px_mem st1 a) = s_handshake_done (px_mem st a)"
    using safe_trace [OF assms(2) q(1)] open_inv_transport(2) [OF ch assms(3)] by (simp_all add: st1_def)
  have "st' = st \<or> st' = st1 \<or> st' = upd a (\<lambda>x. x\<lparr>s_target_tls_ready := True\<rparr>) st1"
    using assms(1) h by (auto simp: session_drive_target_tls_def Let_def st1_def split: if_splits)
  with s1 assms(2,3) show "safe cc tr0 st' F" "open_inv cc (px_mem st' a) F"
    "s_closing (px_mem st' a) = s_closing (px_mem st a)"
    "s_handshake_done (px_mem st' a) = s_handshake_done (px_mem st a)" by auto
qed

text \<open>The TLS connection to the target is created when the connect has completed.\<close>

definition target_tls_start :: "env \<Rightarrow> addr \<Rightarrow> proxy \<Rightarrow> sockify_rc \<times> proxy" where
  "target_tls_start E a st2 =
     (case sockify_transport_destroy (env_tls E) (env_os E) (s_target_transport (px_mem st2 a)) (px_trace st2) of
        (tp, tr1) \<Rightarrow>
          let name = (if target_tls_server_name (px_config st2) = [] then e_host (target_endpoint (px_config st2))
                      else target_tls_server_name (px_config st2))
          in (case sockify_transport_init_tls (env_tls E) (env_os E) (Some tp) (s_target_fd (px_mem st2 a))
                     (sv_target_tls_context (px_server st2)) False (Some name) tr1 of
                (rc2, tp2, tr2) \<Rightarrow>
                  let st3 = upd a (\<lambda>x. x\<lparr>s_target_transport := the tp2\<rparr>) (st2\<lparr>px_trace := tr2\<rparr>)
                  in if rc2 \<noteq> SOCKIFY_OK then (rc2, st3)
                     else (SOCKIFY_OK, upd a (\<lambda>x. x\<lparr>s_target_tls_ready := False\<rparr>) st3)))"

lemma target_tls_start_inv:
  assumes "target_tls_start E a st = (rc, st')" and "env_ok E tr0 cc" and "safe cc tr0 st F"
    and "open_inv cc (px_mem st a) F"
  shows "safe cc tr0 st' F" and "rc = SOCKIFY_OK \<longrightarrow> open_inv cc (px_mem st' a) F \<and>
      s_handshake_done (px_mem st' a) = s_handshake_done (px_mem st a)"
    and "s_closing (px_mem st' a) = s_closing (px_mem st a)"
proof -
  obtain tp tr1 where d: "sockify_transport_destroy (env_tls E) (env_os E) (s_target_transport (px_mem st a))
      (px_trace st) = (tp, tr1)" by (metis surj_pair)
  define name where "name = (if target_tls_server_name (px_config st) = [] then e_host (target_endpoint (px_config st))
      else target_tls_server_name (px_config st))"
  obtain rc2 tp2 tr2 where i: "sockify_transport_init_tls (env_tls E) (env_os E) (Some tp) (s_target_fd (px_mem st a))
      (sv_target_tls_context (px_server st)) False (Some name) tr1 = (rc2, tp2, tr2)" by (metis prod_cases3)
  define st3 where "st3 = upd a (\<lambda>x. x\<lparr>s_target_transport := the tp2\<rparr>) (st\<lparr>px_trace := tr2\<rparr>)"
  have run: "(rc, st') = (if rc2 \<noteq> SOCKIFY_OK then (rc2, st3)
      else (SOCKIFY_OK, upd a (\<lambda>x. x\<lparr>s_target_tls_ready := False\<rparr>) st3))"
    using assms(1) d i by (auto simp: target_tls_start_def name_def [symmetric] st3_def Let_def split: if_splits)
  note q = transport_destroy_quiet [OF d] and r = transport_init_tls_quiet [OF i]
  have s1: "safe cc tr0 (st\<lparr>px_trace := tr1\<rparr>) F" using safe_trace [OF assms(3) q] .
  have s3: "safe cc tr0 st3 F" using safe_trace [OF s1] r(1) by (simp add: st3_def)
  have "open_inv cc (px_mem st3 a) F" if ok: "rc2 = SOCKIFY_OK"
  proof -
    obtain h where h: "transport_chan (the tp2) = Some (Chan_ssl h)" "from_ssl_new (env_os E) tr1 h"
      using r(3) ok by blast
    have "Chan_ssl h \<noteq> cc"
      using fresh_later(2) [of "env_os E" tr0 cc tr1 F h] s1 h(2) assms(2) by (auto simp: env_ok_def safe_def)
    then show ?thesis using open_inv_transport(2) [OF h(1) _ assms(4)] by (simp add: st3_def)
  qed
  with s3 run show "safe cc tr0 st' F" "rc = SOCKIFY_OK \<longrightarrow> open_inv cc (px_mem st' a) F \<and>
      s_handshake_done (px_mem st' a) = s_handshake_done (px_mem st a)"
    "s_closing (px_mem st' a) = s_closing (px_mem st a)"
    by (auto simp: st3_def split: if_splits)
qed

lemma complete_target_connect_inv:
  assumes "session_complete_target_connect E a st = (rc, st')" and "env_ok E tr0 cc" and "safe cc tr0 st F"
    and "open_inv cc (px_mem st a) F"
  shows "safe cc tr0 st' F" and "rc = SOCKIFY_OK \<longrightarrow> open_inv cc (px_mem st' a) F \<and>
      s_handshake_done (px_mem st' a) = s_handshake_done (px_mem st a)"
    and "s_closing (px_mem st' a) = s_closing (px_mem st a)"
proof -
  obtain rc1 err tr where e: "sockify_net_socket_error (env_os E) (s_target_fd (px_mem st a)) (px_trace st) =
      (rc1, err, tr)" by (metis prod_cases3)
  define st0 where "st0 = st\<lparr>px_trace := tr\<rparr>"
  obtain t st1 where t: "px_time E (upd a (\<lambda>x. x\<lparr>s_target_connecting := False, s_connect_started_at := 0\<rparr>) st0) =
      (t, st1)" by (metis surj_pair)
  define st2 where "st2 = upd a (\<lambda>x. x\<lparr>s_last_activity_at := t\<rparr>) st1"
  have "session_complete_target_connect E a st = (if \<not> s_target_connecting (px_mem st a) then (SOCKIFY_OK, st)
      else if rc1 \<noteq> SOCKIFY_OK \<or> err \<noteq> 0 then (SOCKIFY_ERR_SYS, st0)
      else if target_tls_enabled (px_config st2) then target_tls_start E a st2
      else (SOCKIFY_OK, upd a (\<lambda>x. x\<lparr>s_target_tls_ready := True\<rparr>) st2))"
    using e t by (simp add: session_complete_target_connect_def target_tls_start_def st0_def st2_def Let_def)
  note run = this [unfolded assms(1)]
  have s0: "safe cc tr0 st0 F" using safe_trace [OF assms(3) socket_error_quiet [OF e]] by (simp add: st0_def)
  note p = px_time_safe [OF t, of cc tr0 F]
  have s2: "safe cc tr0 st2 F" using p(1) s0 by (simp add: st2_def)
  have m2: "px_mem st2 a = (px_mem st a)\<lparr>s_target_connecting := False, s_connect_started_at := 0, s_last_activity_at := t\<rparr>"
    using p(2) s0 by (simp add: st2_def st0_def)
  have op2: "open_inv cc (px_mem st2 a) F" using assms(4) by (simp add: m2)
  obtain rc3 st3 where tls: "target_tls_start E a st2 = (rc3, st3)" by (metis surj_pair)
  from run s0 s2 op2 m2 assms(3,4) tls target_tls_start_inv [OF tls assms(2) s2 op2]
  show "safe cc tr0 st' F" "rc = SOCKIFY_OK \<longrightarrow> open_inv cc (px_mem st' a) F \<and>
      s_handshake_done (px_mem st' a) = s_handshake_done (px_mem st a)"
    "s_closing (px_mem st' a) = s_closing (px_mem st a)"
    by (auto simp: st0_def split: if_splits)
qed

section \<open>The handlers\<close>

lemma update_events_inv:
  assumes "settled a cc tr0 F st"
  shows "settled a cc tr0 F (session_update_events E a st)"
proof -
  have *: "safe cc tr0 (px_loop_modify E fd ev st) F" if "safe cc tr0 st F" for fd ev st
    using that px_loop_modify_flow by (simp add: safe_def)
  then show ?thesis using assms by (auto simp: session_update_events_def settled_def Let_def)
qed

lemma client_event_io_inv:
  assumes "env_ok E tr0 cc" and "settled a cc tr0 F st" and "s_closing (px_mem st a) \<noteq> 2"
  shows "\<exists>F. settled a cc tr0 F (client_event_io E a events st)"
proof -
  define st1 where "st1 = (if events AND SOCKIFY_EVENT_READ \<noteq> 0 then session_read_client E a st else st)"
  have "\<exists>G. settled a cc tr0 G st1"
    using read_client_loop_inv [OF assms(1,2), of "read_budget (px_config st)"] assms(2)
    by (auto simp: st1_def session_read_client_def)
  then obtain G where G: "settled a cc tr0 G st1" ..
  define st2 where "st2 = (if events AND SOCKIFY_EVENT_WRITE \<noteq> 0 then session_write_client E a st1 else st1)"
  have run: "client_event_io E a events st =
    (if events AND SOCKIFY_EVENT_READ \<noteq> 0 \<and> s_closing (px_mem st1 a) = 2 then st1
     else if events AND SOCKIFY_EVENT_WRITE \<noteq> 0 \<and> s_closing (px_mem st2 a) = 2 then st2
     else session_update_events E a st2)"
    by (simp add: client_event_io_def Let_def st1_def st2_def)
  show ?thesis
  proof (cases "events AND SOCKIFY_EVENT_READ \<noteq> 0 \<and> s_closing (px_mem st1 a) = 2")
    case True
    then show ?thesis using run G by auto
  next
    case False
    then have "s_closing (px_mem st1 a) \<noteq> 2" using assms(3) by (auto simp: st1_def)
    then have "\<exists>H. settled a cc tr0 H st2"
      using session_write_client_inv [OF assms(1) G] G by (auto simp: st2_def)
    then obtain H where "settled a cc tr0 H st2" ..
    with update_events_inv [of a cc tr0 H st2 E] False run show ?thesis by auto
  qed
qed

lemma client_event_inv:
  assumes "env_ok E tr0 cc" and "settled a cc tr0 F st" and "s_closing (px_mem st a) \<noteq> 2"
  shows "\<exists>F. settled a cc tr0 F (session_handle_client_event E a events st)"
proof -
  have st: "safe cc tr0 st F" "open_inv cc (px_mem st a) F" using assms(2,3) by (simp_all add: settled_def)
  obtain rc st1 where d: "session_drive_client_tls E a st = (rc, st1)" by (metis surj_pair)
  note i = drive_client_tls_inv [OF d st]
  have s1: "settled a cc tr0 F st1" using i by (simp add: settled_def)
  have "settled a cc tr0 F (session_close E a st)" "settled a cc tr0 F (session_close E a st1)"
    "settled a cc tr0 F (session_update_events E a st1)"
    using close_settled st(1) i(1) update_events_inv [OF s1] by auto
  moreover have "\<exists>F. settled a cc tr0 F (client_event_io E a events st)"
    "\<exists>F. settled a cc tr0 F (client_event_io E a events st1)"
    using client_event_io_inv [OF assms] client_event_io_inv [OF assms(1) s1] i(3) assms(3) by auto
  ultimately show ?thesis using d by (auto simp: session_handle_client_event_def)
qed

lemma target_event_io_inv:
  assumes "env_ok E tr0 cc" and "settled a cc tr0 F st" and "s_closing (px_mem st a) \<noteq> 2"
    and "s_handshake_done (px_mem st a)"
  shows "\<exists>F. settled a cc tr0 F (target_event_io E a events st)"
proof -
  have st: "safe cc tr0 st F" "open_inv cc (px_mem st a) F" using assms(2,3) by (simp_all add: settled_def)
  define st1 where "st1 = (if events AND SOCKIFY_EVENT_READ \<noteq> 0 then session_read_target E a st else st)"
  have "\<exists>G. settled a cc tr0 G st1 \<and> (s_closing (px_mem st1 a) = 2 \<or> s_handshake_done (px_mem st1 a))"
    using read_target_loop_inv [OF assms(1) st assms(4), of "read_budget (px_config st)"] assms(2,4)
    by (auto simp: st1_def session_read_target_def)
  then obtain G where G: "settled a cc tr0 G st1" "s_closing (px_mem st1 a) = 2 \<or> s_handshake_done (px_mem st1 a)"
    by blast
  define st2 where "st2 = (if events AND SOCKIFY_EVENT_WRITE \<noteq> 0 then session_write_target E a st1 else st1)"
  have run: "target_event_io E a events st =
    (if events AND SOCKIFY_EVENT_READ \<noteq> 0 \<and> s_closing (px_mem st1 a) = 2 then st1
     else if events AND SOCKIFY_EVENT_WRITE \<noteq> 0 \<and> s_closing (px_mem st2 a) = 2 then st2
     else session_update_events E a st2)"
    by (simp add: target_event_io_def Let_def st1_def st2_def)
  show ?thesis
  proof (cases "events AND SOCKIFY_EVENT_READ \<noteq> 0 \<and> s_closing (px_mem st1 a) = 2")
    case True
    then show ?thesis using run G by auto
  next
    case False
    then have c: "s_closing (px_mem st1 a) \<noteq> 2" using assms(3) by (auto simp: st1_def)
    with G have "safe cc tr0 st1 G" "open_inv cc (px_mem st1 a) G" "s_handshake_done (px_mem st1 a)"
      by (auto simp: settled_def)
    from write_target_loop_inv [OF assms(1) this, of "write_budget (px_config st1)"] G(1)
    have "\<exists>H. settled a cc tr0 H st2" by (auto simp: st2_def session_write_target_def)
    then obtain H where "settled a cc tr0 H st2" ..
    with update_events_inv [of a cc tr0 H st2 E] False run show ?thesis by auto
  qed
qed

lemma target_event_tls_inv:
  assumes "env_ok E tr0 cc" and "settled a cc tr0 F st" and "s_closing (px_mem st a) \<noteq> 2"
    and "s_handshake_done (px_mem st a)"
  shows "\<exists>F. settled a cc tr0 F (target_event_tls E a events st)"
proof -
  have st: "safe cc tr0 st F" "open_inv cc (px_mem st a) F" using assms(2,3) by (simp_all add: settled_def)
  obtain rc st1 where d: "session_drive_target_tls E a st = (rc, st1)" by (metis surj_pair)
  note i = drive_target_tls_inv [OF d st]
  have s1: "settled a cc tr0 F st1" using i by (simp add: settled_def)
  have "settled a cc tr0 F (session_close E a st1)" "settled a cc tr0 F (session_update_events E a st1)"
    using close_settled i(1) update_events_inv [OF s1] by auto
  moreover have "\<exists>F. settled a cc tr0 F (target_event_io E a events st)"
    "\<exists>F. settled a cc tr0 F (target_event_io E a events st1)"
    using target_event_io_inv [OF assms] target_event_io_inv [OF assms(1) s1] i(3,4) assms(3,4) by auto
  ultimately show ?thesis using d by (auto simp: target_event_tls_def)
qed

lemma target_event_inv:
  assumes "env_ok E tr0 cc" and "settled a cc tr0 F st" and "s_closing (px_mem st a) \<noteq> 2"
    and "s_target_registered (px_mem st a)"
  shows "\<exists>F. settled a cc tr0 F (session_handle_target_event E a events st)"
proof -
  have st: "safe cc tr0 st F" "open_inv cc (px_mem st a) F" using assms(2,3) by (simp_all add: settled_def)
  have dn: "s_handshake_done (px_mem st a)"
    using st(2) assms(4) by (auto simp: open_inv_def hs_inv_def split: if_splits)
  obtain rc st1 where d: "session_complete_target_connect E a st = (rc, st1)" by (metis surj_pair)
  note i = complete_target_connect_inv [OF d assms(1) st]
  have "settled a cc tr0 F (session_close E a st)" "settled a cc tr0 F (session_close E a st1)"
    using close_settled st(1) i(1) by auto
  moreover have "\<exists>F. settled a cc tr0 F (target_event_tls E a events st)"
    using target_event_tls_inv [OF assms(1-3) dn] .
  moreover have "\<exists>F. settled a cc tr0 F (target_event_tls E a events st1)" if "rc = SOCKIFY_OK"
    using target_event_tls_inv [OF assms(1), of a F st1 events] i that assms(3) dn by (simp add: settled_def)
  ultimately show ?thesis using d by (auto simp: session_handle_target_event_def)
qed

end
