(* ===== verification/Relay.thy ===== *)
theory Relay
  imports Session_Events Server
begin

text \<open>
  From the creation of a session to any sequence of events on it: what a session relays. The
  invariant holds when \<^verbatim>\<open>session_create\<close> returns and every event keeps it; the properties say it in
  terms of the calls the program made since then.
\<close>

section \<open>A new session\<close>

lemma init_ring_run:
  assumes "0 < n" and "n \<le> SOCKIFY_WS_MAX_FRAME_PAYLOAD" and "length c = n"
  shows "buffer_inv (init_ring b c n)" and "buffer_contents (init_ring b c n) = []"
    and "b_capacity (init_ring b c n) = n" and "b_high_water (init_ring b c n) = n * 3 div 4"
    and "b_length (init_ring b c n) = 0"
proof -
  have "sz_mul n 3 = n * 3" using assms(2) by (simp add: sz_mul_def size_lim_def)
  moreover have "n * 3 div 4 \<le> n" "n div 4 \<le> n * 3 div 4" by simp_all
  ultimately show "buffer_inv (init_ring b c n)" "buffer_contents (init_ring b c n) = []"
    "b_capacity (init_ring b c n) = n" "b_high_water (init_ring b c n) = n * 3 div 4"
    "b_length (init_ring b c n) = 0"
    using assms by (simp_all add: init_ring_def sockify_buffer_init_def buffer_inv_def buffer_contents_def size_lim_def)
qed

lemma parser_init_run:
  "parser_inv (the (sockify_ws_parser_init (Some p)))"
  "parser_abs (the (sockify_ws_parser_init (Some p))) = A_Head1 0"
  by (metis parser_init_abs option.sel)+

text \<open>The state of a session that has just been created.\<close>

definition new_session :: "sockify_proxy_session \<Rightarrow> bool" where
  "new_session s \<longleftrightarrow>
     \<not> s_target_registered s \<and> \<not> s_handshake_done s \<and> s_closing s = 0 \<and> \<not> s_pending_close s \<and>
     s_handshake s = [] \<and> s_handshake_len s = 0 \<and> s_client_out_len s = 0 \<and> s_client_out_pos s = 0 \<and>
     s_pending_close_payload_len s = 0 \<and> s_client_out_capacity s = SOCKIFY_PROXY_IO_CHUNK + 14 \<and>
     transport_chan (s_target_transport s) = Some (Chan_fd sockify_net_invalid_socket) \<and>
     parser_inv (s_ws_parser s) \<and> parser_abs (s_ws_parser s) = A_Head1 0 \<and>
     buffer_inv (s_client_to_target s) \<and> buffer_contents (s_client_to_target s) = [] \<and>
     buffer_inv (s_target_to_client s) \<and> buffer_contents (s_target_to_client s) = []"

lemma new_session_open:
  assumes "new_session s" and "SOCKIFY_WS_MAX_HTTP_REQUEST \<le> b_capacity (s_client_to_target s)"
    and "transport_chan (s_client_transport s) = Some cc" and "cc \<noteq> Chan_fd sockify_net_invalid_socket"
  shows "open_inv cc s \<lparr>f_cin = [], f_cout = [], f_tin = [], f_tout = []\<rparr>"
  using assms
  by (auto simp: new_session_def open_inv_def base_inv_def chans_inv_def out_inv_def hs_inv_def crlf2_def)

lemma new_session_frame [simp]:
  "new_session (s\<lparr>s_client_registered := b\<rparr>) = new_session s" "new_session (s\<lparr>s_next := n\<rparr>) = new_session s"
  "new_session (s\<lparr>s_prev := n\<rparr>) = new_session s" "new_session (s\<lparr>s_created_at := t\<rparr>) = new_session s"
  "new_session (s\<lparr>s_last_activity_at := t\<rparr>) = new_session s"
  "new_session (s\<lparr>s_connect_started_at := t\<rparr>) = new_session s"
  "new_session (s\<lparr>s_client_transport := tp\<rparr>) = new_session s"
  by (simp_all add: new_session_def)

lemma session_link_run:
  assumes "new_session (px_mem st a)"
  shows "new_session (px_mem (session_link E a st) a)"
    and "s_client_transport (px_mem (session_link E a st) a) = s_client_transport (px_mem st a)"
    and "s_client_to_target (px_mem (session_link E a st) a) = s_client_to_target (px_mem st a)"
    and "sv_loop (px_server (session_link E a st)) = sv_loop (px_server st)"
  using assms by (simp_all add: session_link_def px_time_def sys_eq Let_def split: option.split)

lemma session_register_run:
  assumes "session_register E a fd st = (Some b, st')" and "loop_ok (sv_loop (px_server st))"
    and "new_session (px_mem st a)"
  shows "b = a" and "new_session (px_mem st' a)" and "loop_ok (sv_loop (px_server st'))"
    and "s_client_transport (px_mem st' a) = s_client_transport (px_mem st a)"
    and "s_client_to_target (px_mem st' a) = s_client_to_target (px_mem st a)"
proof -
  let ?ev = "if client_tls_enabled (px_config st) then SOCKIFY_EVENT_READ OR SOCKIFY_EVENT_WRITE else SOCKIFY_EVENT_READ"
  obtain rc st1 where l: "px_loop_add E fd ?ev session_cb (Ud_side a SESSION_SIDE_CLIENT) st = (rc, st1)"
    by (metis surj_pair)
  have r: "b = a" "st' = session_link E a st1"
    using assms(1) l by (auto simp: session_register_def split: if_splits)
  note f = px_loop_add_flow [OF assms(2) l]
  have n1: "new_session (px_mem st1 a)" using assms(3) f(3) by simp
  note k = session_link_run [OF n1, of E]
  show "b = a" "new_session (px_mem st' a)" "loop_ok (sv_loop (px_server st'))"
    "s_client_transport (px_mem st' a) = s_client_transport (px_mem st a)"
    "s_client_to_target (px_mem st' a) = s_client_to_target (px_mem st a)"
    using r k f(2,3) by simp_all
qed

text \<open>What \<^verbatim>\<open>session_create\<close> has set before the buffers are allocated.\<close>

definition bare_session :: "sockify_proxy_session \<Rightarrow> bool" where
  "bare_session s \<longleftrightarrow>
     (\<exists>fd tp ready tls. s = zero_session\<lparr>s_client_fd := fd, s_target_fd := sockify_net_invalid_socket,
        s_client_transport := tp, s_client_tls_ready := ready,
        s_target_transport := \<lparr>t_type = SOCKIFY_TRANSPORT_PLAIN, t_fd = sockify_net_invalid_socket, t_tls = None\<rparr>,
        s_target_tls_ready := tls\<rparr>)"

lemma session_alloc_run:
  assumes "session_alloc E a fd n st = (Some b, st')" and "loop_ok (sv_loop (px_server st))"
    and "bare_session (px_mem st a)" and "0 < n" and "n \<le> SOCKIFY_WS_MAX_FRAME_PAYLOAD"
  shows "b = a" and "new_session (px_mem st' a)" and "loop_ok (sv_loop (px_server st'))"
    and "s_client_transport (px_mem st' a) = s_client_transport (px_mem st a)"
    and "b_capacity (s_client_to_target (px_mem st' a)) = n"
proof -
  have malloc: "\<exists>p c st1. px_malloc E k st0 = (p, c, st1) \<and> length c = k \<and> px_mem st1 = px_mem st0 \<and>
      px_server st1 = px_server st0" for k st0
    by (simp add: px_malloc_def sys_eq)
  obtain p1 c1 st1 where m1: "px_malloc E n st = (p1, c1, st1)" "length c1 = n" "px_mem st1 = px_mem st"
    "px_server st1 = px_server st" using malloc [of n st] by blast
  obtain p2 c2 st2 where m2: "px_malloc E n st1 = (p2, c2, st2)" "length c2 = n" "px_mem st2 = px_mem st1"
    "px_server st2 = px_server st1" using malloc [of n st1] by blast
  obtain p3 c3 st3 where m3: "px_malloc E (SOCKIFY_PROXY_IO_CHUNK + 14) st2 = (p3, c3, st3)"
    "px_mem st3 = px_mem st2" "px_server st3 = px_server st2" using malloc [of "SOCKIFY_PROXY_IO_CHUNK + 14" st2] by blast
  define st4 where "st4 = upd a (\<lambda>s. s\<lparr>s_client_out_capacity := SOCKIFY_PROXY_IO_CHUNK + 14,
      s_client_to_target_storage := p1, s_target_to_client_storage := p2, s_client_out_ptr := p3\<rparr>) st3"
  define st5 where "st5 = upd a (\<lambda>s. s\<lparr>s_client_out := c3,
      s_client_to_target := init_ring (s_client_to_target s) c1 n,
      s_target_to_client := init_ring (s_target_to_client s) c2 n,
      s_ws_parser := the (sockify_ws_parser_init (Some (s_ws_parser s)))\<rparr>) st4"
  have reg: "session_register E a fd st5 = (Some b, st')"
    using assms(1) m1(1) m2(1) m3(1)
    by (auto simp: session_alloc_def Let_def st4_def st5_def split: if_splits)
  have n5: "new_session (px_mem st5 a)"
    using assms(3) m1 m2 m3 init_ring_run [OF assms(4,5)] parser_init_run
    by (auto simp: bare_session_def zero_session_def new_session_def st5_def st4_def transport_chan_def)
  have l5: "loop_ok (sv_loop (px_server st5))" using assms(2) m1 m2 m3 by (simp add: st5_def st4_def)
  note r = session_register_run [OF reg l5 n5]
  show "b = a" "new_session (px_mem st' a)" "loop_ok (sv_loop (px_server st'))"
    "s_client_transport (px_mem st' a) = s_client_transport (px_mem st a)"
    "b_capacity (s_client_to_target (px_mem st' a)) = n"
    using r m1 m2 m3 init_ring_run(3) [OF assms(4,5)] by (simp_all add: st5_def st4_def)
qed

lemma session_create_run:
  assumes "session_create E fd st = (Some a, st')" and "loop_ok (sv_loop (px_server st))"
  shows "new_session (px_mem st' a)" and "loop_ok (sv_loop (px_server st'))"
    and "b_capacity (s_client_to_target (px_mem st' a)) = session_buffer_size (px_config st)"
    and "\<exists>cc. transport_chan (s_client_transport (px_mem st' a)) = Some cc \<and>
      (\<forall>f. cc = Chan_fd f \<longrightarrow> f = fd)"
proof -
  let ?n = "session_buffer_size (px_config st)"
  have n: "0 < ?n" "?n \<le> SOCKIFY_WS_MAX_FRAME_PAYLOAD" by (auto simp: session_buffer_size_def)
  let ?c = "Call_mem (Mem_calloc sizeof_session)"
  let ?r = "env_os E (px_trace st) ?c"
  define b where "b = nat (r_ret ?r)"
  define st1 where "st1 = st\<lparr>px_mem := (px_mem st)(b := zero_session\<lparr>s_client_fd := fd,
      s_target_fd := sockify_net_invalid_socket\<rparr>), px_live := (px_live st)(b := True), px_trace := (?c, ?r) # px_trace st\<rparr>"
  let ?tp = "\<lparr>t_type = SOCKIFY_TRANSPORT_PLAIN, t_fd = fd, t_tls = None\<rparr>"
  let ?set = "\<lambda>s. upd b (\<lambda>x. x\<lparr>s_target_transport := \<lparr>t_type = SOCKIFY_TRANSPORT_PLAIN,
      t_fd = sockify_net_invalid_socket, t_tls = None\<rparr>, s_target_tls_ready := \<not> target_tls_enabled (px_config s)\<rparr>) s"
  obtain rc tp tr1 where i: "sockify_transport_init_tls (env_tls E) (env_os E) (Some (s_client_transport (px_mem st1 b))) fd
      (sv_client_tls_context (px_server st1)) True None (px_trace st1) = (rc, tp, tr1)" by (metis prod_cases3)
  define st2 where "st2 = upd b (\<lambda>s. s\<lparr>s_client_transport := the tp\<rparr>) (st1\<lparr>px_trace := tr1\<rparr>)"
  define stt where "stt = (if client_tls_enabled (px_config st)
      then ?set (upd b (\<lambda>s. s\<lparr>s_client_tls_ready := False\<rparr>) st2)
      else ?set (upd b (\<lambda>s. s\<lparr>s_client_transport := ?tp, s_client_tls_ready := True\<rparr>) st1))"
  have al: "session_alloc E b fd ?n stt = (Some a, st')" and ok: "client_tls_enabled (px_config st) \<longrightarrow> rc = SOCKIFY_OK"
    using assms(1) i
    by (auto simp: session_create_def sys_eq Let_def b_def st1_def st2_def stt_def sockify_transport_init_plain_def
        split: if_splits)
  have m: "bare_session (px_mem stt b)" "loop_ok (sv_loop (px_server stt))"
    using assms(2) by (auto simp: bare_session_def stt_def st2_def st1_def)
  note r = session_alloc_run [OF al m(2,1) n]
  show "new_session (px_mem st' a)" "loop_ok (sv_loop (px_server st'))"
    "b_capacity (s_client_to_target (px_mem st' a)) = ?n" using r by simp_all
  have "\<exists>cc. transport_chan (s_client_transport (px_mem stt b)) = Some cc \<and> (\<forall>f. cc = Chan_fd f \<longrightarrow> f = fd)"
    using ok transport_init_tls_quiet(3) [OF i] by (auto simp: stt_def st2_def transport_chan_def)
  then show "\<exists>cc. transport_chan (s_client_transport (px_mem st' a)) = Some cc \<and> (\<forall>f. cc = Chan_fd f \<longrightarrow> f = fd)"
    using r(1,4) by simp
qed

section \<open>Events\<close>

text \<open>What the event loop can do to a session that is not closed: report any events on the client's
  descriptor, and on the target's once that is registered.\<close>

inductive session_event :: "env \<Rightarrow> addr \<Rightarrow> proxy \<Rightarrow> proxy \<Rightarrow> bool" for E a where
  client_side: "s_closing (px_mem st a) \<noteq> 2 \<Longrightarrow>
    session_event E a st (session_event_callback E ev (Ud_side a SESSION_SIDE_CLIENT) st)"
| target_side: "s_closing (px_mem st a) \<noteq> 2 \<Longrightarrow> s_target_registered (px_mem st a) \<Longrightarrow>
    session_event E a st (session_event_callback E ev (Ud_side a SESSION_SIDE_TARGET) st)"

inductive_cases session_eventE: "session_event E a st st'"

abbreviation session_run :: "env \<Rightarrow> addr \<Rightarrow> proxy \<Rightarrow> proxy \<Rightarrow> bool" where
  "session_run E a \<equiv> (session_event E a)\<^sup>*\<^sup>*"

lemma session_event_inv:
  assumes "env_ok E tr0 cc" and "session_event E a st st'" and "sess_inv a cc tr0 st"
  shows "sess_inv a cc tr0 st'"
  using assms(2)
proof (rule session_eventE)
  fix ev
  assume "st' = session_event_callback E ev (Ud_side a SESSION_SIDE_CLIENT) st" "s_closing (px_mem st a) \<noteq> 2"
  then show ?thesis
    using assms(3) client_event_inv [OF assms(1)] by (auto simp: sess_inv_settled session_event_callback_def)
next
  fix ev
  assume "st' = session_event_callback E ev (Ud_side a SESSION_SIDE_TARGET) st" "s_closing (px_mem st a) \<noteq> 2"
    "s_target_registered (px_mem st a)"
  then show ?thesis
    using assms(3) target_event_inv [OF assms(1)] by (auto simp: sess_inv_settled session_event_callback_def)
qed

lemma session_run_inv:
  assumes "env_ok E tr0 cc" and "session_run E a st st'" and "sess_inv a cc tr0 st"
  shows "sess_inv a cc tr0 st'"
  using assms(2,3) by (induction rule: rtranclp_induct) (auto intro: session_event_inv [OF assms(1)])

text \<open>A session that was accepted on \<open>fd\<close> and created in \<open>st1\<close>; \<open>cc\<close> is the client's stream. The rings
  are large enough for the bytes that may follow the longest request head (8192), and the environment
  behaves as documented: a read or write transfers at most what it was asked for, and while the session
  lives \<^verbatim>\<open>socket\<close> and \<^verbatim>\<open>SSL_new\<close> do not return the client's descriptor or handle again.\<close>

definition started :: "env \<Rightarrow> socket \<Rightarrow> addr \<Rightarrow> chan \<Rightarrow> proxy \<Rightarrow> proxy \<Rightarrow> bool" where
  "started E fd a cc st0 st1 \<longleftrightarrow>
     session_create E fd st0 = (Some a, st1) \<and> 0 \<le> fd \<and> loop_ok (sv_loop (px_server st0)) \<and>
     SOCKIFY_WS_MAX_HTTP_REQUEST \<le> session_buffer_size (px_config st0) \<and>
     transport_chan (s_client_transport (px_mem st1 a)) = Some cc \<and> env_ok E (px_trace st1) cc"

lemma started_run_inv:
  assumes "started E fd a cc st0 st1" and "session_run E a st1 st2"
  shows "sess_inv a cc (px_trace st1) st2"
proof -
  have c: "session_create E fd st0 = (Some a, st1)" "loop_ok (sv_loop (px_server st0))"
    and e: "env_ok E (px_trace st1) cc" "transport_chan (s_client_transport (px_mem st1 a)) = Some cc"
    using assms(1) by (simp_all add: started_def)
  note r = session_create_run [OF c]
  have "cc \<noteq> Chan_fd sockify_net_invalid_socket" using r(4) assms(1) by (auto simp: started_def sockify_net_invalid_socket_def)
  then have "open_inv cc (px_mem st1 a) \<lparr>f_cin = [], f_cout = [], f_tin = [], f_tout = []\<rparr>"
    using new_session_open [OF r(1) _ e(2)] r(3) assms(1) by (simp add: started_def)
  from sess_invI [OF flow_start r(2) this] session_run_inv [OF e(1) assms(2)] show ?thesis by blast
qed


section \<open>Properties of a session\<close>

text \<open>
  Property C20. Towards the target. At any moment of the life of a session, after any sequence of
  events, whatever the kernel, OpenSSL, the client and the target did, the bytes sent to the target
  are a prefix of the data carried by the client's frames: the payload of its text, binary and
  continuation frames, unmasked and in order, as the automaton of the frame format reads it from the
  bytes received behind the request head. Nothing is sent before the head is complete; control
  frames and masks never reach the target; no byte is lost, repeated or reordered on the way. The
  session is one that was \<open>started\<close> with rings of at least 8192 bytes; the events are its own.
\<close>

theorem relay_to_target:
  assumes "started E fd a cc st0 st1" and "session_run E a st1 st2"
  shows "\<exists>new. px_trace st2 = new @ px_trace st1 \<and>
    (others_out cc new = [] \<or>
     (\<exists>h. head_end (trace_in cc new) h \<and>
        prefix (others_out cc new) (ws_data (A_Head1 0) (drop h (trace_in cc new)))))"
  using started_run_inv [OF assms] by (auto simp: sess_inv_def safe_def flow_def flow_of_def fw_ok_def)


text \<open>
  Property C22. Nothing is lost. While a session is open and its handshake done, what it received and has
  not sent is in its buffers: the data of the client's frames is what was sent to the target followed
  by the contents of the ring towards it (as long as the client has not sent a close frame), and the
  bytes of the target are the binary payload of the frames sent or queued for the client followed by
  the contents of the ring towards it.
\<close>

theorem relay_lossless:
  assumes "started E fd a cc st0 st1" and "session_run E a st1 st2"
    and "s_closing (px_mem st2 a) \<noteq> 2" and "s_handshake_done (px_mem st2 a)"
  shows "\<exists>new h k rest. px_trace st2 = new @ px_trace st1 \<and>
     head_end (trace_in cc new) h \<and> accept_key (take h (trace_in cc new)) k \<and>
     (s_closing (px_mem st2 a) = 0 \<longrightarrow>
        ws_data (A_Head1 0) (drop h (trace_in cc new)) =
          others_out cc new @ buffer_contents (s_client_to_target (px_mem st2 a))) \<and>
     trace_out cc new @ pending_out (px_mem st2 a) = handshake_text k @ rest \<and>
     binary_payload (decode_frames rest) @ buffer_contents (s_target_to_client (px_mem st2 a)) = others_in cc new"
proof -
  let ?s = "px_mem st2 a"
  obtain F where F: "flow cc (px_trace st1) (px_trace st2) F" "open_inv cc ?s F"
    using started_run_inv [OF assms(1,2)] assms(3) by (auto simp: sess_inv_def safe_def)
  then obtain new where new: "px_trace st2 = new @ px_trace st1" "F = flow_of cc new" by (auto simp: flow_def)
  obtain h n where w: "ws_inv ?s F h n" "s_closing ?s = 0 \<longrightarrow> n = length (f_cin F) - h"
    using F(2) assms(4) by (auto simp: open_inv_def)
  obtain es where es: "ws_run (A_Head1 0) (take n (drop h (f_cin F))) = Some (parser_abs (s_ws_parser ?s), es)"
    "data_bytes es = f_tout F @ buffer_contents (s_client_to_target ?s)"
    using w(1) by (auto simp: ws_inv_def fw_inv_def)
  have "ws_data (A_Head1 0) (drop h (f_cin F)) = f_tout F @ buffer_contents (s_client_to_target ?s)" if "s_closing ?s = 0"
    using ws_run_data [OF es(1), of "[]"] w(2) that es(2) by simp
  moreover obtain k fs where k: "accept_key (take h (f_cin F)) k" "frames_sent fs"
    "f_cout F @ pending_out ?s = handshake_text k @ concat (map fst fs)"
    "binary_payload (map snd fs) @ buffer_contents (s_target_to_client ?s) = f_tin F"
    using w(1) by (auto simp: ws_inv_def bw_inv_def)
  moreover have "decode_frames (concat (map fst fs)) = map snd fs" using decode_frames_sent [OF k(2)] .
  ultimately show ?thesis
    using w(1) unfolding new(2)
    by (intro exI [of _ new] exI [of _ h] exI [of _ k] exI [of _ "concat (map fst fs)"])
      (simp add: flow_of_def ws_inv_def new(1))
qed

end
