(* ===== verification/Relay_Demo.thy ===== *)
theory Relay_Demo
  imports Relay
begin

text \<open>
  A concrete run for the properties of a session: a client on descriptor 5 sends a complete
  upgrade request, the target is reached on descriptor 9.
\<close>

definition demo_request :: "byte list" where
  "demo_request = print_request (cstr ''GET /chat HTTP/1.1'') demo_fields"

definition ret :: "int \<Rightarrow> reply" where
  "ret n = \<lparr>r_ret = n, r_errno = EAGAIN, r_out = 0, r_bytes = [], r_addrs = [1], r_ready = []\<rparr>"

fun is_recv :: "call \<times> reply \<Rightarrow> bool" where
  "is_recv (Call_recv fd n, r) = True"
| "is_recv _ = False"

fun demo_os :: os where
  "demo_os tr (Call_recv fd n) =
     (if filter is_recv tr = [] then (ret (int (length (take n demo_request))))\<lparr>r_bytes := take n demo_request\<rparr>
      else ret (-1))"
| "demo_os tr (Call_send fd bs) = ret (int (length bs))"
| "demo_os tr (Call_ssl c) = ret 0"
| "demo_os tr (Call_socket ai) = ret 9"
| "demo_os tr (Call_mem c) = ret 200"
| "demo_os tr Call_time = ret 1000"
| "demo_os tr _ = ret 0"

definition demo_env :: env where
  "demo_env = \<lparr>env_os = demo_os, env_tls = Backend_none, env_garbage = replicate 64 0,
     env_platform = Platform_other, env_stale = (\<lambda>_ _. 0)\<rparr>"

definition plain_config :: sockify_proxy_config where
  "plain_config = the (sockify_proxy_config_init (Some undefined))"

definition demo_loop :: sockify_event_loop where
  "demo_loop = new_loop 1 2 (Loop_poll \<lparr>pi_array = None, pi_sources = [], pi_pfds = None, pi_capacity = 0\<rparr>)"

definition demo_transport :: sockify_transport where
  "demo_transport = \<lparr>t_type = SOCKIFY_TRANSPORT_PLAIN, t_fd = 5, t_tls = None\<rparr>"

definition demo_start :: proxy where
  "demo_start = (let st = initial_proxy plain_config (\<lambda>_. zero_session) []
     in st\<lparr>px_server := (px_server st)\<lparr>sv_loop := Some demo_loop\<rparr>\<rparr>)"

definition demo_created :: proxy where
  "demo_created = snd (session_create demo_env 5 demo_start)"

definition demo_answered :: proxy where
  "demo_answered = session_event_callback demo_env SOCKIFY_EVENT_READ (Ud_side 200 SESSION_SIDE_CLIENT) demo_created"

lemma demo_env_simps [simp]: "env_os demo_env = demo_os" "env_tls demo_env = Backend_none"
  by (simp_all add: demo_env_def)

lemma demo_os_ok: "os_io demo_os"
  by (simp add: os_io_def ret_def Let_def)

lemma demo_env_ok: "env_ok demo_env tr (Chan_fd 5)"
proof -
  have "fresh demo_os tr (Chan_fd 5)" by (auto simp: fresh_def from_socket_def ret_def)
  then show ?thesis using demo_os_ok by (simp add: env_ok_def demo_env_def)
qed

lemma demo_create:
  "session_create demo_env 5 demo_start = (Some 200, demo_created)"
  "s_client_transport (px_mem demo_created 200) = demo_transport"
  "filter is_recv (px_trace demo_created) = []"
  "s_client_tls_ready (px_mem demo_created 200)"
  "px_config demo_created = plain_config"
  "s_target_fd (px_mem demo_created 200) = sockify_net_invalid_socket"
  "s_client_to_target (px_mem demo_created 200) = init_ring zero_buffer
     (take SOCKIFY_WS_MAX_FRAME_PAYLOAD (replicate SOCKIFY_WS_MAX_FRAME_PAYLOAD 0)) SOCKIFY_WS_MAX_FRAME_PAYLOAD"
  "sv_loop (px_server demo_created) = Some (new_loop 1 2 (Loop_poll \<lparr>pi_array = Some 200,
     pi_sources = [\<lparr>src_self = 0, src_fd = 5, src_events = SOCKIFY_EVENT_READ, src_callback = session_cb,
       src_user_data = Ud_side 200 SESSION_SIDE_CLIENT\<rparr>], pi_pfds = Some 200, pi_capacity = 64\<rparr>))"
  by (simp_all add: demo_created_def demo_transport_def session_create_def demo_start_def demo_env_def initial_proxy_def sys_eq ret_def
      plain_config_def sockify_proxy_config_init_def session_alloc_def px_malloc_def session_register_def
      px_loop_add_def sockify_event_loop_add_def demo_loop_def new_loop_def poll_add_def poll_find_def
      poll_grow_def realloc_ptr_def session_link_def px_time_def sockify_transport_init_plain_def next_capacity_def session_buffer_size_def zero_session_def Let_def
      del: take_replicate)

lemma demo_new: "new_session (px_mem demo_created 200)"
  by (rule session_create_run [OF demo_create(1)])
    (simp add: demo_start_def initial_proxy_def demo_loop_def new_loop_def loop_ok_def sources_ok_def impl_sources_def)

lemma demo_response:
  "sockify_ws_build_handshake_response_ex (replicate 64 0) (Some demo_request) (length demo_request) False 256 =
     (SOCKIFY_OK, 129, length demo_request, handshake_text (cstr ''dGhlIHNhbXBsZSBub25jZQ=='') @ [0])"
proof -
  let ?l = "cstr ''GET /chat HTTP/1.1''" and ?k = "cstr ''dGhlIHNhbXBsZSBub25jZQ==''"
  have l: "?l \<noteq> []" "CR \<notin> set ?l" by (simp_all add: cstr_def)
  have n: "length (print_request ?l demo_fields @ []) \<le> SOCKIFY_WS_MAX_HTTP_REQUEST"
    by (simp add: print_request_def print_lines_def print_field_def demo_fields_def)
  note p = request_fields_print [OF l demo_fields_printable]
  have "upgrade_key demo_request = Some ?k"
    using p(1,2) demo_request_line demo_fields_upgrade by (simp add: upgrade_key_def demo_request_def demo_fields_key)
  moreover have tw: "takeWhile (\<lambda>c. c \<noteq> 0) ?k = ?k" by (simp add: cstr_def)
  have "respond (Some ?k) m 256 = (SOCKIFY_OK, 129, m, handshake_text ?k @ [0])" for m
    unfolding respond_def option.case tw Let_def by (simp add: length_handshake_text cstr_def)
  ultimately show ?thesis
    using build_response_run [of "replicate 64 0" demo_request "length demo_request" 256]
      find_printed_head [OF l demo_fields_printable n] p(3) [of "[]"]
    by (simp add: demo_request_def [symmetric])
qed

text \<open>The state after the request has been received and stored.\<close>

definition demo_received :: proxy where
  "demo_received = session_touch demo_env 200 (upd 200 (\<lambda>x. x\<lparr>s_client_transport := demo_transport\<rparr>)
     (demo_created\<lparr>px_trace := (Call_recv 5 SOCKIFY_PROXY_IO_CHUNK,
        demo_os (px_trace demo_created) (Call_recv 5 SOCKIFY_PROXY_IO_CHUNK)) # px_trace demo_created\<rparr>))"

lemma demo_request_length: "length demo_request \<le> SOCKIFY_PROXY_IO_CHUNK" "demo_request \<noteq> []"
  by (simp_all add: demo_request_def print_request_def print_lines_def print_field_def demo_fields_def)

lemma demo_recv:
  "demo_os (px_trace demo_created) (Call_recv 5 SOCKIFY_PROXY_IO_CHUNK) =
     (ret (int (length demo_request)))\<lparr>r_bytes := demo_request\<rparr>"
  using demo_request_length by (simp add: demo_create)

lemma demo_received_mem:
  "px_mem demo_received 200 = (px_mem demo_created 200)\<lparr>s_client_transport := demo_transport, s_last_activity_at := 1000\<rparr>"
  "px_server demo_received = px_server demo_created"
  "filter is_recv (px_trace demo_received) \<noteq> []"
  by (simp_all add: demo_received_def session_touch_def px_time_def sys_eq demo_env_def ret_def)

lemma demo_handshake:
  "session_handle_handshake_bytes demo_env 200 demo_request (length demo_request) demo_received =
     handshake_rest demo_env 200 demo_request (length demo_request)
       (upd 200 (\<lambda>x. x\<lparr>s_handshake := demo_request, s_handshake_len := length demo_request,
          s_client_out := handshake_text (cstr ''dGhlIHNhbXBsZSBub25jZQ==''), s_client_out_len := 129,
          s_client_out_pos := 0\<rparr>) demo_received)"
proof -
  have n: "new_session (px_mem demo_received 200)" using demo_new by (simp add: demo_received_mem)
  have b: "sockify_ws_build_handshake_response_ex (env_garbage demo_env) (Some demo_request) (length demo_request) False 256 =
     (SOCKIFY_OK, 129, length demo_request, handshake_text (cstr ''dGhlIHNhbXBsZSBub25jZQ=='') @ [0])"
    using demo_response by (simp add: demo_env_def)
  show ?thesis
    using handshake_bytes_eq [of demo_received 200 demo_request demo_request _ demo_env SOCKIFY_OK 129, OF _ _ _ refl _ b]
      n demo_request_length
    by (simp add: new_session_def length_handshake_text upd_def)
qed

definition demo_upgraded :: proxy where
  "demo_upgraded = session_handle_handshake_bytes demo_env 200 demo_request (length demo_request) demo_received"

lemma demo_upgraded_mem:
  "s_handshake_done (px_mem demo_upgraded 200) \<and> s_closing (px_mem demo_upgraded 200) = 0 \<and>
   s_client_transport (px_mem demo_upgraded 200) = demo_transport \<and>
   s_client_to_target (px_mem demo_upgraded 200) = s_client_to_target (px_mem demo_created 200) \<and>
   filter is_recv (px_trace demo_upgraded) \<noteq> []"
  using demo_received_mem demo_create demo_new unfolding demo_upgraded_def demo_handshake
  by (simp add: handshake_rest_def session_start_target_def sockify_net_connect_def
      sys_eq ret_def connect_one_def sockify_net_set_nonblocking_def sockify_net_set_tcp_nodelay_def
      px_time_def sockify_transport_init_plain_def session_register_target_def new_session_def
      px_loop_add_def sockify_event_loop_add_def new_loop_def poll_add_def poll_find_def poll_grow_def Let_def)

text \<open>The first turn of the read loop receives the request, the second one finds nothing.\<close>

lemma demo_read_client:
  "session_read_client demo_env 200 demo_created =
     upd 200 (\<lambda>x. x\<lparr>s_client_transport := demo_transport\<rparr>)
       (demo_upgraded\<lparr>px_trace := snd (sys demo_os (Call_recv 5 SOCKIFY_PROXY_IO_CHUNK) (px_trace demo_upgraded))\<rparr>)"
proof -
  have "read_budget (px_config demo_created) = Suc (Suc 14)"
    by (simp add: demo_create plain_config_def sockify_proxy_config_init_def)
  then obtain m where budget: "read_budget (px_config demo_created) = Suc (Suc m)" ..
  have r1: "sockify_transport_read Backend_none demo_os demo_transport SOCKIFY_PROXY_IO_CHUNK (px_trace demo_created) =
      (SOCKIFY_OK, demo_request, demo_transport, (Call_recv 5 SOCKIFY_PROXY_IO_CHUNK,
        demo_os (px_trace demo_created) (Call_recv 5 SOCKIFY_PROXY_IO_CHUNK)) # px_trace demo_created)"
    using demo_request_length
    by (simp add: sockify_transport_read_def demo_transport_def sockify_net_recv_def sys_eq demo_recv ret_def
        del: demo_os.simps)
  have r2: "sockify_transport_read Backend_none demo_os demo_transport SOCKIFY_PROXY_IO_CHUNK (px_trace demo_upgraded) =
      (SOCKIFY_ERR_AGAIN, [], demo_transport,
       snd (sys demo_os (Call_recv 5 SOCKIFY_PROXY_IO_CHUNK) (px_trace demo_upgraded)))"
    using demo_upgraded_mem
    by (simp add: sockify_transport_read_def demo_transport_def sockify_net_recv_def sockify_net_would_block_def
        sys_eq ret_def)
  note n = demo_new [unfolded new_session_def]
  have ring: "sockify_buffer_writable (s_client_to_target (px_mem demo_created 200)) = SOCKIFY_WS_MAX_FRAME_PAYLOAD"
    "\<not> sockify_buffer_is_high (s_client_to_target (px_mem demo_created 200))"
    using init_ring_run [of SOCKIFY_WS_MAX_FRAME_PAYLOAD
        "take SOCKIFY_WS_MAX_FRAME_PAYLOAD (replicate SOCKIFY_WS_MAX_FRAME_PAYLOAD 0)" zero_buffer]
    by (simp_all add: demo_create sockify_buffer_writable_def sockify_buffer_is_high_def sz_sub_id size_lim_def
        del: take_replicate)
  let ?c = "px_mem demo_created 200" and ?u = "px_mem demo_upgraded 200"
  have lim1: "SOCKIFY_PROXY_IO_CHUNK = (if s_handshake_done ?c then min_size SOCKIFY_PROXY_IO_CHUNK (room 200 demo_created)
      else SOCKIFY_PROXY_IO_CHUNK)" using n by simp
  have lim2: "SOCKIFY_PROXY_IO_CHUNK = (if s_handshake_done ?u then min_size SOCKIFY_PROXY_IO_CHUNK (room 200 demo_upgraded)
      else SOCKIFY_PROXY_IO_CHUNK)" using demo_upgraded_mem ring by simp
  let ?st1 = "upd 200 (\<lambda>x. x\<lparr>s_client_transport := demo_transport\<rparr>)
     (demo_created\<lparr>px_trace := (Call_recv 5 SOCKIFY_PROXY_IO_CHUNK,
        demo_os (px_trace demo_created) (Call_recv 5 SOCKIFY_PROXY_IO_CHUNK)) # px_trace demo_created\<rparr>)"
  let ?st2 = "upd 200 (\<lambda>x. x\<lparr>s_client_transport := demo_transport\<rparr>)
     (demo_upgraded\<lparr>px_trace := snd (sys demo_os (Call_recv 5 SOCKIFY_PROXY_IO_CHUNK) (px_trace demo_upgraded))\<rparr>)"
  have "session_read_client demo_env 200 demo_created = read_client_loop (Suc (Suc m)) demo_env 200 demo_created"
    by (simp only: session_read_client_def budget)
  also have "\<dots> = read_client_turn (Suc m) demo_env 200 SOCKIFY_OK demo_request ?st1"
    by (rule read_client_step [OF _ lim1 _ _ refl]) (use n r1 demo_create(2) in simp_all)
  also have "\<dots> = read_client_loop (Suc m) demo_env 200 demo_upgraded"
    using n demo_upgraded_mem ring demo_received_mem(1)
    unfolding read_client_turn_def demo_received_def [symmetric] demo_upgraded_def [symmetric] Let_def
    by (simp del: read_client_loop.simps)
  also have "\<dots> = read_client_turn m demo_env 200 SOCKIFY_ERR_AGAIN [] ?st2"
    by (rule read_client_step [OF _ lim2 _ _ refl]) (use demo_upgraded_mem r2 in simp_all)
  also have "\<dots> = ?st2" unfolding read_client_turn_def Let_def by simp
  finally show ?thesis .
qed

lemma update_events_mem: "px_mem (session_update_events E a st) = px_mem st"
  by (simp add: session_update_events_def px_loop_modify_def Let_def split: prod.split)

lemma demo_answered_mem:
  "s_handshake_done (px_mem demo_answered 200)" "s_closing (px_mem demo_answered 200) = 0"
proof -
  let ?st = "session_read_client demo_env 200 demo_created"
  have c: "s_closing (px_mem ?st 200) = 0" "s_handshake_done (px_mem ?st 200)"
    using demo_upgraded_mem by (simp_all add: demo_read_client)
  have "demo_answered = session_update_events demo_env 200 ?st"
    using demo_create(4) c
    by (simp add: demo_answered_def session_event_callback_def session_handle_client_event_def client_event_io_def
        Let_def)
  then have "px_mem demo_answered = px_mem (session_update_events demo_env 200 ?st)" by (rule arg_cong)
  also have "\<dots> = px_mem ?st" by (rule update_events_mem)
  finally have "px_mem demo_answered = px_mem ?st" .
  with c show "s_handshake_done (px_mem demo_answered 200)" "s_closing (px_mem demo_answered 200) = 0"
    by (simp_all only:)
qed

lemma demo_started: "started demo_env 5 200 (Chan_fd 5) demo_start demo_created"
  using demo_create(1,2) demo_env_ok
  by (simp add: started_def demo_start_def initial_proxy_def plain_config_def sockify_proxy_config_init_def
      session_buffer_size_def demo_loop_def new_loop_def loop_ok_def sources_ok_def impl_sources_def
      transport_chan_def demo_transport_def Let_def)

lemma demo_session_run: "session_run demo_env 200 demo_created demo_answered"
proof -
  have "s_closing (px_mem demo_created 200) \<noteq> 2" using demo_new by (simp add: new_session_def)
  then show ?thesis unfolding demo_answered_def by (intro r_into_rtranclp session_event.client_side)
qed

theorem relay_to_target_witness:
  "\<exists>new. px_trace demo_answered = new @ px_trace demo_created \<and>
    (others_out (Chan_fd 5) new = [] \<or>
     (\<exists>h. head_end (trace_in (Chan_fd 5) new) h \<and>
        prefix (others_out (Chan_fd 5) new) (ws_data (A_Head1 0) (drop h (trace_in (Chan_fd 5) new)))))"
  by (rule relay_to_target [OF demo_started demo_session_run])


theorem relay_lossless_witness:
  "\<exists>new h k rest. px_trace demo_answered = new @ px_trace demo_created \<and>
     head_end (trace_in (Chan_fd 5) new) h \<and> accept_key (take h (trace_in (Chan_fd 5) new)) k \<and>
     ws_data (A_Head1 0) (drop h (trace_in (Chan_fd 5) new)) =
       others_out (Chan_fd 5) new @ buffer_contents (s_client_to_target (px_mem demo_answered 200)) \<and>
     trace_out (Chan_fd 5) new @ pending_out (px_mem demo_answered 200) = handshake_text k @ rest \<and>
     binary_payload (decode_frames rest) @ buffer_contents (s_target_to_client (px_mem demo_answered 200)) =
       others_in (Chan_fd 5) new"
proof -
  have "s_closing (px_mem demo_answered 200) \<noteq> 2" using demo_answered_mem(2) by simp
  from relay_lossless [OF demo_started demo_session_run this demo_answered_mem(1)] show ?thesis
    using demo_answered_mem(2) by blast
qed

end
