(* ===== verification/Session_List.thy ===== *)
theory Session_List
  imports Server
begin

text \<open>
  The list of sessions a server keeps: the doubly linked list through the session structs that starts
  at \<^verbatim>\<open>server->sessions\<close>, and the counter \<^verbatim>\<open>active_connections\<close>. The abstract list holds the addresses
  in order; creating, closing and every event of a session act on it as expected.
\<close>

section \<open>Doubly linked segments\<close>

text \<open>From \<open>cur\<close>, whose predecessor is \<open>p\<close>, the links run through the addresses to \<open>e\<close>.\<close>

fun seg :: "(addr \<Rightarrow> sockify_proxy_session) \<Rightarrow> addr ptr \<Rightarrow> addr ptr \<Rightarrow> addr list \<Rightarrow> addr ptr \<Rightarrow> bool" where
  "seg mem p cur [] e \<longleftrightarrow> cur = e"
| "seg mem p cur (a # xs) e \<longleftrightarrow>
     cur = Some a \<and> s_prev (mem a) = p \<and> seg mem (Some a) (s_next (mem a)) xs e"

definition last_ptr :: "addr ptr \<Rightarrow> addr list \<Rightarrow> addr ptr" where
  "last_ptr p xs = (if xs = [] then p else Some (last xs))"

lemma last_ptr_simps [simp]: "last_ptr p [] = p" "last_ptr p (xs @ [x]) = Some x" "last_ptr p (x # xs) = last_ptr (Some x) xs"
  by (simp_all add: last_ptr_def)

lemma last_ptr_in: "Some b = last_ptr None xs \<Longrightarrow> b \<in> set xs"
  by (auto simp: last_ptr_def split: if_splits)

lemma seg_append:
  "seg mem p cur (xs @ ys) e \<longleftrightarrow> (\<exists>m. seg mem p cur xs m \<and> seg mem (last_ptr p xs) m ys e)"
  by (induction xs arbitrary: p cur) auto

lemma seg_cong:
  "(\<And>a. a \<in> set xs \<Longrightarrow> s_next (mem' a) = s_next (mem a) \<and> s_prev (mem' a) = s_prev (mem a)) \<Longrightarrow>
     seg mem' p cur xs e = seg mem p cur xs e"
  by (induction xs arbitrary: p cur) auto

definition hd_ptr :: "addr list \<Rightarrow> addr ptr" where
  "hd_ptr xs = (case xs of [] \<Rightarrow> None | x # _ \<Rightarrow> Some x)"

lemma hd_ptr_Cons: "hd_ptr (x # xs) = Some x"
  by (simp add: hd_ptr_def)

lemma seg_hd: "seg mem p cur xs None \<Longrightarrow> cur = hd_ptr xs"
  by (cases xs) (auto simp: hd_ptr_def)

lemma hd_ptr_in: "Some b = hd_ptr xs \<Longrightarrow> b \<in> set xs"
  by (auto simp: hd_ptr_def split: list.splits)

text \<open>Taking an element out.\<close>

lemma seg_unlink:
  assumes "seg mem None h (xs @ a # ys) None" and "distinct (xs @ a # ys)"
    and next': "\<And>b. b \<noteq> a \<Longrightarrow> s_next (mem' b) = (if Some b = last_ptr None xs then hd_ptr ys else s_next (mem b))"
    and prev': "\<And>b. b \<noteq> a \<Longrightarrow> s_prev (mem' b) = (if Some b = hd_ptr ys then last_ptr None xs else s_prev (mem b))"
    and h': "h' = (if xs = [] then hd_ptr ys else h)"
  shows "seg mem' None h' (xs @ ys) None"
proof -
  have x: "seg mem None h xs (Some a)" and y: "seg mem (Some a) (hd_ptr ys) ys None"
    using assms(1) seg_hd by (auto simp: seg_append)
  have "seg mem' None h' xs (hd_ptr ys)"
  proof (cases xs rule: rev_cases)
    case (snoc zs l)
    have l: "l \<noteq> a" "Some l \<noteq> hd_ptr ys" "l \<notin> set zs" "\<And>z. z \<in> set zs \<Longrightarrow> z \<noteq> a \<and> Some z \<noteq> hd_ptr ys"
      using assms(2) snoc by (auto simp: hd_ptr_def split: list.splits)
    have "seg mem None h zs (Some l)" "s_prev (mem l) = last_ptr None zs" using x snoc by (auto simp: seg_append)
    moreover have "seg mem' None h zs (Some l) = seg mem None h zs (Some l)"
      using l snoc by (intro seg_cong) (auto simp: next' prev')
    ultimately show ?thesis using l snoc h' by (auto simp: seg_append next' prev')
  qed (use h' in simp)
  moreover have "seg mem' (last_ptr None xs) (hd_ptr ys) ys None"
  proof (cases ys)
    case (Cons z zs)
    have z: "z \<noteq> a" "z \<notin> set zs" "Some z \<noteq> last_ptr None xs" "\<And>b. b \<in> set zs \<Longrightarrow> b \<noteq> a \<and> Some b \<noteq> last_ptr None xs"
      using assms(2) Cons by (auto dest: last_ptr_in)
    have "seg mem (Some z) (s_next (mem z)) zs None" using y Cons by simp
    moreover have "seg mem' (Some z) (s_next (mem z)) zs None = seg mem (Some z) (s_next (mem z)) zs None"
      using z Cons by (intro seg_cong) (auto simp: next' prev' hd_ptr_def)
    ultimately show ?thesis using z Cons by (auto simp: next' prev' hd_ptr_def)
  qed (simp add: hd_ptr_def)
  ultimately show ?thesis by (auto simp: seg_append)
qed

section \<open>The list of a server\<close>

definition sessions_ok :: "proxy \<Rightarrow> addr list \<Rightarrow> bool" where
  "sessions_ok st xs \<longleftrightarrow>
     seg (px_mem st) None (sv_sessions (px_server st)) xs None \<and> distinct xs \<and>
     sv_active_connections (px_server st) = length xs \<and>
     (\<forall>a \<in> set xs. s_closing (px_mem st a) \<noteq> 2)"

text \<open>The fields of a session but its links.\<close>

definition unlinked :: "sockify_proxy_session \<Rightarrow> sockify_proxy_session" where
  "unlinked s = s\<lparr>s_next := None, s_prev := None\<rparr>"

lemma unlinked_simps [simp]:
  "unlinked (s\<lparr>s_next := n\<rparr>) = unlinked s" "unlinked (s\<lparr>s_prev := n\<rparr>) = unlinked s"
  by (simp_all add: unlinked_def)

lemma unlink_session_list:
  assumes "seg (px_mem st) None (sv_sessions (px_server st)) (xs @ a # ys) None" and "distinct (xs @ a # ys)"
    and "sv_active_connections (px_server st) = length (xs @ a # ys)"
  defines "st' \<equiv> server_unlink_session a st"
  shows "seg (px_mem st') None (sv_sessions (px_server st')) (xs @ ys) None"
    and "sv_active_connections (px_server st') = length (xs @ ys)"
    and "unlinked (px_mem st' b) = unlinked (px_mem st b)"
    and "sv_config (px_server st') = sv_config (px_server st)"
proof -
  have a: "s_prev (px_mem st a) = last_ptr None xs" "s_next (px_mem st a) = hd_ptr ys"
    "xs = [] \<Longrightarrow> sv_sessions (px_server st) = Some a"
    using assms(1) seg_hd by (auto simp: seg_append)
  have ne: "Some a \<noteq> last_ptr None xs" "Some a \<noteq> hd_ptr ys"
    using assms(2) last_ptr_in [of a xs] hd_ptr_in [of a ys] by auto
  have ne': "Some b \<noteq> last_ptr None xs" if "Some b = hd_ptr ys" for b
    using assms(2) last_ptr_in [of b xs] hd_ptr_in [OF that] by auto
  define h' where "h' = (if xs = [] then hd_ptr ys else sv_sessions (px_server st))"
  have e: "px_mem st' b = (if b = a then (px_mem st a)\<lparr>s_prev := None, s_next := None\<rparr>
      else (px_mem st b)\<lparr>s_next := (if Some b = last_ptr None xs then hd_ptr ys else s_next (px_mem st b)),
        s_prev := (if Some b = hd_ptr ys then last_ptr None xs else s_prev (px_mem st b))\<rparr>)"
    "sv_sessions (px_server st') = h'" "sv_active_connections (px_server st') = length (xs @ ys)"
    "sv_config (px_server st') = sv_config (px_server st)" for b
    using a ne ne' assms(3)
    by (cases xs; cases "hd_ptr ys"; auto simp: st'_def server_unlink_session_def unlink_rest_def Let_def h'_def
        last_ptr_def split: option.splits)+
  show "seg (px_mem st') None (sv_sessions (px_server st')) (xs @ ys) None"
    by (rule seg_unlink [OF assms(1,2)]) (simp_all add: e h'_def)
  show "sv_active_connections (px_server st') = length (xs @ ys)"
    "sv_config (px_server st') = sv_config (px_server st)" by (simp_all add: e)
  show "unlinked (px_mem st' b) = unlinked (px_mem st b)" by (simp add: e unlinked_def)
qed

section \<open>Closing\<close>

text \<open>What an operation on one session does before it unlinks it: it changes that session only, and not
  its links, and neither the list nor the counter of the server.\<close>

definition local_step :: "addr \<Rightarrow> proxy \<Rightarrow> proxy \<Rightarrow> bool" where
  "local_step a st st' \<longleftrightarrow>
     (\<forall>b. b \<noteq> a \<longrightarrow> px_mem st' b = px_mem st b) \<and>
     s_next (px_mem st' a) = s_next (px_mem st a) \<and> s_prev (px_mem st' a) = s_prev (px_mem st a) \<and>
     sv_sessions (px_server st') = sv_sessions (px_server st) \<and>
     sv_active_connections (px_server st') = sv_active_connections (px_server st) \<and>
     sv_config (px_server st') = sv_config (px_server st)"

lemma local_step_refl [simp]: "local_step a st st"
  by (simp add: local_step_def)

lemma local_step_trans: "local_step a st st1 \<Longrightarrow> local_step a st1 st2 \<Longrightarrow> local_step a st st2"
  by (simp add: local_step_def)

lemma local_step_upd:
  "s_next (f (px_mem st a)) = s_next (px_mem st a) \<Longrightarrow> s_prev (f (px_mem st a)) = s_prev (px_mem st a) \<Longrightarrow>
     local_step a st (upd a f st)"
  by (simp add: local_step_def)

lemma px_primitives_server [simp]:
  "sv_sessions (px_server (px_loop_remove E fd st)) = sv_sessions (px_server st)"
  "sv_active_connections (px_server (px_loop_remove E fd st)) = sv_active_connections (px_server st)"
  "sv_config (px_server (px_loop_remove E fd st)) = sv_config (px_server st)"
  "sv_sessions (px_server (px_loop_modify E fd ev st)) = sv_sessions (px_server st)"
  "sv_active_connections (px_server (px_loop_modify E fd ev st)) = sv_active_connections (px_server st)"
  "sv_config (px_server (px_loop_modify E fd ev st)) = sv_config (px_server st)"
  "px_server (px_net_close E fd st) = px_server st" "px_server (px_free E p st) = px_server st"
  by (simp_all add: px_loop_remove_def px_loop_modify_def px_net_close_def px_free_def
      split: prod.splits option.splits)

lemma close_steps_local:
  "local_step a st (close_unregister E a st)" "local_step a st (close_client_transport E a st)"
  "local_step a st (close_target_transport E a st)"
  by (simp_all add: local_step_def close_unregister_def close_client_transport_def close_target_transport_def
      Let_def split: prod.splits)

lemma close_steps_all:
  "local_step a st (close_target_transport E a (close_client_transport E a (close_unregister E a
     (upd a (\<lambda>s. s\<lparr>s_closing := 2\<rparr>) st))))"
  by (intro local_step_trans [OF _ close_steps_local(3)] local_step_trans [OF _ close_steps_local(2)]
      local_step_trans [OF _ close_steps_local(1)] local_step_upd) simp_all

lemma close_steps_closing:
  "s_closing (px_mem (close_unregister E a st) a) = s_closing (px_mem st a)"
  "s_closing (px_mem (close_client_transport E a st) a) = s_closing (px_mem st a)"
  "s_closing (px_mem (close_target_transport E a st) a) = s_closing (px_mem st a)"
  by (simp_all add: close_unregister_def close_client_transport_def close_target_transport_def Let_def
      split: prod.splits)

lemma close_free_same [simp]:
  "px_mem (close_free E a st) = px_mem st" "px_server (close_free E a st) = px_server st"
  "px_live (close_free E a st) = (px_live st)(a := False)"
  by (simp_all add: close_free_def Let_def px_free_def split: option.splits)

text \<open>Closing a listed session takes it out of the list and changes no other session but for the links.\<close>

lemma session_close_list:
  assumes "sessions_ok st L" and "a \<in> set L"
  shows "sessions_ok (session_close E a st) (remove1 a L)"
    and "s_closing (px_mem (session_close E a st) a) = 2"
    and "b \<noteq> a \<Longrightarrow> unlinked (px_mem (session_close E a st) b) = unlinked (px_mem st b)"
    and "sv_config (px_server (session_close E a st)) = sv_config (px_server st)"
    and "\<not> px_live (session_close E a st) a"
proof -
  obtain xs ys where L: "L = xs @ a # ys" by (metis assms(2) split_list)
  define st1 where "st1 = upd a (\<lambda>s. s\<lparr>s_closing := 2\<rparr>) st"
  define st4 where "st4 = close_target_transport E a (close_client_transport E a (close_unregister E a st1))"
  have c: "s_closing (px_mem st a) \<noteq> 2" using assms by (simp add: sessions_ok_def)
  then have eq: "session_close E a st = close_free E a (server_unlink_session a st4)"
    by (simp add: session_close_def Let_def st1_def st4_def)
  have loc: "local_step a st st4"
    unfolding st4_def st1_def by (rule close_steps_all)
  have "seg (px_mem st4) None (sv_sessions (px_server st4)) L None =
      seg (px_mem st) None (sv_sessions (px_server st4)) L None"
    using loc by (intro seg_cong) (auto simp: local_step_def)
  then have s4: "seg (px_mem st4) None (sv_sessions (px_server st4)) (xs @ a # ys) None" "distinct (xs @ a # ys)"
    "sv_active_connections (px_server st4) = length (xs @ a # ys)"
    using assms(1) loc by (auto simp: sessions_ok_def local_step_def L)
  note u = unlink_session_list [OF s4]
  have cl: "s_closing (px_mem (server_unlink_session a st4) b) = s_closing (px_mem st4 b)" for b
    using arg_cong [OF u(3) [of b], of s_closing] by (simp add: unlinked_def)
  have r: "remove1 a L = xs @ ys" using s4(2) by (simp add: L remove1_append)
  have "\<forall>b \<in> set (xs @ ys). s_closing (px_mem st4 b) \<noteq> 2"
    using assms(1) loc s4(2) by (auto simp: sessions_ok_def local_step_def L)
  then show "sessions_ok (session_close E a st) (remove1 a L)"
    using u(1,2) s4(2) cl unfolding r eq by (auto simp: sessions_ok_def)
  have "s_closing (px_mem st4 a) = 2" by (simp add: st4_def st1_def close_steps_closing)
  then show "s_closing (px_mem (session_close E a st) a) = 2" using cl eq by simp
  show "unlinked (px_mem (session_close E a st) b) = unlinked (px_mem st b)" if "b \<noteq> a"
    using that u(3) [of b] loc by (simp add: eq local_step_def)
  show "sv_config (px_server (session_close E a st)) = sv_config (px_server st)"
    using u(4) loc by (simp add: eq local_step_def)
  show "\<not> px_live (session_close E a st) a" by (simp add: eq)
qed

section \<open>Events\<close>

text \<open>While the operations on one session of the list run: it is in the list until it is closed.\<close>

definition kept :: "addr \<Rightarrow> addr list \<Rightarrow> proxy \<Rightarrow> bool" where
  "kept a L st \<longleftrightarrow>
     (if s_closing (px_mem st a) = 2 then a \<notin> set (remove1 a L) \<and> sessions_ok st (remove1 a L)
      else a \<in> set L \<and> sessions_ok st L)"

lemma sessions_ok_local:
  assumes "local_step a st st'" and "s_closing (px_mem st' a) = 2 \<longleftrightarrow> s_closing (px_mem st a) = 2"
  shows "sessions_ok st' L = sessions_ok st L"
proof -
  have "s_next (px_mem st' b) = s_next (px_mem st b) \<and> s_prev (px_mem st' b) = s_prev (px_mem st b)" for b
    using assms(1) by (cases "b = a") (simp_all add: local_step_def)
  then have "seg (px_mem st') p h L e = seg (px_mem st) p h L e" for p h e by (intro seg_cong) simp
  moreover have "(s_closing (px_mem st' b) = 2) = (s_closing (px_mem st b) = 2)" for b
    using assms by (cases "b = a") (simp_all add: local_step_def)
  ultimately show ?thesis using assms(1) by (simp add: sessions_ok_def local_step_def)
qed

lemma kept_local:
  assumes "local_step a st st'" and "s_closing (px_mem st' a) = 2 \<longleftrightarrow> s_closing (px_mem st a) = 2"
  shows "kept a L st' = kept a L st"
  using assms sessions_ok_local [OF assms] by (simp add: kept_def)

lemma kept_upd [simp]:
  assumes "\<And>s. s_next (f s) = s_next s" and "\<And>s. s_prev (f s) = s_prev s"
    and "\<And>s. (s_closing (f s) = 2) = (s_closing s = 2)"
  shows "kept a L (upd a f st) = kept a L st"
  using assms by (intro kept_local) (simp_all add: local_step_def)

lemma kept_closing: "kept a L st \<Longrightarrow> s_closing (px_mem st a) \<noteq> 2 \<Longrightarrow> c \<noteq> 2 \<Longrightarrow> f = (\<lambda>s. s\<lparr>s_closing := c\<rparr>) \<Longrightarrow>
    kept a L (upd a f st)"
  using kept_local [of a st "upd a f st" L] by (simp add: local_step_def)

lemma kept_primitives [simp]:
  "kept a L (st\<lparr>px_trace := tr\<rparr>) = kept a L st" "kept a L (px_loop_remove E fd st) = kept a L st"
  "kept a L (px_loop_modify E fd ev st) = kept a L st"
  by (rule kept_local; simp add: local_step_def)+

lemma kept_loop_add: "px_loop_add E fd ev cb ud st = (rc, st') \<Longrightarrow> kept a L st' = kept a L st"
  by (rule kept_local) (auto simp: px_loop_add_def local_step_def split: prod.splits)

lemma kept_time: "px_time E st = (t, st') \<Longrightarrow> kept a L st' = kept a L st"
  by (auto simp: px_time_def sys_eq)

lemma kept_touch [simp]: "kept a L (session_touch E a st) = kept a L st"
  by (simp add: session_touch_def kept_time split: prod.split)

lemma kept_close: "kept a L st \<Longrightarrow> kept a L (session_close E a st)"
proof (cases "s_closing (px_mem st a) = 2")
  case True
  then show "kept a L st \<Longrightarrow> kept a L (session_close E a st)" by (simp add: session_close_def)
next
  case False
  assume "kept a L st"
  then have k: "sessions_ok st L" "a \<in> set L" using False by (simp_all add: kept_def)
  then have "a \<notin> set (remove1 a L)" by (simp add: sessions_ok_def)
  then show "kept a L (session_close E a st)"
    using session_close_list(1,2) [OF k] by (simp add: kept_def)
qed

lemma kept_make_frame: "session_make_ws_frame a op pl n st = (rc, st') \<Longrightarrow> kept a L st' = kept a L st"
  by (auto simp: session_make_ws_frame_def Let_def split: if_splits prod.splits)

lemma kept_set_out: "session_set_client_out a d n st = (rc, st') \<Longrightarrow> kept a L st' = kept a L st"
  by (auto simp: session_set_client_out_def Let_def split: if_splits)

lemma kept_register_target: "session_register_target E a st = (rc, st') \<Longrightarrow> kept a L st' = kept a L st"
  by (auto simp: session_register_target_def Let_def kept_loop_add split: if_splits prod.splits)

lemma kept_start_target: "session_start_target E a st = (rc, st') \<Longrightarrow> kept a L st' = kept a L st"
  by (auto simp: session_start_target_def Let_def kept_time kept_register_target
      split: if_splits prod.splits)

lemma kept_complete_connect: "session_complete_target_connect E a st = (rc, st') \<Longrightarrow> kept a L st' = kept a L st"
  by (auto simp: session_complete_target_connect_def Let_def kept_time split: if_splits prod.splits)

lemma kept_drive:
  "session_drive_client_tls E a st = (rc, st') \<Longrightarrow> kept a L st' = kept a L st"
  "session_drive_target_tls E a st = (rc, st') \<Longrightarrow> kept a L st' = kept a L st"
  by (auto simp: session_drive_client_tls_def session_drive_target_tls_def Let_def split: if_splits prod.splits)

text \<open>The control structure of an operation, one goal per path.\<close>

lemma kept_cases:
  "(c \<Longrightarrow> kept a L x) \<Longrightarrow> (\<not> c \<Longrightarrow> kept a L y) \<Longrightarrow> kept a L (if c then x else y)"
  "(\<And>u. u = e \<Longrightarrow> kept a L (f u)) \<Longrightarrow> kept a L (Let e f)"
  "(\<And>u v. p = (u, v) \<Longrightarrow> kept a L (g u v)) \<Longrightarrow> kept a L (case p of (u, v) \<Rightarrow> g u v)"
  by (auto split: prod.split)

lemmas kept_pairs = kept_make_frame [THEN iffD2] kept_set_out [THEN iffD2] kept_start_target [THEN iffD2]
  kept_complete_connect [THEN iffD2] kept_drive [THEN iffD2]

lemma kept_message:
  assumes "kept a L st" and "s_closing (px_mem st a) \<noteq> 2"
  shows "kept a L (session_handle_ws_message E a msg st)"
proof -
  have "kept a L (upd a (\<lambda>x. x\<lparr>s_closing := Suc 0, s_pending_close_payload := g x,
      s_pending_close_payload_len := n, s_pending_close := True\<rparr>) st)" for n g
    using assms by (subst kept_local) (simp_all add: local_step_def)
  with assms(1) show ?thesis
    unfolding session_handle_ws_message_def
    by (intro kept_cases) (simp_all add: kept_close, (auto intro: kept_pairs kept_close)?)
qed

lemma kept_process_loop:
  assumes "kept a L st"
  shows "kept a L (snd (process_ws_loop E a data n pos st))"
  using assms
proof (induction E a data n pos st rule: process_ws_loop.induct)
  case (1 E a data n pos st)
  define cap where "cap = min_size SOCKIFY_PROXY_IO_CHUNK (sockify_buffer_writable (s_client_to_target (px_mem st a)))"
  obtain rc used parser msg where f: "sockify_ws_parser_feed (Some (s_ws_parser (px_mem st a))) (Some (drop pos data))
      (n - pos) False cap = (rc, used, parser, msg)" by (metis prod_cases4)
  let ?st1 = "upd a (\<lambda>s. s\<lparr>s_ws_parser := the parser\<rparr>) st"
  show ?case
  proof (cases "pos < n \<and> s_closing (px_mem st a) = 0 \<and> cap \<noteq> 0")
    case True
    have k: "kept a L ?st1" using "1.prems" by simp
    have m: "kept a L (session_handle_ws_message E a msg ?st1)" using kept_message [OF k] True by simp
    note ih = "1.IH" [of cap rc "(used, parser, msg)" used "(parser, msg)" parser msg ?st1, OF _ cap_def]
    show ?thesis
      using True f k m ih
      by (subst process_ws_loop.simps) (auto simp: Let_def cap_def [symmetric] simp del: min_size_min)
  next
    case False
    then show ?thesis
      using "1.prems" by (subst process_ws_loop.simps) (auto simp: Let_def cap_def [symmetric] simp del: min_size_min)
  qed
qed

lemma kept_process_bytes: "session_process_ws_bytes E a data n st = (rc, st') \<Longrightarrow> kept a L st \<Longrightarrow> kept a L st'"
  using kept_process_loop [of a L st E data n 0]
  by (auto simp: session_process_ws_bytes_def split: prod.splits option.splits if_splits)

lemma kept_handshake:
  assumes "kept a L st"
  shows "kept a L (session_handle_handshake_bytes E a data n st)"
proof -
  let ?s = "px_mem st a"
  define request where "request = take (s_handshake_len ?s) (s_handshake ?s) @ take n data"
  define len where "len = s_handshake_len ?s + n"
  define st1 where "st1 = upd a (\<lambda>x. x\<lparr>s_handshake := request, s_handshake_len := len\<rparr>) st"
  obtain rc rl consumed resp where b: "sockify_ws_build_handshake_response_ex (env_garbage E) (Some request) len False 256 =
    (rc, rl, consumed, resp)" by (metis prod_cases4)
  obtain rc1 st2 where o: "session_set_client_out a resp rl st1 = (rc1, st2)" by fastforce
  obtain rc2 st3 where t: "session_start_target E a (upd a (\<lambda>x. x\<lparr>s_handshake_done := True\<rparr>) st2) = (rc2, st3)"
    by fastforce
  obtain rc3 st4 where p: "session_process_ws_bytes E a (drop consumed request) (len - consumed) st3 = (rc3, st4)"
    by fastforce
  have k1: "kept a L st1" using assms by (simp add: st1_def)
  then have k2: "kept a L st2" using kept_set_out [OF o] by simp
  then have k3: "kept a L st3" using kept_start_target [OF t] by simp
  have k4: "kept a L st4" using kept_process_bytes [OF p k3] .
  show ?thesis
    unfolding session_handle_handshake_bytes_def Let_def request_def [symmetric] len_def [symmetric] st1_def [symmetric]
    using assms k1 k2 k3 k4 by (simp add: b o t p kept_close)
qed

lemma kept_read_client: "kept a L st \<Longrightarrow> kept a L (read_client_loop n E a st)"
proof (induction n arbitrary: st)
  case (Suc n)
  show ?case
    unfolding read_client_loop.simps
    by (intro kept_cases)
      (insert Suc.prems, auto intro!: kept_close Suc.IH kept_handshake intro: kept_process_bytes simp del: min_size_min)
qed simp

lemma kept_write_client_loop: "write_client_loop n E a st = (r, st') \<Longrightarrow> kept a L st \<Longrightarrow> kept a L st'"
proof (induction n arbitrary: st)
  case (Suc n)
  then show ?case
    by (auto simp: Let_def intro: kept_close split: if_splits prod.splits)
qed simp

lemma kept_write_next: "kept a L st \<Longrightarrow> kept a L (write_client_next E a st)"
  unfolding write_client_next_def
  by (intro kept_cases) (auto intro: kept_close dest: kept_make_frame [where L = L] simp del: min_size_min)

lemma kept_write_client: "kept a L st \<Longrightarrow> kept a L (session_write_client E a st)"
  unfolding session_write_client_def
  by (intro kept_cases) (auto intro: kept_write_next kept_write_client_loop)

lemma kept_read_target: "kept a L st \<Longrightarrow> kept a L (read_target_loop n E a st)"
proof (induction n arbitrary: st)
  case (Suc n)
  show ?case
    unfolding read_target_loop.simps
    by (intro kept_cases) (insert Suc.prems, auto intro!: kept_close Suc.IH)
qed simp

lemma kept_write_target: "kept a L st \<Longrightarrow> kept a L (write_target_loop n E a st)"
proof (induction n arbitrary: st)
  case (Suc n)
  show ?case
    unfolding write_target_loop.simps
    by (intro kept_cases) (insert Suc.prems, auto intro!: kept_close Suc.IH simp del: min_size_min)
qed simp

lemma kept_update_events: "kept a L st \<Longrightarrow> kept a L (session_update_events E a st)"
  by (simp add: session_update_events_def Let_def)

lemma kept_io:
  "kept a L st \<Longrightarrow> kept a L (client_event_io E a ev st)"
  "kept a L st \<Longrightarrow> kept a L (target_event_io E a ev st)"
  unfolding client_event_io_def target_event_io_def session_read_client_def session_read_target_def session_write_target_def
  by (auto simp: Let_def intro!: kept_update_events kept_read_client kept_write_client kept_read_target kept_write_target)

lemma kept_target_tls: "kept a L st \<Longrightarrow> kept a L (target_event_tls E a ev st)"
  unfolding target_event_tls_def
  by (intro kept_cases) (auto intro: kept_close kept_io kept_update_events kept_drive [THEN iffD2])

lemma kept_handlers:
  "kept a L st \<Longrightarrow> kept a L (session_handle_client_event E a ev st)"
  "kept a L st \<Longrightarrow> kept a L (session_handle_target_event E a ev st)"
  unfolding session_handle_client_event_def session_handle_target_event_def
  by (intro kept_cases; auto intro: kept_close kept_io kept_target_tls kept_update_events
      kept_drive [THEN iffD2] kept_complete_connect [THEN iffD2])+

lemma kept_event: "kept a L st \<Longrightarrow> kept a L (session_event_callback E ev (Ud_side a sd) st)"
  by (cases sd) (simp_all add: session_event_callback_def kept_handlers)

section \<open>Timeouts\<close>

lemma unlink_live [simp]: "px_live (server_unlink_session a st) = px_live st"
  by (simp add: server_unlink_session_def unlink_rest_def Let_def split: option.splits)

lemma close_live: "b \<noteq> a \<Longrightarrow> px_live (session_close E a st) b = px_live st b"
  by (simp add: session_close_def Let_def close_unregister_def close_client_transport_def close_target_transport_def
      px_loop_remove_def px_net_close_def split: prod.splits)

text \<open>Expiry does not depend on the links.\<close>

lemma expired_unlinked:
  "unlinked s = unlinked s' \<Longrightarrow> session_is_expired s config now = session_is_expired s' config now"
  by (cases s; cases s') (simp add: unlinked_def session_is_expired_def)

lemma closing_unlinked: "unlinked s = unlinked s' \<Longrightarrow> s_closing s = s_closing s'"
  by (cases s; cases s') (simp add: unlinked_def)

text \<open>The sessions of the list after a sweep: those that \<open>P\<close> selects are closed, no other one has changed
  but for the links.\<close>

definition swept :: "(addr \<Rightarrow> bool) \<Rightarrow> addr list \<Rightarrow> proxy \<Rightarrow> proxy \<Rightarrow> bool" where
  "swept P L st st' \<longleftrightarrow>
     (\<forall>a \<in> set L. P a \<longrightarrow> s_closing (px_mem st' a) = 2 \<and> \<not> px_live st' a) \<and>
     (\<forall>b. b \<notin> set L \<or> \<not> P b \<longrightarrow> unlinked (px_mem st' b) = unlinked (px_mem st b) \<and> px_live st' b = px_live st b) \<and>
     px_config st' = px_config st"

lemma swept_Nil [simp]: "swept P [] st st"
  by (simp add: swept_def)

lemma swept_close:
  assumes "sessions_ok st M" and "a \<in> set M" and "P a" and "a \<notin> set L"
    and "swept P L (session_close E a st) st'"
  shows "swept P (a # L) st st'"
proof -
  note c = session_close_list [OF assms(1,2), where E = E]
  have "unlinked (px_mem st' a) = unlinked (px_mem (session_close E a st) a)" "\<not> px_live st' a"
    using assms(4,5) c(5) by (auto simp: swept_def)
  then have "s_closing (px_mem st' a) = 2" using closing_unlinked c(2) by metis
  moreover have "unlinked (px_mem (session_close E a st) b) = unlinked (px_mem st b) \<and>
      px_live (session_close E a st) b = px_live st b" if "b \<notin> set (a # L) \<or> \<not> P b" for b
    using that assms(3) c(3) [of b] close_live [of b a E st] by (cases "b = a") auto
  ultimately show ?thesis
    using \<open>\<not> px_live st' a\<close> assms(3,5) c(4) by (simp add: swept_def)
qed

lemma swept_keep: "\<not> P a \<Longrightarrow> swept P L st st' \<Longrightarrow> swept P (a # L) st st'"
  by (auto simp: swept_def)

lemma swept_cong:
  "(\<And>a. a \<in> set L \<Longrightarrow> P a = Q a) \<Longrightarrow> swept P L st st' = swept Q L st st'"
  by (auto simp: swept_def)

definition expired :: "int \<Rightarrow> proxy \<Rightarrow> addr \<Rightarrow> bool" where
  "expired now st a \<longleftrightarrow> session_is_expired (px_mem st a) (px_config st) now"

lemma tick_loop_run:
  assumes "sessions_ok st (ds @ bs)"
  shows "\<exists>st'. tick_loop E now (hd_ptr bs) st = Some st' \<and> sessions_ok st' (ds @ filter (\<lambda>a. \<not> expired now st a) bs) \<and>
     swept (expired now st) bs st st'"
  using assms
proof (induction bs arbitrary: st ds)
  case Nil
  then show ?case by (auto simp: hd_ptr_def tick_loop.simps)
next
  case (Cons a bs)
  have next': "s_next (px_mem st a) = hd_ptr bs"
    using Cons.prems seg_hd by (auto simp: sessions_ok_def seg_append)
  have dist: "a \<notin> set ds" "a \<notin> set bs" using Cons.prems by (auto simp: sessions_ok_def)
  show ?case
  proof (cases "expired now st a")
    case True
    let ?st1 = "session_close E a st"
    have "a \<in> set (ds @ a # bs)" by simp
    note c = session_close_list [OF Cons.prems this, where E = E]
    have ok: "sessions_ok ?st1 (ds @ bs)" using c(1) dist by (simp add: remove1_append)
    have same: "expired now ?st1 b = expired now st b" if "b \<in> set bs" for b
    proof -
      have "b \<noteq> a" using that dist by auto
      from expired_unlinked [OF c(3) [OF this]] show ?thesis by (simp add: expired_def c(4))
    qed
    then have f: "filter (\<lambda>b. \<not> expired now ?st1 b) bs = filter (\<lambda>b. \<not> expired now st b) bs" by (intro filter_cong) auto
    obtain st' where st': "tick_loop E now (hd_ptr bs) ?st1 = Some st'"
      "sessions_ok st' (ds @ filter (\<lambda>b. \<not> expired now st b) bs)" "swept (expired now ?st1) bs ?st1 st'"
      using Cons.IH [OF ok] f by auto
    have "swept (expired now st) bs ?st1 st'" using st'(3) swept_cong [of bs "expired now st" "expired now ?st1"] same by simp
    then have "swept (expired now st) (a # bs) st st'"
      using swept_close [OF Cons.prems, of a "expired now st" bs E st'] True dist(2) by simp
    moreover have "tick_loop E now (hd_ptr (a # bs)) st = Some st'"
      using st'(1) True next' by (simp add: tick_loop.simps [of E now "Some a" st] hd_ptr_Cons expired_def)
    ultimately show ?thesis using st'(2) True by auto
  next
    case False
    have "sessions_ok st ((ds @ [a]) @ bs)" using Cons.prems by simp
    from Cons.IH [OF this] obtain st' where st': "tick_loop E now (hd_ptr bs) st = Some st'"
      "sessions_ok st' (ds @ a # filter (\<lambda>b. \<not> expired now st b) bs)" "swept (expired now st) bs st st'"
      by auto
    moreover have "tick_loop E now (hd_ptr (a # bs)) st = Some st'"
      using st'(1) False next' by (simp add: tick_loop.simps [of E now "Some a" st] hd_ptr_Cons expired_def)
    ultimately show ?thesis using False swept_keep by auto
  qed
qed

lemma close_all_run:
  "sessions_ok st L \<Longrightarrow>
     \<exists>st'. close_all E st = Some st' \<and> sessions_ok st' [] \<and> swept (\<lambda>a. True) L st st'"
proof (induction L arbitrary: st)
  case Nil
  then show ?case by (auto simp: sessions_ok_def close_all.simps)
next
  case (Cons a L)
  have a: "a \<notin> set L" "sv_sessions (px_server st) = Some a" using Cons.prems by (simp_all add: sessions_ok_def)
  have "sessions_ok (session_close E a st) L"
    using session_close_list(1) [OF Cons.prems, of a E] by simp
  from Cons.IH [OF this] obtain st' where st': "close_all E (session_close E a st) = Some st'" "sessions_ok st' []"
    "swept (\<lambda>a. True) L (session_close E a st) st'" by blast
  then show ?case
    using swept_close [OF Cons.prems, of a "\<lambda>a. True" L E st'] a by (simp add: close_all.simps [of E st])
qed

section \<open>Accepting\<close>

lemma active_unlink: "sv_active_connections (px_server (server_unlink_session a st)) \<le> sv_active_connections (px_server st)"
  by (auto simp: server_unlink_session_def unlink_rest_def Let_def split: option.splits)

lemma close_steps_server:
  "sv_active_connections (px_server (close_unregister E a st)) = sv_active_connections (px_server st)"
  "sv_active_connections (px_server (close_client_transport E a st)) = sv_active_connections (px_server st)"
  "sv_active_connections (px_server (close_target_transport E a st)) = sv_active_connections (px_server st)"
  using close_steps_local [of a st E] by (simp_all add: local_step_def)

lemma active_close: "sv_active_connections (px_server (session_close E a st)) \<le> sv_active_connections (px_server st)"
  using active_unlink [of a "close_target_transport E a (close_client_transport E a (close_unregister E a
      (upd a (\<lambda>s. s\<lparr>s_closing := 2\<rparr>) st)))"]
  by (simp add: session_close_def Let_def close_steps_server)

text \<open>A session under construction: not in the list yet.\<close>

definition unlisted :: "addr \<Rightarrow> addr list \<Rightarrow> proxy \<Rightarrow> bool" where
  "unlisted a L st \<longleftrightarrow>
     sessions_ok st L \<and> a \<notin> set L \<and> s_next (px_mem st a) = None \<and> s_prev (px_mem st a) = None \<and>
     s_closing (px_mem st a) = 0"

lemma sessions_ok_other:
  assumes "\<And>b. b \<noteq> a \<Longrightarrow> px_mem st' b = px_mem st b" and "a \<notin> set L"
    and "sv_sessions (px_server st') = sv_sessions (px_server st)"
    and "sv_active_connections (px_server st') = sv_active_connections (px_server st)"
  shows "sessions_ok st' L = sessions_ok st L"
proof -
  have m: "px_mem st' b = px_mem st b" if "b \<in> set L" for b using that assms(2) by (intro assms(1)) auto
  then have "seg (px_mem st') None h L None = seg (px_mem st) None h L None" for h by (intro seg_cong) simp
  then show ?thesis using m assms(3,4) by (simp add: sessions_ok_def)
qed

lemma unlisted_upd [simp]:
  assumes "\<And>s. s_next (f s) = s_next s" and "\<And>s. s_prev (f s) = s_prev s" and "\<And>s. s_closing (f s) = s_closing s"
  shows "unlisted a L (upd a f st) = unlisted a L st"
  using assms sessions_ok_other [of a "upd a f st" st L] by (auto simp: unlisted_def)

lemma unlisted_same:
  assumes "px_mem st' = px_mem st" and "sv_sessions (px_server st') = sv_sessions (px_server st)"
    and "sv_active_connections (px_server st') = sv_active_connections (px_server st)"
  shows "unlisted a L st' = unlisted a L st"
  using assms by (simp add: unlisted_def sessions_ok_def)

lemma unlisted_close:
  assumes "unlisted a L st"
  shows "sessions_ok (session_close E a st) L"
proof -
  have head: "sv_sessions (px_server st) \<noteq> Some a"
    using assms hd_ptr_in [of a L] seg_hd [of "px_mem st" None "sv_sessions (px_server st)" L]
    by (auto simp: unlisted_def sessions_ok_def)
  define st1 where "st1 = upd a (\<lambda>s. s\<lparr>s_closing := 2\<rparr>) st"
  define st4 where "st4 = close_target_transport E a (close_client_transport E a (close_unregister E a st1))"
  have loc: "local_step a st st4"
    unfolding st4_def st1_def by (rule close_steps_all)
  then have "server_unlink_session a st4 = st4"
    using assms head by (simp add: server_unlink_session_def unlisted_def local_step_def Let_def)
  then have "session_close E a st = close_free E a st4"
    using assms by (simp add: session_close_def Let_def st1_def st4_def unlisted_def)
  moreover have "sessions_ok (close_free E a st4) L = sessions_ok st L"
    using loc assms by (intro sessions_ok_other [of a]) (simp_all add: local_step_def unlisted_def)
  ultimately show ?thesis using assms by (simp add: unlisted_def)
qed

lemma session_link_list:
  assumes "unlisted a L st" and "Suc (length L) < size_lim"
  shows "sessions_ok (session_link E a st) (a # L)"
proof -
  have ok: "sessions_ok st L" and a: "a \<notin> set L" "s_closing (px_mem st a) = 0" using assms(1) by (simp_all add: unlisted_def)
  then have h: "sv_sessions (px_server st) = hd_ptr L" using seg_hd by (auto simp: sessions_ok_def)
  have act: "sz_add (sv_active_connections (px_server st)) 1 = Suc (length L)"
    using ok assms(2) by (simp add: sessions_ok_def sz_add_id)
  let ?st = "session_link E a st"
  have m: "s_next (px_mem ?st b) = (if b = a then hd_ptr L else s_next (px_mem st b))"
    "s_prev (px_mem ?st b) = (if b = a then None else if Some b = hd_ptr L then Some a else s_prev (px_mem st b))"
    "s_closing (px_mem ?st b) = s_closing (px_mem st b)"
    "sv_sessions (px_server ?st) = Some a" "sv_active_connections (px_server ?st) = Suc (length L)" for b
    using a h act hd_ptr_in [of a L]
    by (auto simp: session_link_def Let_def px_time_def sys_eq split: option.splits)
  have "seg (px_mem ?st) (Some a) (hd_ptr L) L None"
  proof (cases L)
    case (Cons b M)
    have "b \<noteq> a" "b \<notin> set M" "a \<notin> set M" using ok a Cons by (auto simp: sessions_ok_def)
    then have "seg (px_mem ?st) (Some b) (s_next (px_mem st b)) M None = seg (px_mem st) (Some b) (s_next (px_mem st b)) M None"
      using Cons by (intro seg_cong) (auto simp: m hd_ptr_Cons)
    moreover have "seg (px_mem st) (Some b) (s_next (px_mem st b)) M None" using ok Cons by (simp add: sessions_ok_def)
    ultimately show ?thesis using Cons \<open>b \<noteq> a\<close> by (simp add: m hd_ptr_Cons)
  qed (simp add: hd_ptr_def)
  then show ?thesis using ok a by (simp add: sessions_ok_def m)
qed

text \<open>The result of creating a session at a fresh address.\<close>

definition created :: "addr \<Rightarrow> addr list \<Rightarrow> addr ptr \<times> proxy \<Rightarrow> bool" where
  "created a L r \<longleftrightarrow>
     (case r of (None, st') \<Rightarrow> sessions_ok st' L | (Some b, st') \<Rightarrow> b = a \<and> sessions_ok st' (a # L))"

lemma register_list:
  assumes "unlisted a L st" and "Suc (length L) < size_lim"
  shows "created a L (session_register E a fd st)"
proof -
  obtain rc st1 where l: "px_loop_add E fd (if client_tls_enabled (px_config st) then SOCKIFY_EVENT_READ OR SOCKIFY_EVENT_WRITE
      else SOCKIFY_EVENT_READ) session_cb (Ud_side a SESSION_SIDE_CLIENT) st = (rc, st1)" by fastforce
  have "unlisted a L st1 = unlisted a L st"
    using l by (intro unlisted_same) (auto simp: px_loop_add_def split: prod.splits)
  then show ?thesis
    using assms l unlisted_close session_link_list by (simp add: session_register_def created_def)
qed

lemma alloc_list:
  assumes "unlisted a L st" and "Suc (length L) < size_lim"
  shows "created a L (session_alloc E a fd n st)"
proof -
  have malloc: "unlisted a L st1 = unlisted a L st0" if "px_malloc E k st0 = (p, c, st1)" for k st0 p c st1
    using that by (intro unlisted_same) (auto simp: px_malloc_def sys_eq)
  obtain p1 c1 st1 where m1: "px_malloc E n st = (p1, c1, st1)" by (metis prod_cases3)
  obtain p2 c2 st2 where m2: "px_malloc E n st1 = (p2, c2, st2)" by (metis prod_cases3)
  obtain p3 c3 st3 where m3: "px_malloc E (SOCKIFY_PROXY_IO_CHUNK + 14) st2 = (p3, c3, st3)" by (metis prod_cases3)
  have "unlisted a L st3" using assms(1) malloc m1 m2 m3 by simp
  then show ?thesis
    using m1 m2 m3 assms(2)
    by (auto simp: session_alloc_def Let_def intro!: register_list) (auto simp: created_def unlisted_close)
qed

lemma create_list:
  assumes "sessions_ok st L" and "Suc (length L) < size_lim"
    and "a = nat (r_ret (env_os E (px_trace st) (Call_mem (Mem_calloc sizeof_session))))" and "a \<notin> set L"
  shows "created a L (session_create E fd st)"
proof -
  define st1 where "st1 = st\<lparr>px_mem := (px_mem st)(a := zero_session\<lparr>s_client_fd := fd, s_target_fd := sockify_net_invalid_socket\<rparr>),
     px_live := (px_live st)(a := True),
     px_trace := snd (sys (env_os E) (Call_mem (Mem_calloc sizeof_session)) (px_trace st))\<rparr>"
  have "sessions_ok st1 L = sessions_ok st L"
    using assms(4) by (intro sessions_ok_other [of a]) (simp_all add: st1_def)
  then have u1: "unlisted a L st1" using assms(1,4) by (simp add: unlisted_def st1_def zero_session_def)
  then have u: "unlisted a L (st1\<lparr>px_trace := tr\<rparr>)" for tr
    using unlisted_same [of "st1\<lparr>px_trace := tr\<rparr>" st1] by simp
  obtain rc tp tr where t: "sockify_transport_init_tls (env_tls E) (env_os E) (Some (s_client_transport (px_mem st1 a))) fd
      (sv_client_tls_context (px_server st1)) True None (px_trace st1) = (rc, tp, tr)" by (metis prod_cases3)
  have same: "sessions_ok (st\<lparr>px_trace := tr\<rparr>) L" for tr using assms(1) by (simp add: sessions_ok_def)
  have eq: "session_create E fd st = (if r_ret (env_os E (px_trace st) (Call_mem (Mem_calloc sizeof_session))) = 0
     then (None, st\<lparr>px_trace := px_trace st1\<rparr>)
     else let rest = \<lambda>st2. session_alloc E a fd (session_buffer_size (px_config st))
            (upd a (\<lambda>s. s\<lparr>s_target_transport := the (snd (sockify_transport_init_plain (Some zero_transport) sockify_net_invalid_socket)),
               s_target_tls_ready := \<not> target_tls_enabled (px_config st2)\<rparr>) st2)
      in if client_tls_enabled (px_config st) then
           let st2 = upd a (\<lambda>s. s\<lparr>s_client_transport := the tp\<rparr>) (st1\<lparr>px_trace := tr\<rparr>)
           in if rc \<noteq> SOCKIFY_OK then (None, session_close E a st2)
              else rest (upd a (\<lambda>s. s\<lparr>s_client_tls_ready := False\<rparr>) st2)
         else rest (upd a (\<lambda>s. s\<lparr>s_client_transport := the (snd (sockify_transport_init_plain (Some zero_transport) fd)),
            s_client_tls_ready := True\<rparr>) st1))"
    using t by (simp add: session_create_def Let_def sys_eq st1_def assms(3))
  show ?thesis
    using u u1 same assms(2) unfolding eq Let_def
    by (auto intro!: alloc_list) (auto simp: created_def unlisted_close)
qed

end
