(* ===== verification/Server_Props.thy ===== *)
theory Server_Props
  imports Session_List Relay_Demo
begin

text \<open>
  Properties of the server of \<^verbatim>\<open>src/proxy/proxy.c\<close>: its list of sessions under events, creation, timeouts
  and shutdown, the limit on connections, and a connection to the target that is established at once.
\<close>

section \<open>The list of sessions\<close>

lemma demo_sessions: "sessions_ok demo_created [200]"
proof -
  have "sessions_ok demo_start []" by (simp add: sessions_ok_def demo_start_def initial_proxy_def Let_def)
  from create_list [OF this, of 200 demo_env 5] demo_create(1) show ?thesis
    by (simp add: created_def ret_def size_lim_def)
qed

text \<open>
  Property C24. Every event of a listed session, whatever the kernel, the client and the target do,
  keeps the list of sessions a well-formed doubly linked list whose length is the number of active
  connections: either the session is still open and the list is the same, or it is closed and exactly
  this session has been taken out.
\<close>

theorem session_event_keeps_list:
  assumes "sessions_ok st L" and "a \<in> set L"
  shows "let st' = session_event_callback E ev (Ud_side a sd) st
    in if s_closing (px_mem st' a) = 2 then sessions_ok st' (remove1 a L) else sessions_ok st' L"
proof -
  have "kept a L st" using assms by (simp add: kept_def sessions_ok_def)
  from kept_event [OF this, of E ev sd] show ?thesis by (simp add: kept_def Let_def split: if_splits)
qed

theorem session_event_keeps_list_witness: "sessions_ok demo_answered [200]"
  using session_event_keeps_list [OF demo_sessions, of 200 demo_env SOCKIFY_EVENT_READ SESSION_SIDE_CLIENT]
    demo_answered_mem(2)
  by (simp add: demo_answered_def Let_def)

text \<open>
  Property C25. Creating a session either fails and leaves the list of sessions as it is, or puts the new
  session in front of it and counts it, if \<^verbatim>\<open>calloc\<close> does not return the address of a session in the list.
\<close>

theorem session_create_links:
  assumes "sessions_ok st L" and "Suc (length L) < size_lim"
    and "nat (r_ret (env_os E (px_trace st) (Call_mem (Mem_calloc sizeof_session)))) \<notin> set L"
  shows "case session_create E fd st of
      (None, st') \<Rightarrow> sessions_ok st' L
    | (Some a, st') \<Rightarrow> sessions_ok st' (a # L) \<and> a \<notin> set L"
  using create_list [OF assms(1,2) refl assms(3), of fd] assms(3)
  by (auto simp: created_def split: prod.splits option.splits)

theorem session_create_links_witness: "session_create demo_env 5 demo_start = (Some 200, demo_created) \<and> sessions_ok demo_created [200]"
proof -
  have "sessions_ok demo_start []" by (simp add: sessions_ok_def demo_start_def initial_proxy_def Let_def)
  from session_create_links [OF this, of demo_env 5] show ?thesis
    using demo_create(1) by (simp add: size_lim_def)
qed

text \<open>
  Property C26. \<^verbatim>\<open>proxy_tick\<close> always returns. Afterwards exactly the sessions whose timeout had been reached
  at the time it read are closed and out of the list, which is well formed; the other sessions are as they
  were, but for their links.
\<close>

theorem proxy_tick_closes_expired:
  assumes "sessions_ok st L"
  shows "\<exists>st'. proxy_tick E st = Some st' \<and>
    (let now = fst (px_time E st)
     in sessions_ok st' (filter (\<lambda>a. \<not> session_is_expired (px_mem st a) (px_config st) now) L) \<and>
        swept (\<lambda>a. session_is_expired (px_mem st a) (px_config st) now) L st st')"
proof -
  have h: "sv_sessions (px_server st) = hd_ptr L" using assms seg_hd by (auto simp: sessions_ok_def)
  obtain now st1 where t: "px_time E st = (now, st1)" by fastforce
  have st1: "px_mem st1 = px_mem st" "px_server st1 = px_server st" "px_live st1 = px_live st"
    using t by (auto simp: px_time_def sys_eq)
  let ?x = "\<lambda>a. session_is_expired (px_mem st a) (px_config st) now"
  show ?thesis
  proof (cases "sv_sessions (px_server st) = None \<or> handshake_timeout_ms (px_config st) = 0 \<and>
      idle_timeout_ms (px_config st) = 0 \<and> connect_timeout_ms (px_config st) = 0")
    case True
    have none: "\<not> ?x a" if "a \<in> set L" for a
      using True h that by (cases L) (auto simp: hd_ptr_def session_is_expired_def)
    then have "filter (\<lambda>a. \<not> ?x a) L = L" by simp
    moreover have "swept ?x L st st" using none by (auto simp: swept_def)
    moreover have "proxy_tick E st = Some st" using True by (auto simp: proxy_tick_def)
    ultimately show ?thesis using assms t by simp
  next
    case False
    have "sessions_ok st1 ([] @ L)" using assms st1 by (simp add: sessions_ok_def)
    from tick_loop_run [OF this, of E now] obtain st' where "tick_loop E now (hd_ptr L) st1 = Some st'"
      "sessions_ok st' (filter (\<lambda>a. \<not> expired now st1 a) L)" "swept (expired now st1) L st1 st'" by auto
    moreover have "expired now st1 = ?x" by (simp add: expired_def st1 fun_eq_iff)
    moreover have "swept ?x L st1 st' = swept ?x L st st'" by (simp add: swept_def st1)
    moreover have "proxy_tick E st = tick_loop E now (hd_ptr L) st1"
      using False t h st1 by (auto simp: proxy_tick_def)
    ultimately show ?thesis using t by simp
  qed
qed

theorem proxy_tick_closes_expired_witness:
  "\<exists>st'. proxy_tick demo_env demo_created = Some st' \<and> sessions_ok st' (filter (\<lambda>a. \<not> session_is_expired (px_mem demo_created a)
     (px_config demo_created) (fst (px_time demo_env demo_created))) [200])"
  using proxy_tick_closes_expired [OF demo_sessions, of demo_env] by (auto simp: Let_def simp del: filter.simps)

text \<open>
  Property C27. The loop that closes the sessions when the proxy ends always returns; afterwards every
  session of the list is closed and freed, the list is empty and no connection is counted.
\<close>

theorem close_all_terminates:
  assumes "sessions_ok st L"
  shows "\<exists>st'. close_all E st = Some st' \<and> sv_sessions (px_server st') = None \<and>
    sv_active_connections (px_server st') = 0 \<and> (\<forall>a \<in> set L. s_closing (px_mem st' a) = 2 \<and> \<not> px_live st' a)"
  using close_all_run [OF assms, of E] by (auto simp: sessions_ok_def swept_def)

theorem close_all_terminates_witness:
  "\<exists>st'. close_all demo_env demo_created = Some st' \<and> sv_sessions (px_server st') = None \<and>
    s_closing (px_mem st' 200) = 2"
  using close_all_terminates [OF demo_sessions, of demo_env] by auto

section \<open>The limit on connections\<close>

text \<open>The configuration stays, and at most \<open>k\<close> connections are added.\<close>

definition grows :: "nat \<Rightarrow> proxy \<Rightarrow> proxy \<Rightarrow> bool" where
  "grows k st st' \<longleftrightarrow>
     px_config st' = px_config st \<and>
     sv_active_connections (px_server st') \<le> sv_active_connections (px_server st) + k"

lemma grows_trans: "grows k st st1 \<Longrightarrow> grows m st1 st2 \<Longrightarrow> grows (k + m) st st2"
  by (simp add: grows_def)

lemma grows_server: "px_server st' = px_server st \<Longrightarrow> grows k st st'"
  by (simp add: grows_def)

lemma grows_close: "grows k st (session_close E a st)"
proof -
  define st1 where "st1 = upd a (\<lambda>s. s\<lparr>s_closing := 2\<rparr>) st"
  define st4 where "st4 = close_target_transport E a (close_client_transport E a (close_unregister E a st1))"
  have "local_step a st st4"
    unfolding st4_def st1_def by (rule close_steps_all)
  moreover have "px_config (server_unlink_session a st4) = px_config st4"
    by (simp add: server_unlink_session_def unlink_rest_def Let_def split: option.splits)
  ultimately show ?thesis
    using active_unlink [of a st4]
    by (auto simp: grows_def local_step_def session_close_def Let_def st1_def st4_def)
qed

lemma grows_link: "grows 1 st (session_link E a st)"
  by (auto simp: grows_def session_link_def Let_def px_time_def sys_eq sz_add_def split: option.splits)

lemma grows_register:
  assumes "session_register E a fd st = (r, st')"
  shows "grows 1 st st'"
proof -
  obtain rc st1 where l: "px_loop_add E fd (if client_tls_enabled (px_config st) then SOCKIFY_EVENT_READ OR SOCKIFY_EVENT_WRITE
      else SOCKIFY_EVENT_READ) session_cb (Ud_side a SESSION_SIDE_CLIENT) st = (rc, st1)" by fastforce
  then have "grows 0 st st1" by (auto simp: grows_def px_loop_add_def split: prod.splits)
  from grows_trans [OF this grows_link] grows_trans [OF this grows_close] show ?thesis
    using assms l by (auto simp: session_register_def split: if_splits)
qed

lemma grows_alloc:
  assumes "session_alloc E a fd n st = (r, st')"
  shows "grows 1 st st'"
proof -
  have malloc: "px_server st1 = px_server st0" if "px_malloc E k st0 = (p, c, st1)" for k st0 p c st1
    using that by (auto simp: px_malloc_def sys_eq)
  obtain p1 c1 st1 where m1: "px_malloc E n st = (p1, c1, st1)" by (metis prod_cases3)
  obtain p2 c2 st2 where m2: "px_malloc E n st1 = (p2, c2, st2)" by (metis prod_cases3)
  obtain p3 c3 st3 where m3: "px_malloc E (SOCKIFY_PROXY_IO_CHUNK + 14) st2 = (p3, c3, st3)" by (metis prod_cases3)
  have upd3: "grows 0 st (upd a f st3)" "grows 0 st (upd a g (upd a f st3))" for f g
    using malloc [OF m1] malloc [OF m2] malloc [OF m3] by (auto intro: grows_server)
  note close = grows_trans [OF upd3(1) grows_close, of 1, simplified]
    and reg = grows_trans [OF upd3(2) grows_register, simplified]
  show ?thesis
    using assms m1 m2 m3 by (auto simp: session_alloc_def Let_def intro: close reg split: if_splits)
qed

lemma grows_create:
  assumes "session_create E fd st = (r, st')"
  shows "grows 1 st st'"
proof -
  have alloc: "grows 1 st st'" if "session_alloc E a fd n st1 = (r, st')" "px_server st1 = px_server st" for a n st1
    using grows_trans [OF grows_server [OF that(2), of 0] grows_alloc [OF that(1)]] by simp
  have close: "grows 1 st (session_close E a st1)" if "px_server st1 = px_server st" for a st1
    using grows_trans [OF grows_server [OF that, of 0] grows_close [of 1]] by simp
  show ?thesis
    using assms
    by (auto simp: session_create_def Let_def sys_eq intro: alloc [unfolded One_nat_def] close [unfolded One_nat_def]
        grows_server split: if_splits prod.splits)
qed

lemma accept_loop_limit:
  "sv_active_connections (px_server st) \<le> max_connections (px_config st) \<Longrightarrow>
     sv_active_connections (px_server (accept_loop n E fd st)) \<le> max_connections (px_config st)"
proof (induction n arbitrary: st)
  case (Suc n)
  obtain rc cfd tr where a: "sockify_net_accept (env_platform E) (env_os E) fd (px_trace st) = (rc, cfd, tr)"
    by (metis prod_cases3)
  let ?st1 = "st\<lparr>px_trace := tr\<rparr>"
  obtain r st2 where c: "session_create E cfd ?st1 = (r, st2)" by fastforce
  from grows_create [OF c] have g: "px_config st2 = px_config st"
    "sv_active_connections (px_server st2) \<le> Suc (sv_active_connections (px_server st))" by (simp_all add: grows_def)
  have "sv_active_connections (px_server (accept_loop n E fd (px_net_close E cfd ?st1))) \<le> max_connections (px_config st)"
    using Suc.IH [of "px_net_close E cfd ?st1"] Suc.prems by simp
  moreover have "sv_active_connections (px_server st2) \<le> max_connections (px_config st) \<and>
      sv_active_connections (px_server (accept_loop n E fd st2)) \<le> max_connections (px_config st)"
    if "sv_active_connections (px_server st) < max_connections (px_config st)"
    using Suc.IH [of st2] g that by simp
  ultimately show ?case
    using a c Suc.prems by (auto simp: Let_def split: option.splits)
qed simp

text \<open>
  Property C28. The listener never takes the number of active connections above
  \<^verbatim>\<open>max_connections\<close>, however many connections are waiting and whatever fails while a session is
  created.
\<close>

theorem accept_within_limit:
  assumes "sv_active_connections (px_server st) \<le> max_connections (px_config st)"
  shows "sv_active_connections (px_server (listener_callback E fd ev st)) \<le> max_connections (px_config st)"
  using assms accept_loop_limit by (simp add: listener_callback_def)

theorem accept_within_limit_witness:
  "sv_active_connections (px_server (listener_callback demo_env 3 SOCKIFY_EVENT_READ demo_start)) \<le> max_connections (px_config demo_start)"
  by (rule accept_within_limit) (simp add: demo_start_def initial_proxy_def Let_def)

section \<open>A connection to the target that is established at once\<close>

text \<open>
  Property C30. If \<^verbatim>\<open>connect\<close> to the target succeeds at once, no TLS connection is made: the TLS step of the
  next event on the target marks the target ready without any call, and the transport is the plain
  socket. This holds also with \<^verbatim>\<open>target_tls_enabled\<close>, when the target was not ready before, so that the
  data is then sent without encryption and verification.
\<close>

theorem immediate_connect_skips_tls:
  assumes "session_start_target E a st = (SOCKIFY_OK, st1)"
    and "s_target_fd (px_mem st a) = sockify_net_invalid_socket"
    and "\<not> s_target_connecting (px_mem st1 a)" and "\<not> s_target_tls_ready (px_mem st a)"
  shows "\<exists>st2. session_drive_target_tls E a st1 = (SOCKIFY_OK, st2) \<and> s_target_tls_ready (px_mem st2 a) \<and>
    px_trace st2 = px_trace st1 \<and>
    transport_chan (s_target_transport (px_mem st2 a)) = Some (Chan_fd (s_target_fd (px_mem st2 a)))"
proof -
  have "t_type (s_target_transport (px_mem st1 a)) = SOCKIFY_TRANSPORT_PLAIN" "\<not> s_target_tls_ready (px_mem st1 a)"
    "t_fd (s_target_transport (px_mem st1 a)) = s_target_fd (px_mem st1 a)"
    using assms(1,2,4)
    by (auto simp: session_start_target_def session_register_target_def px_loop_add_def px_time_def sys_eq Let_def
        sockify_transport_init_plain_def split: if_splits prod.splits)
  then show ?thesis
    by (simp add: session_drive_target_tls_def sockify_transport_handshake_def transport_chan_def Let_def)
qed

text \<open>The session of the demonstration with TLS to the target.\<close>

definition demo_tls :: proxy where
  "demo_tls = upd 200 (\<lambda>s. s\<lparr>s_target_tls_ready := False\<rparr>)
     (demo_created\<lparr>px_server := (px_server demo_created)\<lparr>sv_config := plain_config\<lparr>target_tls_enabled := True\<rparr>\<rparr>\<rparr>)"

theorem immediate_connect_skips_tls_witness:
  "\<exists>st1 st2. session_start_target demo_env 200 demo_tls = (SOCKIFY_OK, st1) \<and>
    session_drive_target_tls demo_env 200 st1 = (SOCKIFY_OK, st2) \<and> target_tls_enabled (px_config demo_tls) \<and>
    s_target_tls_ready (px_mem st2 200)"
proof -
  obtain rc st1 where s: "session_start_target demo_env 200 demo_tls = (rc, st1)" by fastforce
  have fd: "s_target_fd (px_mem demo_tls 200) = sockify_net_invalid_socket" "\<not> s_target_tls_ready (px_mem demo_tls 200)"
    "target_tls_enabled (px_config demo_tls)"
    using demo_create(6) by (simp_all add: demo_tls_def)
  have "rc = SOCKIFY_OK \<and> \<not> s_target_connecting (px_mem st1 200)"
    using s demo_create demo_new fd
    by (simp add: demo_tls_def session_start_target_def sockify_net_connect_def sys_eq ret_def connect_one_def
        sockify_net_set_nonblocking_def sockify_net_set_tcp_nodelay_def px_time_def sockify_transport_init_plain_def
        session_register_target_def new_session_def px_loop_add_def sockify_event_loop_add_def new_loop_def
        poll_add_def poll_find_def poll_grow_def Let_def) auto
  then show ?thesis using immediate_connect_skips_tls [of demo_env 200 demo_tls st1] s fd by auto
qed

end
