(* ===== verification/Spec2Isabelle.thy ===== *)
theory Spec2Isabelle
  imports Tls_Props Program Relay_Demo Server_Props
begin

text \<open>
  \<^bold>\<open>Sockify\<close>, a WebSocket-to-TCP proxy in C. It accepts WebSocket clients, with or without TLS, opens a TCP
  connection to a fixed target for each of them, with or without TLS, and relays: the payload of the
  client's frames goes to the target, the bytes of the target go to the client in binary frames. This
  library models the POSIX build of the program completely, function by function, and proves what makes
  its parts and the relay as a whole correct.

  \<^bold>\<open>The parts of the program and the theories that model them.\<close>

  \<^item> \<open>Prelude\<close>: return codes (\<^verbatim>\<open>include/sockify/core.h\<close>, the two TLS codes of \<^verbatim>\<open>include/sockify/tls.h\<close>), the
    machine types as words, \<^verbatim>\<open>size_t\<close> as naturals with wrapping operations \<open>sz_add\<close>, \<open>sz_sub\<close>, \<open>sz_mul\<close>,
    null pointers as \<open>None\<close>, and shared lemmas.
  \<^item> \<open>Byte_Order\<close>, \<open>Ring_Buffer\<close>, \<open>Base64\<close>, \<open>Sha1\<close>, \<open>Log\<close>: the files of the same names under \<^verbatim>\<open>src/core\<close>.
  \<^item> \<open>Ws_Frame\<close> and \<open>Ws_Stream\<close>: the streaming frame parser and the frame writer of
    \<^verbatim>\<open>src/ws/ws_frame.c\<close>, with the byte automaton of RFC 6455 as their specification.
  \<^item> \<open>Ws_Handshake\<close>: the upgrade request and its answer, \<^verbatim>\<open>src/ws/ws_handshake.c\<close>.
  \<^item> \<open>Os\<close>: the operating system, the allocator and OpenSSL. They are a parameter: a function \<open>os\<close> from the
    trace of earlier calls and a call to the answer. Every operation that calls them threads the trace.
    What is documented of them and relied upon is the named hypothesis \<open>os_io\<close>.
  \<^item> \<open>Net_Posix\<close>: \<^verbatim>\<open>src/net/net_posix.c\<close>. \<open>Tls\<close>, \<open>Tls_Props\<close>: \<^verbatim>\<open>src/tls/tls_openssl.c\<close> and
    \<^verbatim>\<open>src/tls/tls_none.c\<close>. \<open>Transport\<close>: \<^verbatim>\<open>src/transport/transport.c\<close>.
  \<^item> \<open>Event_Registry\<close>, \<open>Event_Backends\<close>, \<open>Event_Loop\<close>: \<^verbatim>\<open>src/event/event_loop.c\<close> and its backends on
    \<^verbatim>\<open>poll\<close>, \<^verbatim>\<open>epoll\<close> and \<^verbatim>\<open>kqueue\<close>.
  \<^item> \<open>Proxy_Config\<close>, \<open>Session_State\<close>, \<open>Session_Ops\<close>, \<open>Session\<close>, \<open>Server\<close>: \<^verbatim>\<open>src/proxy/proxy.c\<close>, from the
    configuration through one session to \<^verbatim>\<open>sockify_proxy_run\<close> with the run loops of the backends.
  \<^item> \<open>Cli\<close>, \<open>Program\<close>: \<^verbatim>\<open>src/core/cli.c\<close> and \<^verbatim>\<open>src/main.c\<close>.

  \<^bold>\<open>State and effects.\<close> A struct is a record with the fields of the source, prefixed by a letter or two. An
  operation takes the old values and returns the return code, its out-parameters and the new values.
  The state of the proxy is the record \<open>proxy\<close>: the server struct, the sessions by address (their list is
  linked through addresses as in the source), which of them are allocated, and the trace. A session
  that has been freed keeps its last contents, because the code reads \<^verbatim>\<open>session->closing\<close> after a callee
  may have freed the session. Platform and TLS backend, chosen when the program is compiled, and the
  contents of uninitialised memory that is read are in the record \<open>env\<close>.

  \<^bold>\<open>Interfaces.\<close> The locale \<open>event_registry\<close> is what the proxy relies on of an event loop, a finite map
  from descriptors to callbacks; the three backends and the loop that dispatches to them are its
  interpretations. The locale \<open>byte_channel\<close> is what a session relies on of a stream; plain sockets,
  OpenSSL connections, the stub and the transport above them are its interpretations. The proofs about
  sessions use their facts only.

  \<^bold>\<open>What is shown.\<close>

  \<^item> Ring buffer (C1, C12, C13): a FIFO of bytes for any sequence of operations; every branch of write and
    initialisation.
  \<^item> Frames (C2, C3, C4, C7, C8): one call of the parser refines the automaton; decoding inverts an
    independent encoder and does not depend on the cut into reads; a header is accepted exactly if RFC
    6455 allows it; the writer is inverted by an independent reader.
  \<^item> Handshake (C5, C6), SHA-1 (C9, C10) and Base64 (C11): the index loops compute specifications written
    from RFC 6455, FIPS 180-4 and RFC 4648.
  \<^item> Sockets, transports and TLS (C14 to C17, C29): endpoints round trip, no descriptor and no TLS object
    is lost, a transport is a byte stream, no handshake succeeds without verification.
  \<^item> Command line (C18, C19): printing and parsing back; no string ever exceeds its array.
  \<^item> One session (C20, C21, C22): after any sequence of events, the bytes sent to the target are a prefix of
    the client's data, those sent to the client are the answer to its key and frames with a prefix of the
    target's bytes, and nothing is lost in between. \<open>Flow\<close> defines the four byte sequences of a
    session, \<open>Session_Spec\<close> what it promises about them, \<open>Session_Inv\<close> the invariant that ties them to
    buffers, parser and pending output; \<open>Session_Data\<close>, \<open>Session_Client\<close>, \<open>Session_Io\<close>,
    \<open>Session_Target\<close> and \<open>Session_Events\<close> show that every operation and every event keeps it; \<open>Relay\<close>
    starts it at \<^verbatim>\<open>session_create\<close> and draws the conclusions, and \<open>Relay_Demo\<close> runs a concrete session.
  \<^item> Event loop and server (C23 to C28): the registry; the list of sessions under events, creation,
    timeouts and shutdown (\<open>Session_List\<close>, \<open>Server_Props\<close>); the limit on connections. C30 shows a gap: a
    connection to the target that is established at once is used without TLS.

  \<^bold>\<open>Loops and bounds.\<close> Loops with a counter are structural recursion on the rest of the budget; loops over
  an index, and the loop of \<^verbatim>\<open>session_process_ws_bytes\<close>, are functions with a termination measure. The
  padding loop of SHA-1 is \<open>while_option\<close>, the sweep over the sessions and the run loop are partial
  functions into \<open>option\<close>; that the first two return is proved (C10, C26, C27), the run loop need not.
  There is no fuel. Hypotheses on sizes: \<open>size_lim\<close> is \<open>2 ^ 64\<close>; the relay properties ask for rings of at
  least 8192 bytes, so that the bytes behind the longest request head fit, and look at the events of one
  session in isolation, with descriptors and SSL handles that are not handed out twice.

  \<^bold>\<open>Not modelled.\<close> The Windows files \<^verbatim>\<open>src/net/net_windows.c\<close> and \<^verbatim>\<open>src/event/ev_iocp.c\<close>, which the POSIX build
  does not compile; the tests. Log lines are values of \<open>sockify_log\<close> but not part of the state of the
  proxy. In the TLS backend the option and session-cache calls that cannot fail are part of the
  neighbouring recorded call. Elapsed time is an integer product where the code uses doubles, equal as
  long as the difference stays below \<open>2 ^ 53\<close> milliseconds.
\<close>

end
